(* ===== verification/OJ_Prelude.thy ===== *)
theory OJ_Prelude
  imports Complex_Main "HOL-Library.AList" "HOL-Library.Multiset"
begin

text \<open>
  Shared vocabulary of the development: the parts of Go and of its standard library that the
  modelled packages use.

  \<^item> Fixed-width integers. A Go \<open>int\<close> or \<open>int64\<close> is an \<open>int\<close> here; wherever an operand
    comes from configuration or from another process the wrap-around is written out with
    \<open>wrap64\<close>. Counters that only ever grow by one per processed message stay unbounded.
  \<^item> Time. A \<open>time.Time\<close> is a number of nanoseconds since Go's zero time, so \<open>IsZero\<close> is
    \<open>t = 0\<close>; \<open>Sub\<close> saturates at the \<open>int64\<close> range as the library documents.
  \<^item> Strings are byte strings (\<open>char list\<close>); \<open>%d\<close> formatting, \<open>strconv.ParseInt\<close> and the
    few functions of package \<open>strings\<close> in use are defined here.
  \<^item> Maps are association lists when the code ranges over them, since the iteration order is
    then observable.
  \<^item> \<open>sort.Slice\<close> is an insertion sort over the source's comparison function; the lemmas are
    about any order that refines the comparison.
  \<^item> A payload is either the encoding of a value or bytes that do not decode.
\<close>

named_theorems wrap_simps \<open>normalisation of 64-bit arithmetic\<close>
named_theorems go_defs \<open>library functions of Go that proofs may unfold\<close>

type_synonym ID = int
type_synonym time = int
type_synonym error = string

section \<open>64-bit integers\<close>

definition wrap64 :: "int \<Rightarrow> int" where
  "wrap64 x = (x + 2 ^ 63) mod 2 ^ 64 - 2 ^ 63"

abbreviation int64_range :: "int \<Rightarrow> bool" where
  "int64_range x \<equiv> - (2 ^ 63) \<le> x \<and> x < 2 ^ 63"

definition go_quot :: "int \<Rightarrow> int \<Rightarrow> int" where
  "go_quot a b = sgn a * sgn b * (\<bar>a\<bar> div \<bar>b\<bar>)"

lemma wrap64_range: "int64_range (wrap64 x)"
proof -
  have "0 \<le> (x + 2 ^ 63) mod (2 ^ 64 :: int)" and "(x + 2 ^ 63) mod (2 ^ 64 :: int) < 2 ^ 64"
    by simp_all
  then show ?thesis by (simp add: wrap64_def)
qed

lemma wrap64_id [simp, wrap_simps]: "int64_range x \<Longrightarrow> wrap64 x = x"
  by (simp add: wrap64_def)

lemma wrap64_cong_mod: "wrap64 a = wrap64 b \<longleftrightarrow> a mod 2 ^ 64 = b mod 2 ^ 64"
proof -
  have "(a + 2 ^ 63) mod 2 ^ 64 = (b + 2 ^ 63) mod (2 ^ 64 :: int) \<longleftrightarrow> a mod 2 ^ 64 = b mod 2 ^ 64"
    by (simp add: mod_eq_dvd_iff)
  then show ?thesis by (simp add: wrap64_def)
qed

lemma wrap64_mod: "wrap64 x mod 2 ^ 64 = x mod 2 ^ 64"
proof -
  have "((x + 2 ^ 63) mod 2 ^ 64 - 2 ^ 63) mod 2 ^ 64 = (x + 2 ^ 63 - 2 ^ 63) mod (2 ^ 64 :: int)"
    by (rule mod_diff_left_eq)
  then show ?thesis by (simp add: wrap64_def)
qed

lemma wrap64_add_left [wrap_simps]: "wrap64 (wrap64 a + b) = wrap64 (a + b)"
  by (subst wrap64_cong_mod) (rule mod_add_cong [OF wrap64_mod refl])

lemma wrap64_add_right [wrap_simps]: "wrap64 (a + wrap64 b) = wrap64 (a + b)"
  using wrap64_add_left [of b a] by (simp add: add.commute)

lemma wrap64_idem [simp, wrap_simps]: "wrap64 (wrap64 x) = wrap64 x"
  using wrap64_add_left [of x 0] by simp

section \<open>Time\<close>

definition IsZero :: "time \<Rightarrow> bool" where
  "IsZero t \<longleftrightarrow> t = 0"

definition Before :: "time \<Rightarrow> time \<Rightarrow> bool" where
  "Before a b \<longleftrightarrow> a < b"

definition After :: "time \<Rightarrow> time \<Rightarrow> bool" where
  "After a b \<longleftrightarrow> a > b"

lemmas time_cmp [simp, go_defs] = IsZero_def Before_def After_def

definition time_Sub :: "time \<Rightarrow> time \<Rightarrow> int" where
  "time_Sub a b = max (- (2 ^ 63)) (min (2 ^ 63 - 1) (a - b))"

definition second_ns :: int where "second_ns = 1000000000"
definition minute_ns :: int where "minute_ns = 60 * second_ns"

text \<open>
  \<open>int(d.Minutes())\<close>: the float64 quotient truncated towards zero. It equals the integer
  quotient for durations below 182 days, where the float64 sum of whole minutes and fraction
  cannot round up to the next integer.
\<close>

definition int_Minutes :: "int \<Rightarrow> int" where
  "int_Minutes d = go_quot d minute_ns"

definition elapsedMins :: "time \<Rightarrow> time \<Rightarrow> int" where
  "elapsedMins t start = int_Minutes (time_Sub t start)"

lemma int_Minutes_nonneg: "0 \<le> d \<Longrightarrow> 0 \<le> int_Minutes d"
  by (auto simp: int_Minutes_def go_quot_def minute_ns_def second_ns_def zero_le_mult_iff sgn_if pos_imp_zdiv_nonneg_iff)

lemma Max_insert2:
  "finite A \<Longrightarrow> Max (insert a (insert b A)) = Max (insert (max a b) (A :: 'a :: linorder set))"
  by (cases "A = {}") (simp_all add: max.assoc)

section \<open>Decimal formatting\<close>

definition digit_char :: "nat \<Rightarrow> char" where
  "digit_char d = char_of (48 + d)"

fun show_nat :: "nat \<Rightarrow> string" where
  "show_nat n = (if n < 10 then [digit_char n] else show_nat (n div 10) @ [digit_char (n mod 10)])"

definition show_int :: "int \<Rightarrow> string" where
  "show_int i = (if i < 0 then CHR ''-'' # show_nat (nat (- i)) else show_nat (nat i))"

definition digit_value :: "char \<Rightarrow> nat" where
  "digit_value c = of_char c - 48"

definition is_digit :: "char \<Rightarrow> bool" where
  "is_digit c \<longleftrightarrow> 48 \<le> (of_char c :: nat) \<and> (of_char c :: nat) \<le> 57"

definition digits_value :: "string \<Rightarrow> nat" where
  "digits_value s = foldl (\<lambda>a c. 10 * a + digit_value c) 0 s"

text \<open>\<open>strconv.ParseInt(s, 10, 64)\<close>: an optional sign and at least one digit, in range.\<close>

definition parse_digits :: "int \<Rightarrow> string \<Rightarrow> int option" where
  "parse_digits sign s =
     (if s \<noteq> [] \<and> list_all is_digit s \<and> int64_range (sign * int (digits_value s))
      then Some (sign * int (digits_value s)) else None)"

fun parse_int :: "string \<Rightarrow> int option" where
  "parse_int [] = None"
| "parse_int (c # s) =
     (if c = CHR ''-'' then parse_digits (- 1) s
      else if c = CHR ''+'' then parse_digits 1 s
      else parse_digits 1 (c # s))"

declare show_nat.simps [simp del]

lemma of_char_digit [simp]: "d < 10 \<Longrightarrow> of_char (digit_char d) = (48 + d :: nat)"
  by (simp add: digit_char_def)

lemma digit_char_is_digit [simp]: "d < 10 \<Longrightarrow> is_digit (digit_char d)"
  by (simp add: is_digit_def)

lemma show_nat_digits: "list_all is_digit (show_nat n) \<and> show_nat n \<noteq> []"
  by (induction n rule: show_nat.induct) (subst (1 2) show_nat.simps, simp)

lemma digits_value_show_nat [simp]: "digits_value (show_nat n) = n"
proof (induction n rule: show_nat.induct)
  case (1 n)
  then show ?case
    by (subst show_nat.simps) (simp add: digits_value_def digit_value_def)
qed

lemma parse_digits_show_nat:
  "int64_range (sign * int n) \<Longrightarrow> parse_digits sign (show_nat n) = Some (sign * int n)"
  using show_nat_digits [of n] by (simp add: parse_digits_def)

lemma sign_not_digit [simp]: "\<not> is_digit CHR ''-''" "\<not> is_digit CHR ''+''" "\<not> is_digit CHR '':''"
  by (simp_all add: is_digit_def)

lemma show_nat_head: "show_nat n = c # s \<Longrightarrow> is_digit c"
  using show_nat_digits [of n] by simp

lemma parse_show_int: "int64_range i \<Longrightarrow> parse_int (show_int i) = Some i"
proof (cases "i < 0")
  case True
  assume "int64_range i"
  then have "parse_digits (- 1) (show_nat (nat (- i))) = Some (- 1 * int (nat (- i)))"
    using True by (intro parse_digits_show_nat) simp
  then show ?thesis using True by (simp add: show_int_def)
next
  case False
  assume "int64_range i"
  then have *: "parse_digits 1 (show_nat (nat i)) = Some i"
    using False parse_digits_show_nat [of 1 "nat i"] by simp
  obtain c s where "show_nat (nat i) = c # s" using show_nat_digits by (metis list.exhaust)
  moreover from this have "c \<noteq> CHR ''-''" "c \<noteq> CHR ''+''" using show_nat_head by force+
  ultimately show ?thesis using * False by (simp add: show_int_def)
qed

lemma show_nat_inj [simp]: "show_nat m = show_nat n \<longleftrightarrow> m = n"
  by (metis digits_value_show_nat)

lemma show_int_inj [simp]: "show_int i = show_int j \<longleftrightarrow> i = j"
proof
  assume eq: "show_int i = show_int j"
  have "CHR ''-'' # s \<noteq> show_nat n" for s n
    using show_nat_head [of n "CHR ''-''" s] by auto
  with eq show "i = j"
    by (cases "i < 0"; cases "j < 0") (simp_all add: show_int_def, metis)
qed simp

lemma show_int_no_colon: "CHR '':'' \<notin> set (show_int i)"
  using show_nat_digits [of "nat i"] show_nat_digits [of "nat (- i)"]
  by (auto simp: show_int_def list_all_iff)

lemma sep_append_inj:
  assumes "c \<notin> set a" and "c \<notin> set a'"
  shows "a @ c # b = a' @ c # b' \<longleftrightarrow> a = a' \<and> b = b'"
proof
  assume eq: "a @ c # b = a' @ c # b'"
  have "takeWhile (\<lambda>x. x \<noteq> c) (a @ c # b) = a" "takeWhile (\<lambda>x. x \<noteq> c) (a' @ c # b') = a'"
      using assms by (auto simp: takeWhile_append)
  with eq show "a = a' \<and> b = b'" by simp
qed simp

section \<open>Association lists\<close>

lemma set_AList_update: "set (AList.update k v al) \<subseteq> insert (k, v) (set al)"
  by (induction al) auto

lemma foldl_AList_update_set:
  "set (foldl (\<lambda>m x. AList.update (k x) (v x) m) m xs) \<subseteq> set m \<union> (\<lambda>x. (k x, v x)) ` set xs"
proof (induction xs arbitrary: m)
  case (Cons x xs)
  then show ?case using set_AList_update [of "k x" "v x" m] by fastforce
qed simp

lemma AList_update_map:
  "AList.update k (g v) (map (apsnd g) al) = map (apsnd g) (AList.update k v al)"
  by (induction al) auto

lemma map_of_apsnd: "map_of (map (apsnd g) al) k = map_option g (map_of al k)"
  by (induction al) auto

section \<open>Payloads\<close>

datatype 'a payload = Encoded 'a | Malformed

fun decode :: "'a payload \<Rightarrow> 'a option" where
  "decode (Encoded x) = Some x"
| "decode Malformed = None"

section \<open>Sorting with a comparison function\<close>

fun insert_by :: "('a \<Rightarrow> 'a \<Rightarrow> bool) \<Rightarrow> 'a \<Rightarrow> 'a list \<Rightarrow> 'a list" where
  "insert_by lt x [] = [x]"
| "insert_by lt x (y # ys) = (if lt y x then y # insert_by lt x ys else x # y # ys)"

fun sort_slice :: "('a \<Rightarrow> 'a \<Rightarrow> bool) \<Rightarrow> 'a list \<Rightarrow> 'a list" where
  "sort_slice lt [] = []"
| "sort_slice lt (x # xs) = insert_by lt x (sort_slice lt xs)"

lemma mset_insert_by [simp]: "mset (insert_by lt x xs) = add_mset x (mset xs)"
  by (induction xs) auto

lemma set_insert_by [simp]: "set (insert_by lt x xs) = insert x (set xs)"
  by (induction xs) auto

lemma mset_sort_slice [simp]: "mset (sort_slice lt xs) = mset xs"
  by (induction xs) auto

lemma set_sort_slice [simp]: "set (sort_slice lt xs) = set xs"
  by (induction xs) auto

lemma length_sort_slice [simp]: "length (sort_slice lt xs) = length xs"
  by (metis mset_sort_slice size_mset)

lemma distinct_sort_slice [simp]: "distinct (map f (sort_slice lt xs)) = distinct (map f xs)"
proof -
  have "mset (map f (sort_slice lt xs)) = mset (map f xs)" by simp
  then show ?thesis by (rule mset_eq_imp_distinct_iff)
qed

lemma sort_slice_map:
  assumes "\<And>a b. lt (f a) (f b) = lt' a b"
  shows "sort_slice lt (map f xs) = map f (sort_slice lt' xs)"
proof -
  have ins: "insert_by lt (f x) (map f ys) = map f (insert_by lt' x ys)" for x ys
    by (induction ys) (simp_all add: assms)
  show ?thesis by (induction xs) (simp_all add: ins)
qed

text \<open>
  The contract of \<open>sort.Slice\<close>: for a strict weak order the result has no later element that
  is less than an earlier one.
\<close>

locale weak_order =
  fixes lt :: "'a \<Rightarrow> 'a \<Rightarrow> bool"
  assumes asym: "lt a b \<Longrightarrow> \<not> lt b a"
    and trans: "lt a b \<Longrightarrow> lt b c \<Longrightarrow> lt a c"
    and neg_trans: "lt a c \<Longrightarrow> lt a b \<or> lt b c"
begin

lemma not_less_trans: "\<not> lt b a \<Longrightarrow> \<not> lt c b \<Longrightarrow> \<not> lt c a"
  using neg_trans by blast

lemma sorted_insert_by:
  "sorted_wrt (\<lambda>a b. \<not> lt b a) xs \<Longrightarrow> sorted_wrt (\<lambda>a b. \<not> lt b a) (insert_by lt x xs)"
  by (induction xs) (auto dest: asym not_less_trans)

lemma sorted_sort_slice: "sorted_wrt (\<lambda>a b. \<not> lt b a) (sort_slice lt xs)"
  by (induction xs) (auto intro: sorted_insert_by)

end

text \<open>
  Where the comparison separates any two different elements of the slice, the result does not
  depend on the order in which the elements came in.
\<close>

locale strict_total_order = weak_order lt for lt :: "'a \<Rightarrow> 'a \<Rightarrow> bool" +
  fixes dom :: "'a \<Rightarrow> 'k"
  assumes total: "dom a \<noteq> dom b \<Longrightarrow> lt a b \<or> lt b a"
begin

lemma sorted_unique:
  "sorted_wrt (\<lambda>a b. \<not> lt b a) xs \<Longrightarrow> sorted_wrt (\<lambda>a b. \<not> lt b a) ys \<Longrightarrow>
   mset xs = mset ys \<Longrightarrow> inj_on dom (set xs) \<Longrightarrow> xs = ys"
proof (induction xs arbitrary: ys)
  case Nil
  then show ?case by simp
next
  case (Cons x xs)
  then obtain y zs where ys: "ys = y # zs" by (cases ys) auto
  have sets: "insert x (set xs) = insert y (set zs)"
    using Cons.prems(3) ys by (metis list.simps(15) set_mset_mset)
  have "x = y"
  proof (rule ccontr)
    assume ne: "x \<noteq> y"
    with sets have "y \<in> set xs" and "x \<in> set zs" by auto
    with Cons.prems(1,2) ys have "\<not> lt y x" and "\<not> lt x y" by auto
    with total have "dom x = dom y" by blast
    with Cons.prems(4) \<open>y \<in> set xs\<close> ne show False by (auto simp: inj_on_def)
  qed
  with Cons.prems ys have "xs = zs" by (intro Cons.IH) auto
  with \<open>x = y\<close> ys show ?case by simp
qed

lemma sort_slice_perm:
  assumes "mset xs = mset ys" and "inj_on dom (set xs)"
  shows "sort_slice lt xs = sort_slice lt ys"
  by (rule sorted_unique) (use assms in \<open>auto simp: sorted_sort_slice\<close>)

end

end
