(* ===== verification/Models.thy ===== *)
theory Models
  imports OJ_Prelude
begin

text \<open>
  Package \<open>models\<close> and the message types of package \<open>mq\<close>: identifiers and enumerations,
  contests with their settings and time-derived phase, problems, submissions, judge tasks and
  judge results.

  The Go enumerations are string types, so a value read from the database or from a queue may
  be none of the declared constants; each datatype has an \<open>Other\<close> constructor for those.
  Settings are a JSON object; a JSON number is the rational value of the float64 that
  \<open>encoding/json\<close> produces.
\<close>

section \<open>Enumerations\<close>

datatype Language =
    LangC | LangCPP17 | LangCPP20 | LangJava | LangPython | LangGo | LangRust
  | LangOther string

datatype JudgeType =
    JudgeStandard | JudgeSpecial | JudgeInteractive | JudgeCommunication
  | JudgeOther string

datatype SubmissionStatus =
    StatusPending | StatusCompiling | StatusJudging | StatusAccepted | StatusWrongAnswer
  | StatusTLE | StatusMLE | StatusRE | StatusCE | StatusSE | StatusSuperseded
  | StatusOther string

datatype UserRole = RoleAdmin | RoleContestant | RoleGuest | RoleOther string

datatype ContestType =
    ContestICPC | ContestOI | ContestIOI | ContestTeam | ContestCustom
  | ContestOther string

datatype ContestStatus =
    ContestStatusDraft | ContestStatusReady | ContestStatusRunning | ContestStatusFrozen
  | ContestStatusEnded

section \<open>Contest settings\<close>

datatype json =
    JNull | JBool bool | JNumber rat | JString string
  | JArray "json list" | JObject "(string \<times> json) list"

type_synonym ContestSettings = "string \<rightharpoonup> json"

text \<open>
  Go's conversion of a float64 to a 64-bit integer truncates towards zero; out of range it
  yields the minimal value on amd64.
\<close>

definition float_to_int64 :: "rat \<Rightarrow> int" where
  "float_to_int64 f =
     (let t = (if 0 \<le> f then \<lfloor>f\<rfloor> else \<lceil>f\<rceil>)
      in if int64_range t then t else - (2 ^ 63))"

definition PenaltyMinutes :: "ContestSettings \<Rightarrow> int" where
  "PenaltyMinutes s =
     (case s ''penalty_minutes'' of
        Some (JNumber f) \<Rightarrow> if f \<ge> 0 then float_to_int64 f else 20
      | _ \<Rightarrow> 20)"

definition CENoPenalty :: "ContestSettings \<Rightarrow> bool" where
  "CENoPenalty s =
     (case s ''ce_no_penalty'' of
        Some (JBool v) \<Rightarrow> v
      | _ \<Rightarrow> True)"

lemma float_to_int64_range: "int64_range (float_to_int64 f)"
  by (simp add: float_to_int64_def Let_def)

lemma PenaltyMinutes_range: "int64_range (PenaltyMinutes s)"
  unfolding PenaltyMinutes_def
  by (auto split: option.split json.split simp: float_to_int64_range [simplified])

section \<open>Contests\<close>

record contest =
  c_ID :: ID
  c_Title :: string
  c_Description :: string
  c_ContestType :: ContestType
  c_Status :: ContestStatus
  c_StartTime :: time
  c_EndTime :: time
  c_FreezeTime :: "time option"
  c_Settings :: ContestSettings
  c_IsPublic :: bool
  c_AllowLateRegister :: bool
  c_OrganizerID :: ID
  c_CreatedAt :: time
  c_UpdatedAt :: time

definition EffectiveStatus :: "contest \<Rightarrow> time \<Rightarrow> ContestStatus" where
  "EffectiveStatus c now =
     (if \<not> IsZero (c_StartTime c) \<and> Before now (c_StartTime c) then ContestStatusReady
      else if \<not> IsZero (c_EndTime c) \<and> \<not> Before now (c_EndTime c) then ContestStatusEnded
      else case c_FreezeTime c of
             Some f \<Rightarrow> if \<not> Before now f then ContestStatusFrozen else ContestStatusRunning
           | None \<Rightarrow> ContestStatusRunning)"

definition IsBlindJudged :: "contest \<Rightarrow> bool" where
  "IsBlindJudged c \<longleftrightarrow> c_ContestType c = ContestOI"

record contest_problem =
  cp_ContestID :: ID
  cp_ProblemID :: ID
  cp_Label :: string
  cp_MaxScore :: int
  cp_Ordinal :: int

record contest_participant =
  cpt_ContestID :: ID
  cpt_UserID :: ID
  cpt_TeamID :: "ID option"
  cpt_RegisteredAt :: time

text \<open>
  The phases follow one another: once a contest with a well-ordered schedule is past a phase it
  never returns to it.
\<close>

fun phase_rank :: "ContestStatus \<Rightarrow> nat" where
  "phase_rank ContestStatusDraft = 0"
| "phase_rank ContestStatusReady = 1"
| "phase_rank ContestStatusRunning = 2"
| "phase_rank ContestStatusFrozen = 3"
| "phase_rank ContestStatusEnded = 4"

lemma EffectiveStatus_ended_iff:
  assumes "c_StartTime c \<le> c_EndTime c" and "0 < c_StartTime c"
  shows "EffectiveStatus c now = ContestStatusEnded \<longleftrightarrow> c_EndTime c \<le> now"
  using assms by (auto simp: EffectiveStatus_def split: option.split)

lemma EffectiveStatus_never_draft: "EffectiveStatus c now \<noteq> ContestStatusDraft"
  by (auto simp: EffectiveStatus_def split: option.split)

section \<open>Problems and test cases\<close>

record problem_judge_meta =
  pjm_JudgeType :: JudgeType
  pjm_TimeLimitMs :: int
  pjm_MemLimitKB :: int

record comm_channel =
  cc_Name :: string
  cc_From :: int
  cc_To :: int
  cc_Type :: string
  cc_BufferSizeKB :: int

record judge_config =
  jc_CheckerPath :: string
  jc_CheckerArgs :: "string list"
  jc_InteractorPath :: string
  jc_CommProcessCount :: int
  jc_CommChannels :: "comm_channel list"
  jc_GraderPath :: string

record judge_test_case =
  jtc_TestCaseID :: ID
  jtc_GroupID :: int
  jtc_Ordinal :: int
  jtc_InputPath :: string
  jtc_OutputPath :: string
  jtc_Score :: int

record judge_task =
  jt_TaskID :: string
  jt_SubmissionID :: ID
  jt_UserID :: ID
  jt_ProblemID :: ID
  jt_ContestID :: "ID option"
  jt_SubmittedAt :: time
  jt_Language :: Language
  jt_SourceCodePath :: string
  jt_JudgeType :: JudgeType
  jt_JudgeConfig :: judge_config
  jt_TimeLimitMs :: int
  jt_MemLimitKB :: int
  jt_TestCases :: "judge_test_case list"
  jt_Priority :: int

section \<open>Submissions and judge results\<close>

record test_case_result =
  tcr_TestCaseID :: ID
  tcr_GroupID :: int
  tcr_Status :: SubmissionStatus
  tcr_TimeUsedMs :: int
  tcr_MemUsedKB :: int
  tcr_Score :: int
  tcr_CheckerOutput :: string

record submission =
  sub_ID :: ID
  sub_UserID :: ID
  sub_ProblemID :: ID
  sub_ContestID :: "ID option"
  sub_ContestType :: "ContestType option"
  sub_Language :: Language
  sub_SourceCodePath :: string
  sub_Status :: SubmissionStatus
  sub_Score :: int
  sub_TimeUsedMs :: int
  sub_MemUsedKB :: int
  sub_CompileLog :: string
  sub_JudgeMessage :: string
  sub_TestCaseResults :: "test_case_result list"
  sub_JudgeNodeID :: string
  sub_CreatedAt :: time
  sub_UpdatedAt :: time

record result_message =
  rm_TaskID :: string
  rm_SubmissionID :: ID
  rm_UserID :: ID
  rm_ProblemID :: ID
  rm_ContestID :: "ID option"
  rm_Status :: SubmissionStatus
  rm_Score :: int
  rm_TimeUsedMs :: int
  rm_MemUsedKB :: int
  rm_CompileLog :: string
  rm_JudgeMessage :: string
  rm_TestCaseResults :: "test_case_result list"
  rm_JudgeNodeID :: string
  rm_JudgedAt :: time
  rm_SubmittedAt :: time

section \<open>Properties\<close>

text \<open>
  The phase of a contest with a proper schedule only moves forward: as time passes it goes
  from ready over running and frozen to ended and never back, and it is never a stored draft.
\<close>

theorem EffectiveStatus_monotone:
  assumes "0 < c_StartTime c" and "c_StartTime c \<le> c_EndTime c" and "t \<le> t'"
  shows "phase_rank (EffectiveStatus c t) \<le> phase_rank (EffectiveStatus c t') \<and>
    EffectiveStatus c t \<noteq> ContestStatusDraft"
  using assms by (auto simp: EffectiveStatus_def split: option.split)

definition sample_contest :: contest where
  "sample_contest = \<lparr>c_ID = 5, c_Title = ''Regional'', c_Description = [], c_ContestType = ContestICPC,
     c_Status = ContestStatusDraft, c_StartTime = 1000, c_EndTime = 6000, c_FreezeTime = Some 5000,
     c_Settings = Map.empty, c_IsPublic = True, c_AllowLateRegister = False, c_OrganizerID = 1,
     c_CreatedAt = 0, c_UpdatedAt = 0\<rparr>"

theorem EffectiveStatus_monotone_witness:
  "EffectiveStatus sample_contest 2000 = ContestStatusRunning \<and>
   EffectiveStatus sample_contest 5500 = ContestStatusFrozen \<and>
   phase_rank (EffectiveStatus sample_contest 2000) \<le> phase_rank (EffectiveStatus sample_contest 5500)"
  using EffectiveStatus_monotone [of sample_contest 2000 5500]
  by (simp add: sample_contest_def EffectiveStatus_def)

end
