(* ===== verification/Strategy.thy ===== *)
theory Strategy
  imports Models
begin

text \<open>
  Package \<open>core/contest\<close>, file \<open>strategy.go\<close>: scoreboard entries, the OI and IOI strategies and
  the helpers every strategy shares (cloning an entry, aggregating entries per user, assigning
  shared ranks).

  The code ranges over a Go map when it turns the per-user aggregation into a slice, so the
  order of that slice is not determined. The order is an argument \<open>it\<close> of the ranking
  functions: any function that permutes the map's entries is an admissible iteration.
\<close>

section \<open>Scoreboard data\<close>

record submission_event =
  ev_UserID :: ID
  ev_ProblemID :: ID
  ev_Status :: SubmissionStatus
  ev_Score :: int
  ev_SubmitTime :: time
  ev_ContestStart :: time
  ev_FreezeTime :: "time option"

record frozen_submission =
  fs_Status :: SubmissionStatus
  fs_SubmitTime :: time

record score_entry =
  se_UserID :: ID
  se_ProblemID :: ID
  se_Accepted :: bool
  se_DisplayScore :: int
  se_Penalty :: int
  se_AttemptCount :: int
  se_WrongAttemptCount :: int
  se_BestSubmitTime :: time
  se_FrozenAttempts :: int
  se_IsPending :: bool
  se_FrozenResults :: "frozen_submission list"
  se_IsFirstBlood :: bool

record rank_row =
  rr_Rank :: int
  rr_UserID :: ID
  rr_TotalScore :: int
  rr_TotalPenalty :: int
  rr_LastACTime :: time
  rr_Entries :: "(ID \<times> score_entry) list"

definition zero_entry :: "ID \<Rightarrow> ID \<Rightarrow> score_entry" where
  "zero_entry u p = \<lparr>se_UserID = u, se_ProblemID = p, se_Accepted = False, se_DisplayScore = 0,
     se_Penalty = 0, se_AttemptCount = 0, se_WrongAttemptCount = 0, se_BestSubmitTime = 0,
     se_FrozenAttempts = 0, se_IsPending = False, se_FrozenResults = [], se_IsFirstBlood = False\<rparr>"

text \<open>
  \<open>cloneOrNew\<close> copies the entry and the backing array of its frozen results; entries are values
  here, so the copy is the entry itself.
\<close>

definition cloneOrNew :: "score_entry option \<Rightarrow> submission_event \<Rightarrow> score_entry" where
  "cloneOrNew prev ev =
     (case prev of Some p \<Rightarrow> p | None \<Rightarrow> zero_entry (ev_UserID ev) (ev_ProblemID ev))"

lemma zero_entry_sels [simp]:
  "se_UserID (zero_entry u p) = u" "se_ProblemID (zero_entry u p) = p"
  "se_Accepted (zero_entry u p) = False" "se_DisplayScore (zero_entry u p) = 0"
  "se_Penalty (zero_entry u p) = 0" "se_AttemptCount (zero_entry u p) = 0"
  "se_WrongAttemptCount (zero_entry u p) = 0" "se_BestSubmitTime (zero_entry u p) = 0"
  "se_FrozenAttempts (zero_entry u p) = 0" "se_IsPending (zero_entry u p) = False"
  "se_FrozenResults (zero_entry u p) = []" "se_IsFirstBlood (zero_entry u p) = False"
  by (simp_all add: zero_entry_def)

lemma cloneOrNew_simps [simp]:
  "cloneOrNew (Some p) ev = p"
  "cloneOrNew None ev = zero_entry (ev_UserID ev) (ev_ProblemID ev)"
  by (simp_all add: cloneOrNew_def)

section \<open>OI and IOI\<close>

definition strict_last_submission :: "ContestSettings \<Rightarrow> bool" where
  "strict_last_submission settings =
     (case settings ''strict_last_submission'' of Some (JBool v) \<Rightarrow> v | _ \<Rightarrow> False)"

definition OI_Apply ::
  "submission_event \<Rightarrow> score_entry option \<Rightarrow> ContestSettings \<Rightarrow> score_entry" where
  "OI_Apply event prev settings =
     (let entry = cloneOrNew prev event;
          entry = entry\<lparr>se_AttemptCount := se_AttemptCount entry + 1\<rparr>
      in if strict_last_submission settings \<or> ev_Score event > se_DisplayScore entry
         then let entry = entry\<lparr>se_DisplayScore := ev_Score event,
                                se_BestSubmitTime := ev_SubmitTime event\<rparr>
              in if ev_Score event > 0 then entry\<lparr>se_Accepted := True\<rparr> else entry
         else entry)"

section \<open>Aggregation per user\<close>

definition new_row :: "ID \<Rightarrow> rank_row" where
  "new_row u = \<lparr>rr_Rank = 0, rr_UserID = u, rr_TotalScore = 0, rr_TotalPenalty = 0,
     rr_LastACTime = 0, rr_Entries = []\<rparr>"

fun aggregate_loop ::
  "(rank_row \<Rightarrow> score_entry \<Rightarrow> rank_row) \<Rightarrow> score_entry list \<Rightarrow> (ID \<times> rank_row) list \<Rightarrow>
   (ID \<times> rank_row) list" where
  "aggregate_loop accumFn [] m = m"
| "aggregate_loop accumFn (e # es) m =
     (let row = (case map_of m (se_UserID e) of Some r \<Rightarrow> r | None \<Rightarrow> new_row (se_UserID e));
          row = row\<lparr>rr_Entries := AList.update (se_ProblemID e) e (rr_Entries row)\<rparr>
      in aggregate_loop accumFn es (AList.update (se_UserID e) (accumFn row e) m))"

type_synonym map_order = "(ID \<times> rank_row) list \<Rightarrow> (ID \<times> rank_row) list"

definition aggregateUsers ::
  "map_order \<Rightarrow> score_entry list \<Rightarrow> (rank_row \<Rightarrow> score_entry \<Rightarrow> rank_row) \<Rightarrow> rank_row list" where
  "aggregateUsers it entries accumFn = map snd (it (aggregate_loop accumFn entries []))"

section \<open>Shared ranks\<close>

fun assignRanks_loop ::
  "(rank_row \<Rightarrow> rank_row \<Rightarrow> bool) \<Rightarrow> int \<Rightarrow> rank_row option \<Rightarrow> rank_row list \<Rightarrow> rank_row list" where
  "assignRanks_loop tied i prev [] = []"
| "assignRanks_loop tied i prev (r # rows) =
     (let r' = (case prev of
                  None \<Rightarrow> r\<lparr>rr_Rank := i + 1\<rparr>
                | Some q \<Rightarrow> if \<not> tied q r then r\<lparr>rr_Rank := i + 1\<rparr> else r\<lparr>rr_Rank := rr_Rank q\<rparr>)
      in r' # assignRanks_loop tied (i + 1) (Some r') rows)"

definition assignRanks ::
  "rank_row list \<Rightarrow> (rank_row \<Rightarrow> rank_row \<Rightarrow> bool) \<Rightarrow> rank_row list" where
  "assignRanks rows tied = assignRanks_loop tied 0 None rows"

definition score_accum :: "rank_row \<Rightarrow> score_entry \<Rightarrow> rank_row" where
  "score_accum row e =
     (let row = row\<lparr>rr_TotalScore := wrap64 (rr_TotalScore row + se_DisplayScore e)\<rparr>
      in if se_Accepted e \<and> After (se_BestSubmitTime e) (rr_LastACTime row)
         then row\<lparr>rr_LastACTime := se_BestSubmitTime e\<rparr> else row)"

definition score_less :: "rank_row \<Rightarrow> rank_row \<Rightarrow> bool" where
  "score_less a b \<longleftrightarrow> rr_TotalScore a > rr_TotalScore b"

definition score_tied :: "rank_row \<Rightarrow> rank_row \<Rightarrow> bool" where
  "score_tied a b \<longleftrightarrow> rr_TotalScore a = rr_TotalScore b"

definition rankByScoreDesc :: "map_order \<Rightarrow> score_entry list \<Rightarrow> rank_row list" where
  "rankByScoreDesc it entries =
     assignRanks (sort_slice score_less (aggregateUsers it entries score_accum)) score_tied"

definition OI_Rank :: "map_order \<Rightarrow> score_entry list \<Rightarrow> ContestSettings \<Rightarrow> rank_row list" where
  "OI_Rank it entries settings = rankByScoreDesc it entries"

definition OI_IsFinalised :: "score_entry \<Rightarrow> ContestSettings \<Rightarrow> bool" where
  "OI_IsFinalised entry settings = False"

section \<open>Facts about the aggregation\<close>

definition map_iteration :: "map_order \<Rightarrow> bool" where
  "map_iteration it \<longleftrightarrow> (\<forall>m. mset (it m) = mset m)"

lemma map_iteration_id [simp]: "map_iteration (\<lambda>m. m)"
  by (simp add: map_iteration_def)

lemma map_iteration_rev [simp]: "map_iteration rev"
  by (simp add: map_iteration_def)

definition row_step ::
  "(rank_row \<Rightarrow> score_entry \<Rightarrow> rank_row) \<Rightarrow> rank_row \<Rightarrow> score_entry \<Rightarrow> rank_row" where
  "row_step f row e =
     f (row\<lparr>rr_Entries := AList.update (se_ProblemID e) e (rr_Entries row)\<rparr>) e"

definition user_entries :: "ID \<Rightarrow> score_entry list \<Rightarrow> score_entry list" where
  "user_entries u es = filter (\<lambda>e. se_UserID e = u) es"

lemma user_entries_simps [simp]:
  "user_entries u [] = []"
  "user_entries u (e # es) = (if se_UserID e = u then e # user_entries u es else user_entries u es)"
  by (simp_all add: user_entries_def)

lemma user_entries_empty: "user_entries u es = [] \<longleftrightarrow> u \<notin> se_UserID ` set es"
  by (auto simp: user_entries_def filter_empty_conv)

lemma aggregate_lookup:
  "map_of (aggregate_loop f es m) u =
     (if user_entries u es = [] then map_of m u
      else Some (foldl (row_step f) (case map_of m u of Some r \<Rightarrow> r | None \<Rightarrow> new_row u)
                  (user_entries u es)))"
  by (induction f es m rule: aggregate_loop.induct)
     (auto simp: Let_def row_step_def update_conv' split: option.splits)

lemma aggregate_keys: "fst ` set (aggregate_loop f es m) = fst ` set m \<union> se_UserID ` set es"
proof -
  have "dom (map_of (aggregate_loop f es m)) = dom (map_of m) \<union> se_UserID ` set es"
    by (auto simp: dom_def aggregate_lookup user_entries_empty split: if_splits)
  then show ?thesis by (simp add: dom_map_of_conv_image_fst)
qed

lemma aggregate_distinct:
  "distinct (map fst m) \<Longrightarrow> distinct (map fst (aggregate_loop f es m))"
  by (induction f es m rule: aggregate_loop.induct) (auto simp: Let_def distinct_update)

definition row_of ::
  "(rank_row \<Rightarrow> score_entry \<Rightarrow> rank_row) \<Rightarrow> score_entry list \<Rightarrow> ID \<Rightarrow> rank_row" where
  "row_of accum es u = foldl (row_step accum) (new_row u) (user_entries u es)"

text \<open>
  The interface between the ranking helpers and the accumulation function a strategy passes to
  them: it may change totals, never the identity of a row.
\<close>

locale row_accumulator =
  fixes accum :: "rank_row \<Rightarrow> score_entry \<Rightarrow> rank_row"
  assumes accum_user: "rr_UserID (accum row e) = rr_UserID row"
    and accum_entries: "rr_Entries (accum row e) = rr_Entries row"
begin

lemma foldl_row_user: "rr_UserID (foldl (row_step accum) row es) = rr_UserID row"
  by (induction es arbitrary: row) (simp_all add: row_step_def accum_user)

lemma foldl_row_entries:
  "rr_Entries (foldl (row_step accum) row es) =
   foldl (\<lambda>m e. AList.update (se_ProblemID e) e m) (rr_Entries row) es"
  by (induction es arbitrary: row) (simp_all add: row_step_def accum_entries)

lemma row_of_user: "rr_UserID (row_of accum es u) = u"
  by (simp add: row_of_def foldl_row_user new_row_def)

lemma aggregate_pairs:
  "(u, r) \<in> set (aggregate_loop accum es []) \<longleftrightarrow> u \<in> se_UserID ` set es \<and> r = row_of accum es u"
proof -
  have "distinct (map fst (aggregate_loop accum es []))"
    by (simp add: aggregate_distinct)
  then have "(u, r) \<in> set (aggregate_loop accum es []) \<longleftrightarrow>
      map_of (aggregate_loop accum es []) u = Some r"
    by simp
  then show ?thesis
    by (auto simp: aggregate_lookup user_entries_empty row_of_def split: if_splits)
qed

lemma set_aggregate:
  assumes "map_iteration it"
  shows "set (aggregateUsers it es accum) = row_of accum es ` se_UserID ` set es"
proof -
  have "set (it (aggregate_loop accum es [])) = set (aggregate_loop accum es [])"
    using assms by (metis map_iteration_def mset_eq_setD)
  then have "set (aggregateUsers it es accum) = snd ` set (aggregate_loop accum es [])"
    by (simp add: aggregateUsers_def)
  also have "\<dots> = {r. \<exists>u. (u, r) \<in> set (aggregate_loop accum es [])}"
    by force
  finally show ?thesis by (auto simp: aggregate_pairs)
qed

lemma distinct_aggregate:
  assumes "map_iteration it"
  shows "distinct (map rr_UserID (aggregateUsers it es accum))"
proof -
  let ?m = "aggregate_loop accum es []"
  have "rr_UserID (snd p) = fst p" if "p \<in> set (it ?m)" for p
  proof -
    have "p \<in> set ?m" using that assms by (metis map_iteration_def mset_eq_setD)
    then show ?thesis
      using aggregate_pairs [of "fst p" "snd p" es] by (simp add: row_of_user)
  qed
  then have "map rr_UserID (map snd (it ?m)) = map fst (it ?m)" by simp
  moreover have "mset (map fst (it ?m)) = mset (map fst ?m)"
    using assms by (simp add: map_iteration_def)
  moreover have "distinct (map fst ?m)" by (simp add: aggregate_distinct)
  ultimately show ?thesis
    by (metis aggregateUsers_def mset_eq_imp_distinct_iff)
qed

lemma mset_aggregate:
  assumes "map_iteration it" and "map_iteration it'"
  shows "mset (aggregateUsers it es accum) = mset (aggregateUsers it' es accum)"
  using assms by (simp add: aggregateUsers_def map_iteration_def)

end

section \<open>Shared ranks count the better rows\<close>

text \<open>
  The contract between a strategy's comparison functions and \<open>assignRanks\<close>: the sort order
  refines a weak order \<open>better\<close>, and two rows tie when neither is better.
\<close>

definition better_count :: "(rank_row \<Rightarrow> rank_row \<Rightarrow> bool) \<Rightarrow> rank_row list \<Rightarrow> rank_row \<Rightarrow> int" where
  "better_count better rows r = int (length (filter (\<lambda>q. better q r) rows))"

locale competition_ranking = weak_order better
  for better :: "rank_row \<Rightarrow> rank_row \<Rightarrow> bool" +
  fixes lt :: "rank_row \<Rightarrow> rank_row \<Rightarrow> bool"
    and tied :: "rank_row \<Rightarrow> rank_row \<Rightarrow> bool"
  assumes refines: "better a b \<Longrightarrow> lt a b"
    and tied_iff: "tied a b \<longleftrightarrow> \<not> better a b \<and> \<not> better b a"
    and better_rank: "better (a\<lparr>rr_Rank := i\<rparr>) b = better a b"
      "better a (b\<lparr>rr_Rank := i\<rparr>) = better a b"
begin

abbreviation ordered :: "rank_row list \<Rightarrow> bool" where
  "ordered \<equiv> sorted_wrt (\<lambda>a b. \<not> better b a)"

abbreviation ranked :: "rank_row list \<Rightarrow> rank_row \<Rightarrow> rank_row" where
  "ranked rows r \<equiv> r\<lparr>rr_Rank := 1 + better_count better rows r\<rparr>"

lemma tied_rank: "tied (a\<lparr>rr_Rank := i\<rparr>) b = tied a b"
  by (simp add: tied_iff better_rank)

lemma count_prefix:
  assumes "ordered (pre @ r # rows)"
  shows "better_count better (pre @ r # rows) r = better_count better pre r"
proof -
  have "filter (\<lambda>q. better q r) (r # rows) = []"
    using assms asym by (auto simp: sorted_wrt_append filter_empty_conv)
  then show ?thesis by (simp add: better_count_def)
qed

lemma count_all_better:
  assumes "ordered (pre @ [q] @ r # rows)" and "\<not> tied q r"
  shows "better_count better (pre @ [q]) r = int (length pre) + 1"
proof -
  have "better q r" using assms by (auto simp: tied_iff sorted_wrt_append)
  then have "better p r" if "p \<in> set (pre @ [q])" for p
    using assms(1) neg_trans [of q r p] that by (auto simp: sorted_wrt_append)
  then show ?thesis by (simp add: better_count_def)
qed

lemma count_tied:
  assumes "tied q r"
  shows "better_count better rows q = better_count better rows r"
proof -
  have "better p q = better p r" for p
    using assms neg_trans unfolding tied_iff by blast
  then show ?thesis by (simp add: better_count_def)
qed

lemma assignRanks_loop_spec:
  "ordered (pre @ rows) \<Longrightarrow>
   prev = (if pre = [] then None else Some (ranked pre (last pre))) \<Longrightarrow>
   assignRanks_loop tied (int (length pre)) prev rows = map (ranked (pre @ rows)) rows"
proof (induction rows arbitrary: pre prev)
  case Nil
  then show ?case by simp
next
  case (Cons r rows)
  let ?r = "ranked (pre @ [r]) r"
  have cnt: "better_count better (pre @ r # rows) r = better_count better pre r"
    and cnt1: "better_count better (pre @ [r]) r = better_count better pre r"
    using count_prefix [OF Cons.prems(1)] count_prefix [of pre r "[]"] Cons.prems(1)
    by (auto simp: sorted_wrt_append)
  have head: "(case prev of
        None \<Rightarrow> r\<lparr>rr_Rank := int (length pre) + 1\<rparr>
      | Some q \<Rightarrow> if \<not> tied q r then r\<lparr>rr_Rank := int (length pre) + 1\<rparr>
                  else r\<lparr>rr_Rank := rr_Rank q\<rparr>) = ?r"
  proof (cases "pre = []")
    case True
    then show ?thesis using Cons.prems(2) cnt1 by (simp add: better_count_def)
  next
    case False
    then obtain ps q where pre: "pre = ps @ [q]" by (metis append_butlast_last_id)
    show ?thesis
    proof (cases "tied q r")
      case True
      with count_tied [OF True, of pre] show ?thesis
        using Cons.prems(2) cnt1 pre by (simp add: tied_rank)
    next
      case False
      with count_all_better [of ps q r rows] show ?thesis
        using Cons.prems cnt1 pre by (simp add: tied_rank)
    qed
  qed
  have "assignRanks_loop tied (int (length (pre @ [r]))) (Some ?r) rows =
      map (ranked ((pre @ [r]) @ rows)) rows"
    by (rule Cons.IH) (use Cons.prems(1) in simp_all)
  then show ?case
    using head cnt cnt1 by (simp add: Let_def add.commute)
qed

lemma assignRanks_spec:
  "ordered rows \<Longrightarrow> assignRanks rows tied = map (ranked rows) rows"
  using assignRanks_loop_spec [of "[]" rows None] by (simp add: assignRanks_def)

end

section \<open>Boards\<close>

definition users_of :: "score_entry list \<Rightarrow> ID set" where
  "users_of es = se_UserID ` set es"

definition board_row ::
  "(rank_row \<Rightarrow> score_entry \<Rightarrow> rank_row) \<Rightarrow> (rank_row \<Rightarrow> rank_row \<Rightarrow> bool) \<Rightarrow>
   score_entry list \<Rightarrow> ID \<Rightarrow> rank_row" where
  "board_row accum better es u =
     (row_of accum es u)\<lparr>rr_Rank :=
        1 + int (card {v \<in> users_of es. better (row_of accum es v) (row_of accum es u)})\<rparr>"

text \<open>
  Accumulation and comparison together: a strategy that passes suitable functions to
  \<open>aggregateUsers\<close>, \<open>sort.Slice\<close> and \<open>assignRanks\<close> gets one row per user with an entry, in an
  order that no better row contradicts, each ranked by the number of better users.
\<close>

locale board_ranking = row_accumulator accum + competition_ranking better lt tied
  for accum :: "rank_row \<Rightarrow> score_entry \<Rightarrow> rank_row"
    and better :: "rank_row \<Rightarrow> rank_row \<Rightarrow> bool"
    and lt :: "rank_row \<Rightarrow> rank_row \<Rightarrow> bool"
    and tied :: "rank_row \<Rightarrow> rank_row \<Rightarrow> bool" +
  assumes lt_weak: "weak_order lt"
begin

lemma sorted_rows: "ordered (sort_slice lt rows)"
  using weak_order.sorted_sort_slice [OF lt_weak, of rows]
  by (rule sorted_wrt_mono_rel [rotated]) (auto dest: refines)

lemma count_users:
  assumes "map_iteration it"
  shows "better_count better (sort_slice lt (aggregateUsers it es accum)) r =
         int (card {v \<in> users_of es. better (row_of accum es v) r})"
proof -
  let ?rows = "sort_slice lt (aggregateUsers it es accum)"
  have dist: "distinct (map rr_UserID ?rows)"
    using distinct_aggregate [OF assms, of es] by (metis mset_eq_imp_distinct_iff mset_map mset_sort_slice)
  then have "distinct (filter (\<lambda>q. better q r) ?rows)"
    by (simp add: distinct_map)
  then have "length (filter (\<lambda>q. better q r) ?rows) = card {q \<in> set ?rows. better q r}"
    by (metis distinct_card set_filter)
  also have "{q \<in> set ?rows. better q r} =
      row_of accum es ` {v \<in> users_of es. better (row_of accum es v) r}"
    by (auto simp: set_aggregate [OF assms] users_of_def)
  also have "card \<dots> = card {v \<in> users_of es. better (row_of accum es v) r}"
    by (rule card_image) (metis (mono_tags, lifting) inj_onI row_of_user)
  finally show ?thesis by (simp add: better_count_def)
qed

lemma board_rows:
  fixes es :: "score_entry list"
  assumes "map_iteration it"
  defines "rows \<equiv> assignRanks (sort_slice lt (aggregateUsers it es accum)) tied"
  shows "set rows = board_row accum better es ` users_of es"
    and "distinct (map rr_UserID rows)"
    and "sorted_wrt (\<lambda>a b. \<not> better b a) rows"
proof -
  let ?rows = "sort_slice lt (aggregateUsers it es accum)"
  have rows: "rows = map (ranked ?rows) ?rows"
    unfolding rows_def by (rule assignRanks_spec [OF sorted_rows])
  show "set rows = board_row accum better es ` users_of es"
    by (auto simp: rows set_aggregate [OF assms(1)] count_users [OF assms(1)] board_row_def users_of_def)
  have "map rr_UserID rows = map rr_UserID ?rows" by (simp add: rows)
  then show "distinct (map rr_UserID rows)"
    using distinct_aggregate [OF assms(1), of es]
    by (metis mset_eq_imp_distinct_iff mset_map mset_sort_slice)
  show "sorted_wrt (\<lambda>a b. \<not> better b a) rows"
    using sorted_rows [of "aggregateUsers it es accum"] by (simp add: rows sorted_wrt_map better_rank)
qed

end

section \<open>The boards of OI and IOI contests\<close>

lemma score_accum_keeps [simp]:
  "rr_UserID (score_accum row e) = rr_UserID row"
  "rr_Entries (score_accum row e) = rr_Entries row"
  "rr_TotalScore (score_accum row e) = wrap64 (rr_TotalScore row + se_DisplayScore e)"
  by (simp_all add: score_accum_def Let_def)

interpretation score_order: weak_order score_less
  by unfold_locales (auto simp: score_less_def)

interpretation score_board: board_ranking score_accum score_less score_less score_tied
  by unfold_locales (auto simp: score_less_def score_tied_def)

lemma score_total:
  "rr_TotalScore (foldl (row_step score_accum) row es) =
   (if es = [] then rr_TotalScore row
    else wrap64 (rr_TotalScore row + sum_list (map se_DisplayScore es)))"
  by (induction es arbitrary: row)
     (auto simp: row_step_def wrap64_add_left add.assoc simp flip: add.assoc)

lemma row_total:
  "rr_TotalScore (row_of score_accum es u) =
   wrap64 (sum_list (map se_DisplayScore (user_entries u es)))"
  by (simp add: row_of_def score_total new_row_def)

definition user_total :: "score_entry list \<Rightarrow> ID \<Rightarrow> int" where
  "user_total es u = wrap64 (sum_list (map se_DisplayScore (user_entries u es)))"

text \<open>
  C18: an OI or IOI board has exactly one row for every user with an entry, the total
  of a row is the 64-bit sum of the user's displayed scores, totals never increase down the
  board, and the rank is one more than the number of users with a strictly larger total, whatever
  order the map of users is iterated in.
\<close>

theorem OI_Rank_board:
  assumes "map_iteration it"
  shows "distinct (map rr_UserID (OI_Rank it es settings)) \<and>
    rr_UserID ` set (OI_Rank it es settings) = users_of es \<and>
    sorted_wrt (\<lambda>a b. rr_TotalScore a \<ge> rr_TotalScore b) (OI_Rank it es settings) \<and>
    (\<forall>r \<in> set (OI_Rank it es settings).
       rr_TotalScore r = user_total es (rr_UserID r) \<and>
       rr_Rank r = 1 + int (card {v \<in> users_of es. user_total es v > user_total es (rr_UserID r)}))"
proof -
  note board = score_board.board_rows [OF assms, of es, folded rankByScoreDesc_def]
  have row: "rr_UserID (board_row score_accum score_less es u) = u"
    "rr_TotalScore (board_row score_accum score_less es u) = user_total es u"
    "rr_Rank (board_row score_accum score_less es u) =
       1 + int (card {v \<in> users_of es. user_total es v > user_total es u})" for u
    by (simp_all add: board_row_def score_board.row_of_user row_total user_total_def score_less_def)
  show ?thesis
    using board by (auto simp: OI_Rank_def row image_image score_less_def not_less)
qed

definition sample_OI_entries :: "score_entry list" where
  "sample_OI_entries =
     [(zero_entry 1 10)\<lparr>se_DisplayScore := 60\<rparr>, (zero_entry 2 10)\<lparr>se_DisplayScore := 100\<rparr>,
      (zero_entry 1 11)\<lparr>se_DisplayScore := 40\<rparr>, (zero_entry 3 10)\<lparr>se_DisplayScore := 30\<rparr>]"

theorem OI_Rank_board_witness:
  "map_iteration rev \<and>
   map (\<lambda>r. (rr_UserID r, rr_TotalScore r, rr_Rank r))
     (OI_Rank rev sample_OI_entries Map.empty) = [(2, 100, 1), (1, 100, 1), (3, 30, 3)] \<and>
   rr_UserID ` set (OI_Rank rev sample_OI_entries Map.empty) = users_of sample_OI_entries"
proof (intro conjI)
  show "map (\<lambda>r. (rr_UserID r, rr_TotalScore r, rr_Rank r))
     (OI_Rank rev sample_OI_entries Map.empty) = [(2, 100, 1), (1, 100, 1), (3, 30, 3)]"
    by code_simp
qed (use OI_Rank_board [of rev sample_OI_entries Map.empty] in simp_all)

section \<open>Replaying events under the OI rules\<close>

definition OI_replay :: "ContestSettings \<Rightarrow> submission_event list \<Rightarrow> score_entry option" where
  "OI_replay settings es = foldl (\<lambda>p e. Some (OI_Apply e p settings)) None es"

lemma OI_replay_snoc [simp]:
  "OI_replay settings (es @ [e]) = Some (OI_Apply e (OI_replay settings es) settings)"
  by (simp add: OI_replay_def)

lemma OI_replay_Nil [simp]: "OI_replay settings [] = None"
  by (simp add: OI_replay_def)

text \<open>
  Without \<open>strict_last_submission\<close> a problem's displayed score is the best score
  submitted (never below zero), its time is that of a submission with that score, every
  submission counts as an attempt, and the problem is accepted exactly when some submission
  scored.
\<close>

theorem OI_replay_best:
  assumes "es \<noteq> []" and "\<not> strict_last_submission settings"
  shows "\<exists>entry. OI_replay settings es = Some entry \<and>
    se_DisplayScore entry = Max (insert 0 (ev_Score ` set es)) \<and>
    se_AttemptCount entry = int (length es) \<and>
    (se_Accepted entry \<longleftrightarrow> (\<exists>e \<in> set es. ev_Score e > 0)) \<and>
    (se_Accepted entry \<longrightarrow>
       (\<exists>e \<in> set es. ev_Score e = se_DisplayScore entry \<and> ev_SubmitTime e = se_BestSubmitTime entry))"
  using assms(1)
proof (induction es rule: rev_nonempty_induct)
  case (single e)
  then show ?case using assms(2) by (auto simp: OI_replay_def OI_Apply_def Let_def)
next
  case (snoc e es)
  then obtain p where p: "OI_replay settings es = Some p"
    and sc: "se_DisplayScore p = Max (insert 0 (ev_Score ` set es))"
    and at: "se_AttemptCount p = int (length es)"
    and ac: "se_Accepted p \<longleftrightarrow> (\<exists>e \<in> set es. ev_Score e > 0)"
    and wt: "se_Accepted p \<longrightarrow>
       (\<exists>e \<in> set es. ev_Score e = se_DisplayScore p \<and> ev_SubmitTime e = se_BestSubmitTime p)"
    by blast
  have mx: "Max (insert 0 (ev_Score ` set (es @ [e]))) = max (ev_Score e) (se_DisplayScore p)"
  proof -
    have "insert 0 (ev_Score ` set (es @ [e])) = insert (ev_Score e) (insert 0 (ev_Score ` set es))"
      by auto
    then show ?thesis unfolding sc by (simp only: Max_insert finite_insert finite_imageI finite_set) simp
  qed
  have nn: "0 \<le> se_DisplayScore p" unfolding sc by (simp add: Max_ge)
  have nz: "\<not> se_Accepted p \<Longrightarrow> se_DisplayScore p = 0"
    using snoc.hyps unfolding sc ac by (intro Max_eqI) auto
  show ?case
    using assms(2) ac wt at nn nz unfolding OI_replay_snoc mx p
    by (auto simp: OI_Apply_def Let_def max_def)
qed

definition sample_OI_event :: "int \<Rightarrow> time \<Rightarrow> submission_event" where
  "sample_OI_event score t = \<lparr>ev_UserID = 1, ev_ProblemID = 10, ev_Status = StatusWrongAnswer,
     ev_Score = score, ev_SubmitTime = t, ev_ContestStart = 0, ev_FreezeTime = None\<rparr>"

theorem OI_replay_best_witness:
  "\<exists>entry. OI_replay Map.empty [sample_OI_event 30 5, sample_OI_event 80 9, sample_OI_event 50 12] =
     Some entry \<and> se_DisplayScore entry = 80 \<and> se_AttemptCount entry = 3"
  using OI_replay_best [of "[sample_OI_event 30 5, sample_OI_event 80 9, sample_OI_event 50 12]" Map.empty]
  by (auto simp: strict_last_submission_def sample_OI_event_def)

end
