(* ===== verification/ICPC.thy ===== *)
theory ICPC
  imports Strategy
begin

text \<open>
  Package \<open>core/contest\<close>, file \<open>strategy_icpc.go\<close>: the ICPC rules (\<open>Apply\<close>, \<open>Rank\<close>,
  \<open>IsFinalised\<close>), the rolling reveal of frozen results (\<open>RevealNext\<close>) and its settings helpers;
  then the registry of \<open>strategy.go\<close> with the dispatch over the registered strategies.

  The theorems relate the incremental \<open>Apply\<close> to a reference reading of a whole event list, show
  that a frozen board depends only on submissions made before the freeze, that revealing every
  frozen result gives the board that would have been shown without a freeze, and that the ICPC
  ranking does not depend on the iteration order of Go maps.
\<close>

section \<open>Settings helpers\<close>

definition penaltyPerWA :: "ContestSettings \<Rightarrow> int" where
  "penaltyPerWA settings = PenaltyMinutes settings"

definition isPostFreeze :: "time \<Rightarrow> time option \<Rightarrow> bool" where
  "isPostFreeze t freezeTime = (case freezeTime of None \<Rightarrow> False | Some f \<Rightarrow> \<not> Before t f)"

definition ignoreCE :: "SubmissionStatus \<Rightarrow> ContestSettings \<Rightarrow> bool" where
  "ignoreCE status settings \<longleftrightarrow> status = StatusCE \<and> CENoPenalty settings"

section \<open>Applying one judged submission\<close>

definition icpc_penalty :: "time \<Rightarrow> time \<Rightarrow> int \<Rightarrow> ContestSettings \<Rightarrow> int" where
  "icpc_penalty t start wrong settings =
     wrap64 (elapsedMins t start + wrap64 (wrong * penaltyPerWA settings))"

definition ICPC_Apply ::
  "submission_event \<Rightarrow> score_entry option \<Rightarrow> ContestSettings \<Rightarrow> score_entry" where
  "ICPC_Apply event prev settings =
     (let entry = cloneOrNew prev event
      in if se_Accepted entry then entry
         else if isPostFreeze (ev_SubmitTime event) (ev_FreezeTime event) then
           entry\<lparr>se_FrozenAttempts := se_FrozenAttempts entry + 1,
                 se_IsPending := True,
                 se_FrozenResults := se_FrozenResults entry @
                   [\<lparr>fs_Status = ev_Status event, fs_SubmitTime = ev_SubmitTime event\<rparr>]\<rparr>
         else
           let entry = entry\<lparr>se_AttemptCount := se_AttemptCount entry + 1\<rparr>
           in if ev_Status event = StatusAccepted then
                entry\<lparr>se_Accepted := True,
                      se_DisplayScore := 1,
                      se_IsPending := False,
                      se_FrozenAttempts := 0,
                      se_FrozenResults := [],
                      se_BestSubmitTime := ev_SubmitTime event,
                      se_Penalty := icpc_penalty (ev_SubmitTime event) (ev_ContestStart event)
                        (se_WrongAttemptCount entry) settings\<rparr>
              else if \<not> ignoreCE (ev_Status event) settings then
                entry\<lparr>se_WrongAttemptCount := se_WrongAttemptCount entry + 1\<rparr>
              else entry)"

section \<open>Ranking\<close>

definition icpc_accum :: "rank_row \<Rightarrow> score_entry \<Rightarrow> rank_row" where
  "icpc_accum row e =
     (if se_Accepted e then
        let row = row\<lparr>rr_TotalScore := rr_TotalScore row + 1,
                      rr_TotalPenalty := wrap64 (rr_TotalPenalty row + se_Penalty e)\<rparr>
        in if After (se_BestSubmitTime e) (rr_LastACTime row)
           then row\<lparr>rr_LastACTime := se_BestSubmitTime e\<rparr> else row
      else row)"

definition icpc_less :: "rank_row \<Rightarrow> rank_row \<Rightarrow> bool" where
  "icpc_less a b =
     (if rr_TotalScore a \<noteq> rr_TotalScore b then rr_TotalScore a > rr_TotalScore b
      else if rr_TotalPenalty a \<noteq> rr_TotalPenalty b then rr_TotalPenalty a < rr_TotalPenalty b
      else if rr_LastACTime a \<noteq> rr_LastACTime b then Before (rr_LastACTime a) (rr_LastACTime b)
      else rr_UserID a < rr_UserID b)"

definition icpc_tied :: "rank_row \<Rightarrow> rank_row \<Rightarrow> bool" where
  "icpc_tied a b \<longleftrightarrow> rr_TotalScore a = rr_TotalScore b \<and> rr_TotalPenalty a = rr_TotalPenalty b \<and>
     rr_LastACTime a = rr_LastACTime b"

definition ICPC_Rank :: "map_order \<Rightarrow> score_entry list \<Rightarrow> ContestSettings \<Rightarrow> rank_row list" where
  "ICPC_Rank it entries settings =
     assignRanks (sort_slice icpc_less (aggregateUsers it entries icpc_accum)) icpc_tied"

definition ICPC_IsFinalised :: "score_entry \<Rightarrow> ContestSettings \<Rightarrow> bool" where
  "ICPC_IsFinalised entry settings \<longleftrightarrow> se_Accepted entry \<and> \<not> se_IsPending entry"

section \<open>Rolling reveal\<close>

definition RevealNext ::
  "score_entry \<Rightarrow> time \<Rightarrow> ContestSettings \<Rightarrow> score_entry \<times> bool" where
  "RevealNext entry contestStart settings =
     (case se_FrozenResults entry of
        [] \<Rightarrow> (entry, False)
      | frozen # rest \<Rightarrow>
          let e = entry\<lparr>se_FrozenResults := rest, se_FrozenAttempts := se_FrozenAttempts entry - 1\<rparr>;
              e = (if se_FrozenAttempts e \<le> 0
                   then e\<lparr>se_FrozenAttempts := 0, se_IsPending := False\<rparr> else e)
          in if fs_Status frozen = StatusAccepted then
               (e\<lparr>se_Accepted := True,
                  se_DisplayScore := 1,
                  se_IsPending := False,
                  se_FrozenAttempts := 0,
                  se_FrozenResults := [],
                  se_BestSubmitTime := fs_SubmitTime frozen,
                  se_Penalty := icpc_penalty (fs_SubmitTime frozen) contestStart
                    (se_WrongAttemptCount e) settings\<rparr>, True)
             else
               (e\<lparr>se_WrongAttemptCount := se_WrongAttemptCount e + 1,
                  se_AttemptCount := se_AttemptCount e + 1\<rparr>, False))"

section \<open>Registry and dispatch\<close>

datatype strategy = ICPCStrategy | OIStrategy | IOIStrategy

fun strategy_Name :: "strategy \<Rightarrow> ContestType" where
  "strategy_Name ICPCStrategy = ContestICPC"
| "strategy_Name OIStrategy = ContestOI"
| "strategy_Name IOIStrategy = ContestIOI"

fun strategy_Apply ::
  "strategy \<Rightarrow> submission_event \<Rightarrow> score_entry option \<Rightarrow> ContestSettings \<Rightarrow> score_entry" where
  "strategy_Apply ICPCStrategy ev prev settings = ICPC_Apply ev prev settings"
| "strategy_Apply OIStrategy ev prev settings = OI_Apply ev prev settings"
| "strategy_Apply IOIStrategy ev prev settings = OI_Apply ev prev settings"

fun strategy_Rank ::
  "strategy \<Rightarrow> map_order \<Rightarrow> score_entry list \<Rightarrow> ContestSettings \<Rightarrow> rank_row list" where
  "strategy_Rank ICPCStrategy it es settings = ICPC_Rank it es settings"
| "strategy_Rank OIStrategy it es settings = OI_Rank it es settings"
| "strategy_Rank IOIStrategy it es settings = OI_Rank it es settings"

fun strategy_IsFinalised :: "strategy \<Rightarrow> score_entry \<Rightarrow> ContestSettings \<Rightarrow> bool" where
  "strategy_IsFinalised ICPCStrategy e settings = ICPC_IsFinalised e settings"
| "strategy_IsFinalised OIStrategy e settings = OI_IsFinalised e settings"
| "strategy_IsFinalised IOIStrategy e settings = OI_IsFinalised e settings"

type_synonym Registry = "ContestType \<rightharpoonup> strategy"

definition Register :: "Registry \<Rightarrow> strategy \<Rightarrow> Registry" where
  "Register r s = r(strategy_Name s \<mapsto> s)"

definition NewRegistry :: Registry where
  "NewRegistry = Register (Register (Register Map.empty ICPCStrategy) OIStrategy) IOIStrategy"

definition Registry_Get :: "Registry \<Rightarrow> ContestType \<Rightarrow> error + strategy" where
  "Registry_Get r ct =
     (case r ct of Some s \<Rightarrow> Inr s | None \<Rightarrow> Inl ''contest: no strategy for ContestType'')"

section \<open>The board as a function of the events\<close>

definition post_freeze :: "submission_event \<Rightarrow> bool" where
  "post_freeze e = isPostFreeze (ev_SubmitTime e) (ev_FreezeTime e)"

definition not_AC :: "submission_event \<Rightarrow> bool" where
  "not_AC e \<longleftrightarrow> ev_Status e \<noteq> StatusAccepted"

definition frozen_of :: "submission_event \<Rightarrow> frozen_submission" where
  "frozen_of e = \<lparr>fs_Status = ev_Status e, fs_SubmitTime = ev_SubmitTime e\<rparr>"

definition ICPC_replay ::
  "ID \<Rightarrow> ID \<Rightarrow> ContestSettings \<Rightarrow> submission_event list \<Rightarrow> score_entry" where
  "ICPC_replay u p settings es =
     foldl (\<lambda>entry e. ICPC_Apply e (Some entry) settings) (zero_entry u p) es"

lemma ICPC_Apply_None:
  "ICPC_Apply e None settings =
   ICPC_Apply e (Some (zero_entry (ev_UserID e) (ev_ProblemID e))) settings"
  by (simp add: ICPC_Apply_def)

lemma ICPC_replay_simps [simp]:
  "ICPC_replay u p settings [] = zero_entry u p"
  "ICPC_replay u p settings (es @ [e]) = ICPC_Apply e (Some (ICPC_replay u p settings es)) settings"
  by (simp_all add: ICPC_replay_def)

definition wrong_count :: "ContestSettings \<Rightarrow> submission_event list \<Rightarrow> int" where
  "wrong_count settings es = int (length (filter (\<lambda>e. \<not> ignoreCE (ev_Status e) settings) es))"

text \<open>
  The reference reading of a list of judged submissions of one user on one problem. Only the
  submissions before the freeze count: the first accepted one fixes time and penalty, the
  rejected ones before it (compile errors as the settings say) are the wrong attempts. While no
  submission before the freeze is accepted, the others wait as frozen results in arrival order.
\<close>

definition icpc_reference ::
  "ID \<Rightarrow> ID \<Rightarrow> ContestSettings \<Rightarrow> submission_event list \<Rightarrow> score_entry" where
  "icpc_reference u p settings es =
     (let pre = filter (\<lambda>e. \<not> post_freeze e) es;
          post = filter post_freeze es;
          rejected = takeWhile not_AC pre;
          wrong = wrong_count settings rejected
      in case dropWhile not_AC pre of
           [] \<Rightarrow> (zero_entry u p)\<lparr>se_AttemptCount := int (length rejected),
                  se_WrongAttemptCount := wrong,
                  se_FrozenAttempts := int (length post),
                  se_IsPending := (post \<noteq> []),
                  se_FrozenResults := map frozen_of post\<rparr>
         | ac # _ \<Rightarrow> (zero_entry u p)\<lparr>se_Accepted := True,
                  se_DisplayScore := 1,
                  se_AttemptCount := int (length rejected) + 1,
                  se_WrongAttemptCount := wrong,
                  se_BestSubmitTime := ev_SubmitTime ac,
                  se_Penalty := icpc_penalty (ev_SubmitTime ac) (ev_ContestStart ac) wrong settings\<rparr>)"

lemma takeWhile_eq_self: "dropWhile P xs = [] \<Longrightarrow> takeWhile P xs = xs"
  by (simp add: dropWhile_eq_Nil_conv takeWhile_eq_all_conv)

lemma takeWhile_snoc:
  "takeWhile P (xs @ [x]) =
   (if dropWhile P xs = [] then xs @ (if P x then [x] else []) else takeWhile P xs)"
  by (auto simp: takeWhile_append dropWhile_eq_Nil_conv)

lemma dropWhile_snoc:
  "dropWhile P (xs @ [x]) =
   (if dropWhile P xs = [] then (if P x then [] else [x]) else dropWhile P xs @ [x])"
  by (auto simp: dropWhile_append dropWhile_eq_Nil_conv)

lemma ignoreCE_AC [simp]: "\<not> ignoreCE StatusAccepted settings"
  by (simp add: ignoreCE_def)

lemma wrong_count_snoc:
  "wrong_count settings (es @ [e]) =
   (if ignoreCE (ev_Status e) settings then wrong_count settings es else wrong_count settings es + 1)"
  by (simp add: wrong_count_def)

lemma replay_reference: "ICPC_replay u p settings es = icpc_reference u p settings es"
proof (induction es rule: rev_induct)
  case Nil
  then show ?case by (simp add: icpc_reference_def wrong_count_def zero_entry_def)
next
  case (snoc e es)
  let ?pre = "filter (\<lambda>e. \<not> post_freeze e) es"
  show ?case
  proof (cases "dropWhile not_AC ?pre")
    case Nil
    then show ?thesis
      using snoc.IH
      by (simp add: takeWhile_eq_self icpc_reference_def ICPC_Apply_def Let_def takeWhile_snoc dropWhile_snoc
          wrong_count_snoc not_AC_def [of e] frozen_of_def zero_entry_def ignoreCE_AC
          flip: post_freeze_def del: dropWhile_eq_Nil_conv)
  next
    case (Cons ac rest)
    then show ?thesis
      using snoc.IH
      by (simp add: icpc_reference_def ICPC_Apply_def Let_def takeWhile_snoc dropWhile_snoc
          del: dropWhile_eq_Nil_conv)
  qed
qed

definition icpc_public :: "score_entry \<Rightarrow> score_entry" where
  "icpc_public e = e\<lparr>se_FrozenAttempts := 0, se_IsPending := False, se_FrozenResults := []\<rparr>"

lemma public_reference:
  "icpc_public (icpc_reference u p settings es) =
   icpc_reference u p settings (filter (\<lambda>e. \<not> post_freeze e) es)"
  by (cases "dropWhile not_AC (filter (\<lambda>e. \<not> post_freeze e) es)")
     (simp_all add: icpc_public_def icpc_reference_def Let_def zero_entry_def
        del: dropWhile_eq_Nil_conv)

section \<open>Revealing everything\<close>

lemma RevealNext_shorter:
  "se_FrozenResults entry \<noteq> [] \<Longrightarrow>
   length (se_FrozenResults (fst (RevealNext entry start settings))) < length (se_FrozenResults entry)"
  by (auto simp: RevealNext_def Let_def split: list.split)

text \<open>The loop of \<open>rebuildSnapshot\<close> that calls \<open>RevealNext\<close> while frozen results remain.\<close>

function RevealAll :: "time \<Rightarrow> ContestSettings \<Rightarrow> score_entry \<Rightarrow> score_entry" where
  "RevealAll start settings entry =
     (if length (se_FrozenResults entry) > 0
      then RevealAll start settings (fst (RevealNext entry start settings)) else entry)"
  by pat_completeness auto
termination
  by (relation "measure (\<lambda>(_, _, e). length (se_FrozenResults e))") (simp_all add: RevealNext_shorter)

declare RevealAll.simps [simp del]

lemma RevealAll_done: "se_FrozenResults entry = [] \<Longrightarrow> RevealAll start settings entry = entry"
  by (simp add: RevealAll.simps)

lemma RevealAll_step:
  "se_FrozenResults entry \<noteq> [] \<Longrightarrow>
   RevealAll start settings entry = RevealAll start settings (fst (RevealNext entry start settings))"
  by (subst RevealAll.simps) simp

lemma RevealAll_empties: "se_FrozenResults (RevealAll start settings entry) = []"
  by (induction start settings entry rule: RevealAll.induct)
     (metis RevealAll.simps length_greater_0_conv)

definition unfreeze :: "submission_event \<Rightarrow> submission_event" where
  "unfreeze e = e\<lparr>ev_FreezeTime := None\<rparr>"

definition same_standing :: "score_entry \<Rightarrow> score_entry \<Rightarrow> bool" where
  "same_standing a b \<longleftrightarrow> a\<lparr>se_AttemptCount := 0\<rparr> = b\<lparr>se_AttemptCount := 0\<rparr>"

abbreviation apply_all ::
  "ContestSettings \<Rightarrow> score_entry \<Rightarrow> submission_event list \<Rightarrow> score_entry" where
  "apply_all settings \<equiv> foldl (\<lambda>entry e. ICPC_Apply e (Some entry) settings)"

lemma apply_all_accepted: "se_Accepted x \<Longrightarrow> apply_all settings x es = x"
  by (induction es) (simp_all add: ICPC_Apply_def)

lemma post_freeze_unfreeze [simp]: "\<not> isPostFreeze (ev_SubmitTime (unfreeze e)) (ev_FreezeTime (unfreeze e))"
  by (simp add: unfreeze_def isPostFreeze_def)

lemma Apply_unfreeze:
  "ICPC_Apply (unfreeze e) (Some x) settings =
   (if \<not> se_Accepted x \<and> post_freeze e
    then ICPC_Apply (e\<lparr>ev_FreezeTime := None\<rparr>) (Some x) settings else ICPC_Apply e (Some x) settings)"
  by (auto simp: ICPC_Apply_def unfreeze_def isPostFreeze_def post_freeze_def Let_def)

lemma apply_all_unfreeze_pre:
  "filter post_freeze es = [] \<Longrightarrow>
   apply_all settings x (map unfreeze es) = apply_all settings x es"
  by (induction es arbitrary: x) (auto simp: Apply_unfreeze split: if_splits)

lemma reveal_matches_apply:
  assumes "\<not> se_Accepted x" and "se_FrozenResults x = map frozen_of es"
    and "se_FrozenAttempts x = int (length es)" and "se_IsPending x = (es \<noteq> [])"
    and "\<And>e. e \<in> set es \<Longrightarrow> ev_ContestStart e = start \<and> \<not> ignoreCE (ev_Status e) settings"
  shows "same_standing (RevealAll start settings x)
           (apply_all settings (icpc_public x) (map unfreeze es))"
  using assms
proof (induction es arbitrary: x)
  case Nil
  then show ?case by (simp add: RevealAll_done icpc_public_def same_standing_def)
next
  case (Cons e es)
  let ?y = "fst (RevealNext x start settings)"
  let ?z = "ICPC_Apply (unfreeze e) (Some (icpc_public x)) settings"
  have ne: "se_FrozenResults x \<noteq> []" and st: "ev_ContestStart e = start"
    and ce: "\<not> ignoreCE (ev_Status e) settings"
    using Cons.prems by simp_all
  show ?case
  proof (cases "ev_Status e = StatusAccepted")
    case True
    then have y: "?y = x\<lparr>se_Accepted := True, se_DisplayScore := 1, se_IsPending := False,
          se_FrozenAttempts := 0, se_FrozenResults := [], se_BestSubmitTime := ev_SubmitTime e,
          se_Penalty := icpc_penalty (ev_SubmitTime e) start (se_WrongAttemptCount x) settings\<rparr>"
      using Cons.prems(2) by (simp add: RevealNext_def frozen_of_def Let_def)
    have z: "?z = x\<lparr>se_Accepted := True, se_DisplayScore := 1, se_IsPending := False,
          se_FrozenAttempts := 0, se_FrozenResults := [], se_BestSubmitTime := ev_SubmitTime e,
          se_Penalty := icpc_penalty (ev_SubmitTime e) start (se_WrongAttemptCount x) settings,
          se_AttemptCount := se_AttemptCount x + 1\<rparr>"
      using Cons.prems(1) True st
      by (simp add: ICPC_Apply_def icpc_public_def unfreeze_def isPostFreeze_def Let_def)
    have "se_FrozenResults ?y = []" and "same_standing ?y ?z" and "se_Accepted ?z"
      unfolding y z by (simp_all add: same_standing_def)
    then show ?thesis
      using ne by (simp add: RevealAll_step RevealAll_done apply_all_accepted)
  next
    case False
    then have "?z = icpc_public ?y"
      using Cons.prems(1,2) ce
      by (simp add: RevealNext_def ICPC_Apply_def frozen_of_def icpc_public_def Let_def
          unfreeze_def isPostFreeze_def)
    moreover have "same_standing (RevealAll start settings ?y)
        (apply_all settings (icpc_public ?y) (map unfreeze es))"
      by (rule Cons.IH) (use Cons.prems False in
          \<open>auto simp: RevealNext_def frozen_of_def Let_def\<close>)
    ultimately show ?thesis using ne by (simp add: RevealAll_step)
  qed
qed

lemma chronological_split:
  assumes "sorted_wrt (\<lambda>a b. ev_SubmitTime a \<le> ev_SubmitTime b) es"
    and "\<forall>e \<in> set es. ev_ContestStart e = start \<and> ev_FreezeTime e = freeze"
  shows "es = filter (\<lambda>e. \<not> post_freeze e) es @ filter post_freeze es"
  using assms
proof (induction es)
  case (Cons e es)
  show ?case
  proof (cases "post_freeze e")
    case True
    then have "post_freeze x" if "x \<in> set es" for x
      using Cons.prems that by (fastforce simp: post_freeze_def isPostFreeze_def split: option.splits)
    with True show ?thesis by simp
  next
    case False
    with Cons show ?thesis by simp
  qed
qed simp

section \<open>The ICPC order\<close>

definition icpc_better :: "rank_row \<Rightarrow> rank_row \<Rightarrow> bool" where
  "icpc_better a b \<longleftrightarrow>
     rr_TotalScore a > rr_TotalScore b \<or>
     rr_TotalScore a = rr_TotalScore b \<and>
       (rr_TotalPenalty a < rr_TotalPenalty b \<or>
        rr_TotalPenalty a = rr_TotalPenalty b \<and> rr_LastACTime a < rr_LastACTime b)"

lemma icpc_less_iff:
  "icpc_less a b \<longleftrightarrow> icpc_better a b \<or> \<not> icpc_better b a \<and> rr_UserID a < rr_UserID b"
  by (auto simp: icpc_less_def icpc_better_def)

lemma icpc_accum_keeps [simp]:
  "rr_UserID (icpc_accum row e) = rr_UserID row"
  "rr_Entries (icpc_accum row e) = rr_Entries row"
  by (simp_all add: icpc_accum_def Let_def)

interpretation icpc_order: strict_total_order icpc_less rr_UserID
  by unfold_locales (auto simp: icpc_less_def split: if_splits)

interpretation icpc_board: board_ranking icpc_accum icpc_better icpc_less icpc_tied
  by unfold_locales
     (auto simp: icpc_better_def icpc_less_def icpc_tied_def split: if_splits)

abbreviation accepted_entries :: "score_entry list \<Rightarrow> ID \<Rightarrow> score_entry list" where
  "accepted_entries es u \<equiv> filter se_Accepted (user_entries u es)"

lemma icpc_totals:
  "rr_TotalScore (foldl (row_step icpc_accum) row es) =
     rr_TotalScore row + int (length (filter se_Accepted es))"
  "rr_TotalPenalty (foldl (row_step icpc_accum) row es) =
     (if filter se_Accepted es = [] then rr_TotalPenalty row
      else wrap64 (rr_TotalPenalty row + sum_list (map se_Penalty (filter se_Accepted es))))"
  "rr_LastACTime (foldl (row_step icpc_accum) row es) =
     Max (insert (rr_LastACTime row) (se_BestSubmitTime ` set (filter se_Accepted es)))"
proof (induction es arbitrary: row)
  case (Cons e es)
  {
    case 1
    show ?case by (simp add: Cons.IH(1)) (simp add: row_step_def icpc_accum_def Let_def)
  next
    case 2
    show ?case
      by (simp add: Cons.IH(2))
         (auto simp: row_step_def icpc_accum_def Let_def wrap64_add_left simp flip: add.assoc)
  next
    case 3
    show ?case
      by (simp add: Cons.IH(3) Max_insert2 del: Max_insert)
         (simp add: row_step_def icpc_accum_def Let_def max_def del: Max_insert)
  }
qed simp_all

definition icpc_solved :: "score_entry list \<Rightarrow> ID \<Rightarrow> int" where
  "icpc_solved es u = int (length (accepted_entries es u))"

definition icpc_total_penalty :: "score_entry list \<Rightarrow> ID \<Rightarrow> int" where
  "icpc_total_penalty es u = wrap64 (sum_list (map se_Penalty (accepted_entries es u)))"

definition icpc_last_AC :: "score_entry list \<Rightarrow> ID \<Rightarrow> time" where
  "icpc_last_AC es u = Max (insert 0 (se_BestSubmitTime ` set (accepted_entries es u)))"

definition icpc_beats :: "score_entry list \<Rightarrow> ID \<Rightarrow> ID \<Rightarrow> bool" where
  "icpc_beats es v u \<longleftrightarrow>
     icpc_solved es v > icpc_solved es u \<or>
     icpc_solved es v = icpc_solved es u \<and>
       (icpc_total_penalty es v < icpc_total_penalty es u \<or>
        icpc_total_penalty es v = icpc_total_penalty es u \<and> icpc_last_AC es v < icpc_last_AC es u)"

lemma icpc_row:
  "rr_TotalScore (row_of icpc_accum es u) = icpc_solved es u"
  "rr_TotalPenalty (row_of icpc_accum es u) = icpc_total_penalty es u"
  "rr_LastACTime (row_of icpc_accum es u) = icpc_last_AC es u"
  by (simp_all add: row_of_def icpc_totals new_row_def icpc_solved_def icpc_total_penalty_def
      icpc_last_AC_def)

lemma icpc_better_rows:
  "icpc_better (row_of icpc_accum es v) (row_of icpc_accum es u) = icpc_beats es v u"
  by (simp add: icpc_better_def icpc_beats_def icpc_row)

lemma icpc_board_row:
  "rr_UserID (board_row icpc_accum icpc_better es u) = u"
  "rr_TotalScore (board_row icpc_accum icpc_better es u) = icpc_solved es u"
  "rr_TotalPenalty (board_row icpc_accum icpc_better es u) = icpc_total_penalty es u"
  "rr_LastACTime (board_row icpc_accum icpc_better es u) = icpc_last_AC es u"
  "rr_Rank (board_row icpc_accum icpc_better es u) =
     1 + int (card {v \<in> users_of es. icpc_beats es v u})"
  by (simp_all add: board_row_def icpc_board.row_of_user icpc_row icpc_better_rows)

lemma ICPC_rows:
  assumes "map_iteration it"
  shows "set (ICPC_Rank it es settings) = board_row icpc_accum icpc_better es ` users_of es"
    and "distinct (map rr_UserID (ICPC_Rank it es settings))"
    and "sorted_wrt (\<lambda>a b. \<not> icpc_better b a) (ICPC_Rank it es settings)"
  using icpc_board.board_rows [OF assms, of es] by (simp_all add: ICPC_Rank_def)

lemma icpc_rank_order_free:
  assumes "map_iteration it" and "map_iteration it'"
  shows "ICPC_Rank it es settings = ICPC_Rank it' es settings"
proof -
  have "sort_slice icpc_less (aggregateUsers it es icpc_accum) =
        sort_slice icpc_less (aggregateUsers it' es icpc_accum)"
    by (rule icpc_order.sort_slice_perm [OF icpc_board.mset_aggregate [OF assms]])
       (use icpc_board.distinct_aggregate [OF assms(1), of es] in \<open>simp add: distinct_map\<close>)
  then show ?thesis by (simp add: ICPC_Rank_def)
qed

section \<open>The contract every strategy keeps\<close>

text \<open>
  The interface \<open>Strategy\<close> as the ranking service uses it: \<open>Apply\<close> returns an entry of the same
  user and problem, and \<open>Rank\<close> lists every user with an entry exactly once, ranked from 1.
\<close>

locale scoring_strategy =
  fixes apply_event :: "submission_event \<Rightarrow> score_entry option \<Rightarrow> ContestSettings \<Rightarrow> score_entry"
    and rank_entries :: "map_order \<Rightarrow> score_entry list \<Rightarrow> ContestSettings \<Rightarrow> rank_row list"
  assumes apply_key:
      "se_UserID (apply_event ev prev settings) = se_UserID (cloneOrNew prev ev)"
      "se_ProblemID (apply_event ev prev settings) = se_ProblemID (cloneOrNew prev ev)"
    and rank_users: "map_iteration it \<Longrightarrow> rr_UserID ` set (rank_entries it es settings) = users_of es"
    and rank_distinct: "map_iteration it \<Longrightarrow> distinct (map rr_UserID (rank_entries it es settings))"
    and rank_positive: "map_iteration it \<Longrightarrow> r \<in> set (rank_entries it es settings) \<Longrightarrow> 1 \<le> rr_Rank r"
begin

definition entry_for :: "ID \<Rightarrow> ID \<Rightarrow> score_entry \<Rightarrow> bool" where
  "entry_for u p e \<longleftrightarrow> se_UserID e = u \<and> se_ProblemID e = p"

lemma apply_keeps_key:
  assumes "\<And>e. prev = Some e \<Longrightarrow> entry_for (ev_UserID ev) (ev_ProblemID ev) e"
  shows "entry_for (ev_UserID ev) (ev_ProblemID ev) (apply_event ev prev settings)"
  using assms by (cases prev) (simp_all add: entry_for_def apply_key)

lemma row_count:
  assumes "map_iteration it"
  shows "length (rank_entries it es settings) = card (users_of es)"
  by (metis assms distinct_card length_map list.set_map rank_distinct rank_users)

end

lemma OI_Apply_key:
  "se_UserID (OI_Apply ev prev settings) = se_UserID (cloneOrNew prev ev)"
  "se_ProblemID (OI_Apply ev prev settings) = se_ProblemID (cloneOrNew prev ev)"
  by (simp_all add: OI_Apply_def Let_def)

lemma ICPC_Apply_key:
  "se_UserID (ICPC_Apply ev prev settings) = se_UserID (cloneOrNew prev ev)"
  "se_ProblemID (ICPC_Apply ev prev settings) = se_ProblemID (cloneOrNew prev ev)"
  by (simp_all add: ICPC_Apply_def Let_def)

interpretation icpc_rules: scoring_strategy ICPC_Apply ICPC_Rank
proof
  fix it es settings r
  assume it: "map_iteration it"
  note board = ICPC_rows [OF it, of es settings]
  show "rr_UserID ` set (ICPC_Rank it es settings) = users_of es"
    by (simp add: board(1) image_image icpc_board_row)
  show "distinct (map rr_UserID (ICPC_Rank it es settings))" by (rule board(2))
  show "r \<in> set (ICPC_Rank it es settings) \<Longrightarrow> 1 \<le> rr_Rank r"
    by (auto simp: board(1) icpc_board_row)
qed (simp_all add: ICPC_Apply_key)

interpretation oi_rules: scoring_strategy OI_Apply OI_Rank
proof
  fix it es settings r
  assume it: "map_iteration it"
  note board = score_board.board_rows [OF it, of es, folded rankByScoreDesc_def OI_Rank_def]
  have user: "rr_UserID (board_row score_accum score_less es u) = u" for u
    by (simp add: board_row_def score_board.row_of_user)
  show "rr_UserID ` set (OI_Rank it es settings) = users_of es"
    using board(1) by (simp add: OI_Rank_def image_image user)
  show "distinct (map rr_UserID (OI_Rank it es settings))"
    using board(2) by (simp add: OI_Rank_def)
  show "r \<in> set (OI_Rank it es settings) \<Longrightarrow> 1 \<le> rr_Rank r"
    using board(1) by (auto simp: OI_Rank_def board_row_def)
qed (simp_all add: OI_Apply_key)

interpretation registered: scoring_strategy "strategy_Apply s" "strategy_Rank s" for s
  by (cases s; simp; unfold_locales)
     (simp_all add: icpc_rules.apply_key icpc_rules.rank_users icpc_rules.rank_distinct icpc_rules.rank_positive
        oi_rules.apply_key oi_rules.rank_users oi_rules.rank_distinct oi_rules.rank_positive)

section \<open>Properties\<close>


text \<open>
  What a frozen board shows of an entry is a function of the submissions made before the
  freeze. Two event lists that agree on those, whatever was submitted after the freeze and however
  it was judged, show the same score, penalty, attempt counts and solving time.
\<close>

theorem ICPC_freeze_noninterference:
  assumes "filter (\<lambda>e. \<not> post_freeze e) es = filter (\<lambda>e. \<not> post_freeze e) es'"
  shows "icpc_public (ICPC_replay u p settings es) = icpc_public (ICPC_replay u p settings es')"
  by (simp add: replay_reference public_reference assms)

definition sample_event :: "SubmissionStatus \<Rightarrow> int \<Rightarrow> submission_event" where
  "sample_event st m = \<lparr>ev_UserID = 7, ev_ProblemID = 1, ev_Status = st, ev_Score = 0,
     ev_SubmitTime = 1000000000000 + m * minute_ns, ev_ContestStart = 1000000000000,
     ev_FreezeTime = Some (1000000000000 + 240 * minute_ns)\<rparr>"

theorem ICPC_freeze_noninterference_witness:
  "se_WrongAttemptCount (ICPC_replay 7 1 Map.empty
     [sample_event StatusWrongAnswer 30, sample_event StatusAccepted 250]) = 1 \<and>
   icpc_public (ICPC_replay 7 1 Map.empty
     [sample_event StatusWrongAnswer 30, sample_event StatusAccepted 250]) =
   icpc_public (ICPC_replay 7 1 Map.empty
     [sample_event StatusTLE 270, sample_event StatusWrongAnswer 30])"
proof
  show "se_WrongAttemptCount (ICPC_replay 7 1 Map.empty
     [sample_event StatusWrongAnswer 30, sample_event StatusAccepted 250]) = 1"
    by code_simp
qed (rule ICPC_freeze_noninterference, code_simp)


definition sample_events :: "submission_event list" where
  "sample_events = [sample_event StatusCE 10, sample_event StatusWrongAnswer 30,
     sample_event StatusTLE 245, sample_event StatusAccepted 250]"


text \<open>
  C13: an ICPC board has exactly one row per user with an entry. A row carries the number of solved
  problems, the 64-bit sum of their penalties and the time of the last accepted submission; no row
  stands below one it beats, and its rank is one more than the number of users that beat it, so
  users with equal keys share a rank.
\<close>

theorem ICPC_Rank_board:
  assumes "map_iteration it"
  shows "distinct (map rr_UserID (ICPC_Rank it es settings)) \<and>
    rr_UserID ` set (ICPC_Rank it es settings) = users_of es \<and>
    sorted_wrt (\<lambda>a b. \<not> icpc_beats es (rr_UserID b) (rr_UserID a)) (ICPC_Rank it es settings) \<and>
    (\<forall>r \<in> set (ICPC_Rank it es settings).
       rr_TotalScore r = icpc_solved es (rr_UserID r) \<and>
       rr_TotalPenalty r = icpc_total_penalty es (rr_UserID r) \<and>
       rr_LastACTime r = icpc_last_AC es (rr_UserID r) \<and>
       rr_Rank r = 1 + int (card {v \<in> users_of es. icpc_beats es v (rr_UserID r)}))"
proof -
  note board = ICPC_rows [OF assms, of es settings]
  have row: "r = board_row icpc_accum icpc_better es (rr_UserID r)"
    if "r \<in> set (ICPC_Rank it es settings)" for r
    using that by (auto simp: board(1) icpc_board_row)
  have "icpc_better b a = icpc_beats es (rr_UserID b) (rr_UserID a)"
    if "a \<in> set (ICPC_Rank it es settings)" "b \<in> set (ICPC_Rank it es settings)" for a b
    by (subst row [OF that(1)], subst row [OF that(2)])
       (simp add: icpc_better_def icpc_beats_def icpc_board_row)
  then have "sorted_wrt (\<lambda>a b. \<not> icpc_beats es (rr_UserID b) (rr_UserID a)) (ICPC_Rank it es settings)"
    using sorted_wrt_mono_rel [OF _ board(3)] by simp
  moreover have "\<forall>r \<in> set (ICPC_Rank it es settings).
       rr_TotalScore r = icpc_solved es (rr_UserID r) \<and>
       rr_TotalPenalty r = icpc_total_penalty es (rr_UserID r) \<and>
       rr_LastACTime r = icpc_last_AC es (rr_UserID r) \<and>
       rr_Rank r = 1 + int (card {v \<in> users_of es. icpc_beats es v (rr_UserID r)})"
    by (auto simp: board(1) icpc_board_row)
  ultimately show ?thesis using board(2) icpc_rules.rank_users [OF assms] by blast
qed

definition sample_ICPC_entries :: "score_entry list" where
  "sample_ICPC_entries =
     [(zero_entry 1 10)\<lparr>se_Accepted := True, se_Penalty := 50, se_BestSubmitTime := 900\<rparr>,
      (zero_entry 2 10)\<lparr>se_Accepted := True, se_Penalty := 30, se_BestSubmitTime := 800\<rparr>,
      (zero_entry 3 10)\<lparr>se_Accepted := True, se_Penalty := 50, se_BestSubmitTime := 900\<rparr>,
      (zero_entry 4 11)\<lparr>se_WrongAttemptCount := 2\<rparr>]"

theorem ICPC_Rank_board_witness:
  "map (\<lambda>r. (rr_UserID r, rr_TotalPenalty r, rr_Rank r))
     (ICPC_Rank rev sample_ICPC_entries Map.empty) = [(2, 30, 1), (1, 50, 2), (3, 50, 2), (4, 0, 4)] \<and>
   rr_UserID ` set (ICPC_Rank rev sample_ICPC_entries Map.empty) = users_of sample_ICPC_entries"
proof
  show "map (\<lambda>r. (rr_UserID r, rr_TotalPenalty r, rr_Rank r))
     (ICPC_Rank rev sample_ICPC_entries Map.empty) = [(2, 30, 1), (1, 50, 2), (3, 50, 2), (4, 0, 4)]"
    by code_simp
qed (use ICPC_Rank_board [of rev sample_ICPC_entries Map.empty] in simp)

text \<open>
  C14: the ICPC ranking is deterministic. Whatever order Go iterates the map of users in, and
  however its unstable sort treats the slice, the rows come out in the same order with the same
  ranks.
\<close>

theorem ICPC_Rank_deterministic:
  assumes "map_iteration it" and "map_iteration it'"
  shows "ICPC_Rank it es settings = ICPC_Rank it' es settings \<and>
    (\<forall>rows. mset rows = mset (aggregateUsers it' es icpc_accum) \<and>
       sorted_wrt (\<lambda>a b. \<not> icpc_less b a) rows \<longrightarrow>
       assignRanks rows icpc_tied = ICPC_Rank it es settings)"
proof (intro conjI allI impI)
  show eq: "ICPC_Rank it es settings = ICPC_Rank it' es settings"
    by (rule icpc_rank_order_free [OF assms])
  fix rows assume rows: "mset rows = mset (aggregateUsers it' es icpc_accum) \<and>
    sorted_wrt (\<lambda>a b. \<not> icpc_less b a) rows"
  then have "set rows = set (aggregateUsers it' es icpc_accum)" by (metis set_mset_mset)
  then have "inj_on rr_UserID (set rows)"
    using icpc_board.distinct_aggregate [OF assms(2), of es] by (simp add: distinct_map)
  then have "rows = sort_slice icpc_less (aggregateUsers it' es icpc_accum)"
    using rows by (intro icpc_order.sorted_unique icpc_order.sorted_sort_slice) auto
  then show "assignRanks rows icpc_tied = ICPC_Rank it es settings"
    unfolding eq by (simp add: ICPC_Rank_def)
qed

theorem ICPC_Rank_deterministic_witness:
  "ICPC_Rank rev sample_ICPC_entries Map.empty = ICPC_Rank (\<lambda>m. m) sample_ICPC_entries Map.empty"
  using ICPC_Rank_deterministic [of rev "\<lambda>m. m" sample_ICPC_entries Map.empty] by simp

text \<open>
  The reveal treats a frozen compile error differently from the live board. Revealing it adds
  a wrong attempt under every policy, while \<open>Apply\<close> leaves the wrong attempts alone when the
  settings exempt compile errors.
\<close>

theorem reveal_penalises_frozen_CE:
  assumes "se_FrozenResults entry = \<lparr>fs_Status = StatusCE, fs_SubmitTime = t\<rparr> # rest"
    and "CENoPenalty settings" and "\<not> se_Accepted entry"
    and "ev_Status ev = StatusCE" and "ev_FreezeTime ev = None"
  shows "se_WrongAttemptCount (fst (RevealNext entry start settings)) = se_WrongAttemptCount entry + 1 \<and>
    se_WrongAttemptCount (ICPC_Apply ev (Some entry) settings) = se_WrongAttemptCount entry"
  using assms by (simp add: RevealNext_def ICPC_Apply_def ignoreCE_def isPostFreeze_def Let_def)

theorem reveal_penalises_frozen_CE_witness:
  "let entry = ICPC_replay 7 1 Map.empty [sample_event StatusCE 250]
   in se_WrongAttemptCount (fst (RevealNext entry 1000000000000 Map.empty)) = 1 \<and>
      se_WrongAttemptCount (ICPC_Apply (unfreeze (sample_event StatusCE 250)) (Some entry) Map.empty) = 0"
proof -
  let ?entry = "ICPC_replay 7 1 Map.empty [sample_event StatusCE 250]"
  have "se_WrongAttemptCount ?entry = 0 \<and> \<not> se_Accepted ?entry \<and> CENoPenalty Map.empty \<and>
      se_FrozenResults ?entry =
        [\<lparr>fs_Status = StatusCE, fs_SubmitTime = 1000000000000 + 250 * minute_ns\<rparr>]"
    by code_simp
  then show ?thesis
    using reveal_penalises_frozen_CE [of ?entry "1000000000000 + 250 * minute_ns" "[]" Map.empty
        "unfreeze (sample_event StatusCE 250)" 1000000000000]
    by (simp add: Let_def unfreeze_def sample_event_def)
qed

text \<open>
  A solved ICPC problem never changes again. Once an entry is accepted every later event,
  a redelivered result included, leaves it as it is, and it has no frozen results to reveal.
\<close>

theorem ICPC_accepted_final:
  "se_Accepted (ICPC_replay u p settings es) \<longrightarrow>
     ICPC_replay u p settings (es @ later) = ICPC_replay u p settings es \<and>
     ICPC_IsFinalised (ICPC_replay u p settings es) settings \<and>
     RevealAll start settings (ICPC_replay u p settings es) = ICPC_replay u p settings es"
proof
  assume acc: "se_Accepted (ICPC_replay u p settings es)"
  then obtain ac rest where ac: "dropWhile not_AC (filter (\<lambda>e. \<not> post_freeze e) es) = ac # rest"
    by (cases "dropWhile not_AC (filter (\<lambda>e. \<not> post_freeze e) es)")
       (simp_all add: replay_reference icpc_reference_def Let_def del: dropWhile_eq_Nil_conv)
  then have "se_FrozenResults (ICPC_replay u p settings es) = []"
    "\<not> se_IsPending (ICPC_replay u p settings es)"
    by (simp_all add: replay_reference icpc_reference_def Let_def)
  moreover have "ICPC_replay u p settings (es @ later) = ICPC_replay u p settings es"
    using acc by (simp add: ICPC_replay_def apply_all_accepted)
  ultimately show "ICPC_replay u p settings (es @ later) = ICPC_replay u p settings es \<and>
     ICPC_IsFinalised (ICPC_replay u p settings es) settings \<and>
     RevealAll start settings (ICPC_replay u p settings es) = ICPC_replay u p settings es"
    using acc by (simp add: RevealAll_done ICPC_IsFinalised_def)
qed

theorem ICPC_accepted_final_witness:
  "ICPC_replay 7 1 Map.empty ([sample_event StatusAccepted 20] @ sample_events) =
   ICPC_replay 7 1 Map.empty [sample_event StatusAccepted 20]"
proof -
  have "se_Accepted (ICPC_replay 7 1 Map.empty [sample_event StatusAccepted 20])" by code_simp
  then show ?thesis
    using ICPC_accepted_final [of 7 1 Map.empty "[sample_event StatusAccepted 20]" sample_events 0]
    by blast
qed

end
