(* ===== verification/Ranking.thy ===== *)
theory Ranking
  imports ICPC
begin

text \<open>
  Package \<open>core/ranking\<close>, files \<open>types.go\<close> and \<open>service.go\<close>: the consumer that turns judge results
  into scoreboard entries in Redis, rebuilds the board snapshot and publishes it.

  The state is the part of Redis the service uses (entry hashes, string keys, the log of published
  frames) and the service's own cache of contest metadata. The database loaders, the clock, the
  iteration order of Go maps and the failures of Redis calls are the fields of \<open>ranking_env\<close>.
  A Redis value is the value that was encoded, or bytes that do not decode.
\<close>

section \<open>Keys\<close>

definition redisKey :: "ID \<Rightarrow> string \<Rightarrow> string" where
  "redisKey contestID suffix = ''oj:ranking:'' @ show_int contestID @ '':'' @ suffix"

definition keyEntries :: string where "keyEntries = ''entries''"
definition keySnapshot :: string where "keySnapshot = ''snapshot''"
definition keyRevealed :: string where "keyRevealed = ''revealed''"
definition keyEvents :: string where "keyEvents = ''events''"

lemmas key_defs = keyEntries_def keySnapshot_def keyRevealed_def keyEvents_def

definition entryField :: "ID \<Rightarrow> ID \<Rightarrow> string" where
  "entryField userID problemID = show_int userID @ '':'' @ show_int problemID"

lemma redisKey_inj [simp]: "redisKey c s = redisKey c' s' \<longleftrightarrow> c = c' \<and> s = s'"
  using sep_append_inj [of "CHR '':''" "show_int c" "show_int c'" s s']
  by (simp add: redisKey_def show_int_no_colon)

lemma entryField_inj [simp]: "entryField u p = entryField u' p' \<longleftrightarrow> u = u' \<and> p = p'"
  using sep_append_inj [of "CHR '':''" "show_int u" "show_int u'" "show_int p" "show_int p'"]
  by (simp add: entryField_def show_int_no_colon)

section \<open>Board and service state\<close>

record board_cell =
  bc_Solved :: bool
  bc_Attempts :: int
  bc_Pending :: int
  bc_Penalty :: int
  bc_Score :: int
  bc_FirstBlood :: bool

record board_row_view =
  br_Rank :: int
  br_UserID :: ID
  br_Username :: string
  br_Organization :: string
  br_Problems :: "(string \<times> board_cell) list"
  br_TotalSolved :: int
  br_TotalPenalty :: int
  br_TotalScore :: int

record board_snapshot =
  bs_ContestID :: ID
  bs_ContestType :: ContestType
  bs_Frozen :: bool
  bs_Problems :: "string list"
  bs_Contestants :: "board_row_view list"
  bs_UpdatedAt :: time

record problem_label =
  pl_ProblemID :: ID
  pl_Label :: string

record user_info =
  ui_Username :: string
  ui_Organization :: string

record contest_meta =
  cm_ContestType :: ContestType
  cm_Settings :: ContestSettings
  cm_StartTime :: time
  cm_FreezeTime :: "time option"
  cm_EndTime :: time

record cached_meta =
  ca_meta :: contest_meta
  ca_expiresAt :: time

datatype redis_value = RText string | RSnapshot board_snapshot

record ranking_state =
  rs_hash :: "string \<Rightarrow> (string \<times> score_entry payload) list"
  rs_strings :: "string \<rightharpoonup> redis_value"
  rs_published :: "(string \<times> board_snapshot) list"
  rs_cache :: "ID \<rightharpoonup> cached_meta"

record ranking_env =
  re_registry :: Registry
  re_loader :: "ID \<Rightarrow> error + contest_meta"
  re_problems :: "ID \<Rightarrow> error + problem_label list"
  re_users :: "ID list \<Rightarrow> error + (ID \<rightharpoonup> user_info)"
  re_now_lookup :: time
  re_now_store :: time
  re_now :: time
  re_hash_order :: "(string \<times> score_entry payload) list \<Rightarrow> (string \<times> score_entry payload) list"
  re_user_order :: map_order
  re_cell_order :: "(ID \<times> score_entry) list \<Rightarrow> (ID \<times> score_entry) list"
  re_hget_fails :: bool
  re_marshal_fails :: bool
  re_hset_fails :: bool
  re_hgetall_fails :: bool
  re_exists_fails :: bool
  re_set_revealed_fails :: bool
  re_set_snapshot_fails :: bool
  re_publish_fails :: bool

section \<open>Contest metadata cache\<close>

definition cache_ttl :: int where "cache_ttl = 30 * second_ns"

definition contestMetaCache_get ::
  "ranking_env \<Rightarrow> ID \<Rightarrow> ranking_state \<Rightarrow> (error + contest_meta) \<times> ranking_state" where
  "contestMetaCache_get env cid st =
     (let load = (case re_loader env cid of
                    Inl err \<Rightarrow> (Inl err, st)
                  | Inr meta \<Rightarrow> (Inr meta, st\<lparr>rs_cache := (rs_cache st)(cid \<mapsto>
                      \<lparr>ca_meta = meta, ca_expiresAt = re_now_store env + cache_ttl\<rparr>)\<rparr>))
      in case rs_cache st cid of
           Some cm \<Rightarrow> if Before (re_now_lookup env) (ca_expiresAt cm) then (Inr (ca_meta cm), st) else load
         | None \<Rightarrow> load)"

section \<open>First blood\<close>

text \<open>
  \<open>assignFirstBlood\<close> keeps, per problem, a pointer to the entry with the earliest accepted
  submission. The pointer is the index of the entry in the slice.
\<close>

definition fb_better :: "score_entry \<Rightarrow> score_entry \<Rightarrow> bool" where
  "fb_better e cur \<longleftrightarrow> Before (se_BestSubmitTime e) (se_BestSubmitTime cur) \<or>
     se_BestSubmitTime e = se_BestSubmitTime cur \<and> se_UserID e < se_UserID cur"

fun firstBlood_loop ::
  "score_entry list \<Rightarrow> nat \<Rightarrow> score_entry list \<Rightarrow> (ID \<rightharpoonup> nat) \<Rightarrow> (ID \<rightharpoonup> nat)" where
  "firstBlood_loop all i [] m = m"
| "firstBlood_loop all i (e # es) m =
     (if \<not> se_Accepted e \<or> IsZero (se_BestSubmitTime e) then firstBlood_loop all (i + 1) es m
      else case m (se_ProblemID e) of
             None \<Rightarrow> firstBlood_loop all (i + 1) es (m(se_ProblemID e \<mapsto> i))
           | Some c \<Rightarrow> firstBlood_loop all (i + 1) es
                        (if fb_better e (all ! c) then m(se_ProblemID e \<mapsto> i) else m))"

definition assignFirstBlood :: "score_entry list \<Rightarrow> score_entry list" where
  "assignFirstBlood entries =
     (let m = firstBlood_loop entries 0 entries Map.empty
      in map (\<lambda>(i, e). e\<lparr>se_IsFirstBlood := (m (se_ProblemID e) = Some i)\<rparr>)
           (enumerate 0 entries))"

section \<open>Rebuilding the board\<close>

fun load_entries ::
  "bool \<Rightarrow> strategy \<Rightarrow> contest_meta \<Rightarrow> (string \<times> score_entry payload) list \<Rightarrow> score_entry list" where
  "load_entries revealed strategy meta [] = []"
| "load_entries revealed strategy meta ((_, raw) # rest) =
     (case decode raw of
        None \<Rightarrow> load_entries revealed strategy meta rest
      | Some e \<Rightarrow>
          (if revealed \<and> strategy = ICPCStrategy
           then RevealAll (cm_StartTime meta) (cm_Settings meta) e else e)
          # load_entries revealed strategy meta rest)"

definition label_map :: "problem_label list \<Rightarrow> (ID \<rightharpoonup> string)" where
  "label_map labels = foldl (\<lambda>m pl. m(pl_ProblemID pl \<mapsto> pl_Label pl)) Map.empty labels"

definition cell_of :: "score_entry \<Rightarrow> board_cell" where
  "cell_of e = \<lparr>bc_Solved = se_Accepted e, bc_Attempts = se_WrongAttemptCount e,
     bc_Pending = se_FrozenAttempts e, bc_Penalty = se_Penalty e, bc_Score = se_DisplayScore e,
     bc_FirstBlood = se_IsFirstBlood e\<rparr>"

fun cells_loop ::
  "(ID \<rightharpoonup> string) \<Rightarrow> (ID \<times> score_entry) list \<Rightarrow> (string \<times> board_cell) list \<Rightarrow> int \<Rightarrow>
   (string \<times> board_cell) list \<times> int" where
  "cells_loop labelByPID [] cells solved = (cells, solved)"
| "cells_loop labelByPID ((pid, e) # rest) cells solved =
     (case labelByPID pid of
        None \<Rightarrow> cells_loop labelByPID rest cells solved
      | Some label \<Rightarrow> cells_loop labelByPID rest (AList.update label (cell_of e) cells)
                        (if se_Accepted e then solved + 1 else solved))"

definition contestant ::
  "ranking_env \<Rightarrow> (ID \<rightharpoonup> string) \<Rightarrow> (ID \<rightharpoonup> user_info) \<Rightarrow> rank_row \<Rightarrow> board_row_view" where
  "contestant env labelByPID userInfo r =
     (let (cells, solved) = cells_loop labelByPID (re_cell_order env (rr_Entries r)) [] 0;
          info = (case userInfo (rr_UserID r) of Some i \<Rightarrow> i
                  | None \<Rightarrow> \<lparr>ui_Username = [], ui_Organization = []\<rparr>)
      in \<lparr>br_Rank = rr_Rank r, br_UserID = rr_UserID r, br_Username = ui_Username info,
          br_Organization = ui_Organization info, br_Problems = cells, br_TotalSolved = solved,
          br_TotalPenalty = rr_TotalPenalty r, br_TotalScore = rr_TotalScore r\<rparr>)"

definition is_revealed :: "ranking_env \<Rightarrow> ID \<Rightarrow> ranking_state \<Rightarrow> bool" where
  "is_revealed env cid st \<longleftrightarrow>
     \<not> re_exists_fails env \<and> rs_strings st (redisKey cid keyRevealed) \<noteq> None"

definition ranked_rows ::
  "ranking_env \<Rightarrow> ID \<Rightarrow> contest_meta \<Rightarrow> strategy \<Rightarrow> ranking_state \<Rightarrow> rank_row list" where
  "ranked_rows env cid meta strategy st =
     strategy_Rank strategy (re_user_order env)
       (assignFirstBlood (load_entries (is_revealed env cid st) strategy meta
          (re_hash_order env (rs_hash st (redisKey cid keyEntries)))))
       (cm_Settings meta)"

definition rebuildSnapshot ::
  "ranking_env \<Rightarrow> ID \<Rightarrow> contest_meta \<Rightarrow> strategy \<Rightarrow> ranking_state \<Rightarrow>
   (error + board_snapshot) \<times> ranking_state" where
  "rebuildSnapshot env cid meta strategy st =
     (if re_hgetall_fails env then (Inl ''load entries'', st)
      else
        let inFreeze = (case cm_FreezeTime meta of None \<Rightarrow> False | Some f \<Rightarrow> \<not> Before (re_now env) f);
            frozen = (inFreeze \<and> \<not> is_revealed env cid st);
            rows = ranked_rows env cid meta strategy st
        in case re_problems env cid of
             Inl err \<Rightarrow> (Inl ''load contest problems'', st)
           | Inr labels \<Rightarrow>
               (case re_users env (map rr_UserID rows) of
                  Inl err \<Rightarrow> (Inl ''load usernames'', st)
                | Inr userInfo \<Rightarrow>
                    let contestants = sort_slice (\<lambda>a b. br_Rank a < br_Rank b)
                          (map (contestant env (label_map labels) userInfo) rows);
                        snapshot = \<lparr>bs_ContestID = cid, bs_ContestType = cm_ContestType meta,
                          bs_Frozen = frozen, bs_Problems = map pl_Label labels,
                          bs_Contestants = contestants, bs_UpdatedAt = re_now env\<rparr>
                    in if re_set_snapshot_fails env then (Inl ''store snapshot'', st)
                       else (Inr snapshot, st\<lparr>rs_strings :=
                              (rs_strings st)(redisKey cid keySnapshot \<mapsto> RSnapshot snapshot)\<rparr>)))"

definition publishSnapshot ::
  "ranking_env \<Rightarrow> ID \<Rightarrow> board_snapshot \<Rightarrow> ranking_state \<Rightarrow> error option \<times> ranking_state" where
  "publishSnapshot env cid snap st =
     (if re_publish_fails env then (Some ''publish'', st)
      else (None, st\<lparr>rs_published := rs_published st @ [(redisKey cid keyEvents, snap)]\<rparr>))"

section \<open>Processing one result\<close>

definition submitTimeOf :: "result_message \<Rightarrow> time" where
  "submitTimeOf result =
     (if IsZero (rm_SubmittedAt result) then rm_JudgedAt result else rm_SubmittedAt result)"

definition event_of :: "contest_meta \<Rightarrow> result_message \<Rightarrow> submission_event" where
  "event_of meta result = \<lparr>ev_UserID = rm_UserID result, ev_ProblemID = rm_ProblemID result,
     ev_Status = rm_Status result, ev_Score = rm_Score result, ev_SubmitTime = submitTimeOf result,
     ev_ContestStart = cm_StartTime meta, ev_FreezeTime = cm_FreezeTime meta\<rparr>"

definition stored_entry ::
  "ranking_env \<Rightarrow> ID \<Rightarrow> string \<Rightarrow> ranking_state \<Rightarrow> score_entry option" where
  "stored_entry env cid field st =
     (if re_hget_fails env then None
      else Option.bind (map_of (rs_hash st (redisKey cid keyEntries)) field) decode)"

definition HSet_entry :: "ID \<Rightarrow> string \<Rightarrow> score_entry \<Rightarrow> ranking_state \<Rightarrow> ranking_state" where
  "HSet_entry cid field entry st = st\<lparr>rs_hash := (rs_hash st)(redisKey cid keyEntries :=
     AList.update field (Encoded entry) (rs_hash st (redisKey cid keyEntries)))\<rparr>"

definition processContestResult ::
  "ranking_env \<Rightarrow> ID \<Rightarrow> result_message \<Rightarrow> ranking_state \<Rightarrow> error option \<times> ranking_state" where
  "processContestResult env cid result st =
     (case contestMetaCache_get env cid st of
        (Inl err, st) \<Rightarrow> (Some ''ranking: load contest'', st)
      | (Inr meta, st) \<Rightarrow>
          (case Registry_Get (re_registry env) (cm_ContestType meta) of
             Inl err \<Rightarrow> (None, st)
           | Inr strategy \<Rightarrow>
               let field = entryField (rm_UserID result) (rm_ProblemID result);
                   prev = stored_entry env cid field st;
                   newEntry = strategy_Apply strategy (event_of meta result) prev (cm_Settings meta)
               in if re_marshal_fails env then (Some ''ranking: marshal entry'', st)
                  else if re_hset_fails env then (Some ''ranking: persist entry'', st)
                  else
                    (case rebuildSnapshot env cid meta strategy (HSet_entry cid field newEntry st) of
                       (Inl err, st) \<Rightarrow> (Some ''ranking: rebuild snapshot'', st)
                     | (Inr snapshot, st) \<Rightarrow> (None, snd (publishSnapshot env cid snapshot st)))))"

definition handleResult ::
  "ranking_env \<Rightarrow> result_message payload \<Rightarrow> ranking_state \<Rightarrow> error option \<times> ranking_state" where
  "handleResult env msg st =
     (case decode msg of
        None \<Rightarrow> (None, st)
      | Some result \<Rightarrow>
          (case rm_ContestID result of
             None \<Rightarrow> (None, st)
           | Some cid \<Rightarrow>
               if rm_UserID result = 0 \<or> rm_ProblemID result = 0 then (None, st)
               else processContestResult env cid result st))"

section \<open>Revealing a contest\<close>

definition RevealContest :: "ranking_env \<Rightarrow> ID \<Rightarrow> ranking_state \<Rightarrow> error option \<times> ranking_state" where
  "RevealContest env cid st =
     (if re_set_revealed_fails env then (Some ''ranking: set revealed flag'', st)
      else
        let st = st\<lparr>rs_strings := (rs_strings st)(redisKey cid keyRevealed \<mapsto> RText ''1'')\<rparr>
        in case contestMetaCache_get env cid st of
             (Inl err, st) \<Rightarrow> (Some ''ranking: load contest'', st)
           | (Inr meta, st) \<Rightarrow>
               (case Registry_Get (re_registry env) (cm_ContestType meta) of
                  Inl err \<Rightarrow> (Some ''ranking: strategy for contest'', st)
                | Inr strategy \<Rightarrow>
                    (case rebuildSnapshot env cid meta strategy st of
                       (Inl err, st) \<Rightarrow> (Some ''ranking: rebuild on reveal'', st)
                     | (Inr snapshot, st) \<Rightarrow> publishSnapshot env cid snapshot st)))"

section \<open>First blood belongs to the earliest accepted submission\<close>

definition fb_eligible :: "score_entry \<Rightarrow> bool" where
  "fb_eligible e \<longleftrightarrow> se_Accepted e \<and> se_BestSubmitTime e \<noteq> 0"

definition fb_owner :: "score_entry list \<Rightarrow> score_entry \<Rightarrow> bool" where
  "fb_owner es e \<longleftrightarrow> fb_eligible e \<and>
     (\<forall>x \<in> set es. fb_eligible x \<and> se_ProblemID x = se_ProblemID e \<longrightarrow> \<not> fb_better x e)"

lemma fb_better_trans: "fb_better a b \<Longrightarrow> \<not> fb_better c b \<Longrightarrow> \<not> fb_better c a"
  by (auto simp: fb_better_def)

definition fb_inv :: "score_entry list \<Rightarrow> nat \<Rightarrow> (ID \<rightharpoonup> nat) \<Rightarrow> bool" where
  "fb_inv all i m \<longleftrightarrow>
     (\<forall>pid c. m pid = Some c \<longrightarrow> c < i \<and> fb_eligible (all ! c) \<and> se_ProblemID (all ! c) = pid) \<and>
     (\<forall>j < i. fb_eligible (all ! j) \<longrightarrow>
        (\<exists>c. m (se_ProblemID (all ! j)) = Some c \<and> \<not> fb_better (all ! j) (all ! c)))"

lemma fb_invD:
  "fb_inv all i m \<Longrightarrow> m pid = Some c \<Longrightarrow> c < i \<and> fb_eligible (all ! c) \<and> se_ProblemID (all ! c) = pid"
  "fb_inv all i m \<Longrightarrow> j < i \<Longrightarrow> fb_eligible (all ! j) \<Longrightarrow>
     \<exists>c. m (se_ProblemID (all ! j)) = Some c \<and> \<not> fb_better (all ! j) (all ! c)"
  by (simp_all add: fb_inv_def)

lemma fb_inv_skip:
  "fb_inv all i m \<Longrightarrow> \<not> fb_eligible (all ! i) \<Longrightarrow> fb_inv all (Suc i) m"
  unfolding fb_inv_def by (metis less_Suc_eq)

lemma fb_inv_keep:
  assumes "fb_inv all i m" and "m (se_ProblemID (all ! i)) = Some c"
    and "\<not> fb_better (all ! i) (all ! c)"
  shows "fb_inv all (Suc i) m"
  using assms unfolding fb_inv_def by (metis less_Suc_eq)

lemma fb_inv_take:
  assumes inv: "fb_inv all i m" and el: "fb_eligible (all ! i)"
    and better: "\<And>c. m (se_ProblemID (all ! i)) = Some c \<Longrightarrow> fb_better (all ! i) (all ! c)"
  shows "fb_inv all (Suc i) (m(se_ProblemID (all ! i) \<mapsto> i))"
  unfolding fb_inv_def
proof (intro conjI allI impI)
  fix pid c assume "(m(se_ProblemID (all ! i) \<mapsto> i)) pid = Some c"
  then show "c < Suc i" "fb_eligible (all ! c)" "se_ProblemID (all ! c) = pid"
    using fb_invD(1) [OF inv] el by (auto simp: less_Suc_eq split: if_splits)
next
  fix j assume j: "j < Suc i" "fb_eligible (all ! j)"
  show "\<exists>c. (m(se_ProblemID (all ! i) \<mapsto> i)) (se_ProblemID (all ! j)) = Some c \<and>
          \<not> fb_better (all ! j) (all ! c)"
  proof (cases "j = i")
    case True
    then show ?thesis by (simp add: fb_better_def)
  next
    case False
    then obtain c where "m (se_ProblemID (all ! j)) = Some c" "\<not> fb_better (all ! j) (all ! c)"
      using fb_invD(2) [OF inv, of j] j by (metis less_Suc_eq)
    moreover have "\<not> fb_better (all ! j) (all ! i)" if "se_ProblemID (all ! j) = se_ProblemID (all ! i)"
      using fb_better_trans [OF better [of c]] calculation that by simp
    ultimately show ?thesis by auto
  qed
qed

lemma firstBlood_loop_inv:
  "fb_inv all i m \<Longrightarrow> drop i all = es \<Longrightarrow> i \<le> length all \<Longrightarrow>
   fb_inv all (length all) (firstBlood_loop all i es m)"
proof (induction all i es m rule: firstBlood_loop.induct)
  case (1 all i m)
  then have "i = length all" by simp
  with 1 show ?case by simp
next
  case (2 all i e es m)
  have e: "e = all ! i" and es: "drop (i + 1) all = es"
    and len: "i + 1 \<le> length all"
    using "2.prems"(2) by (auto simp: nth_via_drop drop_Suc Suc_le_eq simp flip: tl_drop
        intro: ccontr)
  show ?case
  proof (cases "fb_eligible e")
    case False
    then have skip: "\<not> se_Accepted e \<or> IsZero (se_BestSubmitTime e)" by (auto simp: fb_eligible_def)
    then show ?thesis
      using "2.IH"(1) [OF skip _ es len] fb_inv_skip [OF "2.prems"(1)] False e by simp
  next
    case True
    then have go: "\<not> (\<not> se_Accepted e \<or> IsZero (se_BestSubmitTime e))" by (simp add: fb_eligible_def)
    show ?thesis
    proof (cases "m (se_ProblemID e)")
      case None
      then have "fb_inv all (i + 1) (m(se_ProblemID e \<mapsto> i))"
        using fb_inv_take [OF "2.prems"(1)] True e by simp
      from "2.IH"(2) [OF go None this es len] show ?thesis
        using go None by (simp add: fun_upd_def)
    next
      case (Some c)
      have "fb_inv all (i + 1) (if fb_better e (all ! c) then m(se_ProblemID e \<mapsto> i) else m)"
        using fb_inv_take [OF "2.prems"(1)] fb_inv_keep [OF "2.prems"(1)] True Some e by simp
      with "2.IH"(3) [OF go Some _ es len] show ?thesis using go Some by simp
    qed
  qed
qed

lemma assignFirstBlood_owner:
  assumes "distinct (map (\<lambda>e. (se_UserID e, se_ProblemID e)) es)"
  shows "assignFirstBlood es = map (\<lambda>e. e\<lparr>se_IsFirstBlood := fb_owner es e\<rparr>) es"
proof -
  let ?m = "firstBlood_loop es 0 es Map.empty"
  have inv: "fb_inv es (length es) ?m"
    by (rule firstBlood_loop_inv) (simp_all add: fb_inv_def)
  have "?m (se_ProblemID (es ! i)) = Some i \<longleftrightarrow> fb_owner es (es ! i)" if i: "i < length es" for i
  proof
    assume mi: "?m (se_ProblemID (es ! i)) = Some i"
    have "\<not> fb_better x (es ! i)"
      if "x \<in> set es" "fb_eligible x" "se_ProblemID x = se_ProblemID (es ! i)" for x
      using that mi fb_invD(2) [OF inv] by (metis in_set_conv_nth option.inject)
    with fb_invD(1) [OF inv mi] show "fb_owner es (es ! i)" by (simp add: fb_owner_def)
  next
    assume own: "fb_owner es (es ! i)"
    then obtain c where c: "?m (se_ProblemID (es ! i)) = Some c" "c < length es"
      "fb_eligible (es ! c)" "se_ProblemID (es ! c) = se_ProblemID (es ! i)"
      "\<not> fb_better (es ! i) (es ! c)"
      using fb_invD(2) [OF inv i] fb_invD(1) [OF inv] by (auto simp: fb_owner_def)
    moreover have "\<not> fb_better (es ! c) (es ! i)"
      using own c by (simp add: fb_owner_def)
    ultimately have "se_UserID (es ! c) = se_UserID (es ! i)" by (auto simp: fb_better_def)
    then have "c = i"
      using assms c i nth_eq_iff_index_eq [OF assms, of c i] by simp
    with c show "?m (se_ProblemID (es ! i)) = Some i" by simp
  qed
  then show ?thesis
    by (intro nth_equalityI) (simp_all add: assignFirstBlood_def Let_def nth_enumerate_eq)
qed

section \<open>Effects of one step\<close>

lemma rebuild_keeps [simp]:
  "rs_hash (snd (rebuildSnapshot env cid meta strategy st)) = rs_hash st"
  "rs_cache (snd (rebuildSnapshot env cid meta strategy st)) = rs_cache st"
  "rs_published (snd (rebuildSnapshot env cid meta strategy st)) = rs_published st"
  "k \<noteq> redisKey cid keySnapshot \<Longrightarrow>
   rs_strings (snd (rebuildSnapshot env cid meta strategy st)) k = rs_strings st k"
  by (simp_all add: rebuildSnapshot_def Let_def split: sum.split)

lemma publish_keeps [simp]:
  "rs_hash (snd (publishSnapshot env cid snap st)) = rs_hash st"
  "rs_cache (snd (publishSnapshot env cid snap st)) = rs_cache st"
  "rs_strings (snd (publishSnapshot env cid snap st)) = rs_strings st"
  "rs_published (snd (publishSnapshot env cid snap st)) =
     rs_published st @ (if re_publish_fails env then [] else [(redisKey cid keyEvents, snap)])"
  by (simp_all add: publishSnapshot_def)

lemma cache_get_keeps [simp]:
  "rs_hash (snd (contestMetaCache_get env cid st)) = rs_hash st"
  "rs_strings (snd (contestMetaCache_get env cid st)) = rs_strings st"
  "rs_published (snd (contestMetaCache_get env cid st)) = rs_published st"
  "c \<noteq> cid \<Longrightarrow> rs_cache (snd (contestMetaCache_get env cid st)) c = rs_cache st c"
  by (simp_all add: contestMetaCache_get_def Let_def split: option.split sum.split)

lemma HSet_keeps [simp]:
  "rs_strings (HSet_entry cid field e st) = rs_strings st"
  "rs_cache (HSet_entry cid field e st) = rs_cache st"
  "rs_published (HSet_entry cid field e st) = rs_published st"
  "k \<noteq> redisKey cid keyEntries \<Longrightarrow> rs_hash (HSet_entry cid field e st) k = rs_hash st k"
  by (simp_all add: HSet_entry_def)

text \<open>
  The two entry points in terms of projections, so that each effect follows from the lemmas on
  the operations they call.
\<close>

lemma process_cases:
  "processContestResult env cid r st =
     (let st1 = snd (contestMetaCache_get env cid st) in
      case fst (contestMetaCache_get env cid st) of
        Inl err \<Rightarrow> (Some ''ranking: load contest'', st1)
      | Inr meta \<Rightarrow>
          (case Registry_Get (re_registry env) (cm_ContestType meta) of
             Inl err \<Rightarrow> (None, st1)
           | Inr strategy \<Rightarrow>
               if re_marshal_fails env then (Some ''ranking: marshal entry'', st1)
               else if re_hset_fails env then (Some ''ranking: persist entry'', st1)
               else let field = entryField (rm_UserID r) (rm_ProblemID r);
                        st2 = HSet_entry cid field
                          (strategy_Apply strategy (event_of meta r) (stored_entry env cid field st1)
                             (cm_Settings meta)) st1;
                        st3 = snd (rebuildSnapshot env cid meta strategy st2)
                    in case fst (rebuildSnapshot env cid meta strategy st2) of
                         Inl err \<Rightarrow> (Some ''ranking: rebuild snapshot'', st3)
                       | Inr snap \<Rightarrow> (None, snd (publishSnapshot env cid snap st3))))"
  by (simp add: processContestResult_def Let_def split: prod.split sum.split)

lemma reveal_cases:
  "RevealContest env cid st =
     (if re_set_revealed_fails env then (Some ''ranking: set revealed flag'', st)
      else
        let st0 = st\<lparr>rs_strings := (rs_strings st)(redisKey cid keyRevealed \<mapsto> RText ''1'')\<rparr>;
            st1 = snd (contestMetaCache_get env cid st0)
        in case fst (contestMetaCache_get env cid st0) of
             Inl err \<Rightarrow> (Some ''ranking: load contest'', st1)
           | Inr meta \<Rightarrow>
               (case Registry_Get (re_registry env) (cm_ContestType meta) of
                  Inl err \<Rightarrow> (Some ''ranking: strategy for contest'', st1)
                | Inr strategy \<Rightarrow>
                    let st2 = snd (rebuildSnapshot env cid meta strategy st1)
                    in case fst (rebuildSnapshot env cid meta strategy st1) of
                         Inl err \<Rightarrow> (Some ''ranking: rebuild on reveal'', st2)
                       | Inr snap \<Rightarrow> publishSnapshot env cid snap st2))"
  unfolding RevealContest_def Let_def
  by (cases "contestMetaCache_get env cid
        (st\<lparr>rs_strings := (rs_strings st)(redisKey cid keyRevealed \<mapsto> RText ''1'')\<rparr>)")
     (auto split: sum.split prod.split)

definition cache_agrees :: "ID \<Rightarrow> contest_meta \<Rightarrow> ranking_state \<Rightarrow> bool" where
  "cache_agrees cid meta st \<longleftrightarrow> (\<forall>cm. rs_cache st cid = Some cm \<longrightarrow> ca_meta cm = meta)"

lemma cache_get_agrees:
  assumes "re_loader env cid = Inr meta" and "cache_agrees cid meta st"
  shows "fst (contestMetaCache_get env cid st) = Inr meta"
    and "cache_agrees cid meta (snd (contestMetaCache_get env cid st))"
  using assms
  by (cases "rs_cache st cid"; simp add: contestMetaCache_get_def cache_agrees_def)+

section \<open>The entry hash as a map of replays\<close>

definition entry_at :: "ranking_state \<Rightarrow> ID \<Rightarrow> ID \<Rightarrow> ID \<Rightarrow> score_entry option" where
  "entry_at st cid u p =
     Option.bind (map_of (rs_hash st (redisKey cid keyEntries)) (entryField u p)) decode"

lemma stored_entry_at:
  "\<not> re_hget_fails env \<Longrightarrow> stored_entry env cid (entryField u p) st = entry_at st cid u p"
  by (simp add: stored_entry_def entry_at_def)

lemma entry_at_HSet:
  "entry_at (HSet_entry c (entryField u' p') e st) cid u p =
   (if c = cid \<and> u' = u \<and> p' = p then Some e else entry_at st cid u p)"
  by (simp add: entry_at_def HSet_entry_def update_conv' key_defs)

lemma entry_at_cong: "rs_hash st = rs_hash st' \<Longrightarrow> entry_at st = entry_at st'"
  by (simp add: entry_at_def fun_eq_iff)

definition ranks :: "ID \<Rightarrow> ID \<Rightarrow> ID \<Rightarrow> result_message payload \<Rightarrow> bool" where
  "ranks cid u p msg =
     (case decode msg of None \<Rightarrow> False
      | Some r \<Rightarrow> rm_ContestID r = Some cid \<and> rm_UserID r = u \<and> rm_ProblemID r = p)"

definition events_for ::
  "contest_meta \<Rightarrow> ID \<Rightarrow> ID \<Rightarrow> ID \<Rightarrow> result_message payload list \<Rightarrow> submission_event list" where
  "events_for meta cid u p msgs =
     map (\<lambda>msg. event_of meta (the (decode msg))) (filter (ranks cid u p) msgs)"

definition strategy_replay ::
  "strategy \<Rightarrow> ContestSettings \<Rightarrow> score_entry option \<Rightarrow> submission_event list \<Rightarrow> score_entry option" where
  "strategy_replay strategy settings prev es =
     foldl (\<lambda>p e. Some (strategy_Apply strategy e p settings)) prev es"

definition storage_works :: "ranking_env \<Rightarrow> bool" where
  "storage_works env \<longleftrightarrow> \<not> re_hget_fails env \<and> \<not> re_marshal_fails env \<and> \<not> re_hset_fails env"

definition serves :: "ID \<Rightarrow> contest_meta \<Rightarrow> strategy \<Rightarrow> ranking_env \<Rightarrow> bool" where
  "serves cid meta strategy env \<longleftrightarrow> storage_works env \<and> re_loader env cid = Inr meta \<and>
     Registry_Get (re_registry env) (cm_ContestType meta) = Inr strategy"

lemma process_entry:
  assumes "serves cid meta strategy env" and "cache_agrees cid meta st"
    and "rm_UserID r = u'" and "rm_ProblemID r = p'"
  shows "entry_at (snd (processContestResult env cid r st)) cid u p =
      (if u = u' \<and> p = p'
       then Some (strategy_Apply strategy (event_of meta r) (entry_at st cid u p) (cm_Settings meta))
       else entry_at st cid u p)"
    and "cache_agrees cid meta (snd (processContestResult env cid r st))"
proof -
  let ?st1 = "snd (contestMetaCache_get env cid st)"
  have get: "fst (contestMetaCache_get env cid st) = Inr meta" "cache_agrees cid meta ?st1"
    using cache_get_agrees assms(1,2) by (auto simp: serves_def)
  let ?st2 = "HSet_entry cid (entryField u' p')
    (strategy_Apply strategy (event_of meta r) (entry_at st cid u' p') (cm_Settings meta)) ?st1"
  have "entry_at ?st1 = entry_at st" by (rule entry_at_cong) simp
  then have "rs_hash (snd (processContestResult env cid r st)) = rs_hash ?st2"
    and "rs_cache (snd (processContestResult env cid r st)) = rs_cache ?st1"
    using assms(1,3,4)
    by (auto simp: process_cases get serves_def storage_works_def stored_entry_at Let_def split: sum.split)
  then have "entry_at (snd (processContestResult env cid r st)) = entry_at ?st2"
    and agr: "cache_agrees cid meta (snd (processContestResult env cid r st))"
    using get(2) by (auto simp only: cache_agrees_def intro!: entry_at_cong)
  then show "entry_at (snd (processContestResult env cid r st)) cid u p =
      (if u = u' \<and> p = p'
       then Some (strategy_Apply strategy (event_of meta r) (entry_at st cid u p) (cm_Settings meta))
       else entry_at st cid u p)"
    using \<open>entry_at ?st1 = entry_at st\<close> by (simp only: entry_at_HSet) auto
  show "cache_agrees cid meta (snd (processContestResult env cid r st))" by (rule agr)
qed

lemma process_frame:
  "k \<noteq> redisKey cid keyEntries \<Longrightarrow> rs_hash (snd (processContestResult env cid r st)) k = rs_hash st k"
  "k \<noteq> redisKey cid keySnapshot \<Longrightarrow>
   rs_strings (snd (processContestResult env cid r st)) k = rs_strings st k"
  "c \<noteq> cid \<Longrightarrow> rs_cache (snd (processContestResult env cid r st)) c = rs_cache st c"
  "\<exists>new. rs_published (snd (processContestResult env cid r st)) = rs_published st @ new \<and>
     length new \<le> 1 \<and> fst ` set new \<subseteq> {redisKey cid keyEvents}"
  by (auto simp: process_cases Let_def split: sum.split)

definition run_results ::
  "(ranking_env \<times> result_message payload) list \<Rightarrow> ranking_state \<Rightarrow> ranking_state" where
  "run_results steps st = foldl (\<lambda>st (env, msg). snd (handleResult env msg st)) st steps"

lemma run_results_simps [simp]:
  "run_results [] st = st"
  "run_results ((env, msg) # steps) st = run_results steps (snd (handleResult env msg st))"
  by (simp_all add: run_results_def)

lemma handle_entry:
  assumes "serves cid meta strategy env" and "cache_agrees cid meta st" and "u \<noteq> 0" and "p \<noteq> 0"
  shows "entry_at (snd (handleResult env msg st)) cid u p =
      (if ranks cid u p msg
       then Some (strategy_Apply strategy (event_of meta (the (decode msg))) (entry_at st cid u p)
              (cm_Settings meta))
       else entry_at st cid u p)"
    and "cache_agrees cid meta (snd (handleResult env msg st))"
proof -
  consider "handleResult env msg st = (None, st)" "\<not> ranks cid u p msg"
    | r c where "decode msg = Some r" "rm_ContestID r = Some c"
        "handleResult env msg st = processContestResult env c r st"
    using assms(3,4) by (fastforce simp: handleResult_def ranks_def split: option.splits if_splits)
  then have "entry_at (snd (handleResult env msg st)) cid u p =
      (if ranks cid u p msg
       then Some (strategy_Apply strategy (event_of meta (the (decode msg))) (entry_at st cid u p)
              (cm_Settings meta))
       else entry_at st cid u p) \<and> cache_agrees cid meta (snd (handleResult env msg st))"
  proof cases
    case 1
    then show ?thesis using assms(2) by simp
  next
    case (2 r c)
    show ?thesis
    proof (cases "c = cid")
      case True
      then show ?thesis
        using 2 process_entry [OF assms(1,2) refl refl, of r] by (simp add: ranks_def)
    next
      case False
      have "entry_at (snd (processContestResult env c r st)) cid u p = entry_at st cid u p"
        using False by (simp add: entry_at_def process_frame(1))
      then show ?thesis
        using 2 False assms(2) by (simp add: ranks_def cache_agrees_def process_frame(3))
    qed
  qed
  then show "entry_at (snd (handleResult env msg st)) cid u p =
      (if ranks cid u p msg
       then Some (strategy_Apply strategy (event_of meta (the (decode msg))) (entry_at st cid u p)
              (cm_Settings meta))
       else entry_at st cid u p)"
    and "cache_agrees cid meta (snd (handleResult env msg st))" by blast+
qed

lemma store_is_replay:
  assumes "\<forall>(env, msg) \<in> set steps. serves cid meta strategy env" and "cache_agrees cid meta st"
    and "u \<noteq> 0" and "p \<noteq> 0"
  shows "entry_at (run_results steps st) cid u p =
    strategy_replay strategy (cm_Settings meta) (entry_at st cid u p)
      (events_for meta cid u p (map snd steps))"
  using assms(1,2)
proof (induction steps arbitrary: st)
  case Nil
  then show ?case by (simp add: strategy_replay_def events_for_def)
next
  case (Cons step steps)
  obtain env msg where step: "step = (env, msg)" by fastforce
  then have serves: "serves cid meta strategy env" using Cons.prems(1) by simp
  note one = handle_entry [OF serves Cons.prems(2) assms(3,4), of msg]
  show ?case
    using Cons.IH [OF _ one(2)] Cons.prems(1) one(1)
    by (simp add: step strategy_replay_def events_for_def)
qed

section \<open>Invariant of the entry store\<close>

definition entry_ok :: "score_entry \<Rightarrow> bool" where
  "entry_ok e \<longleftrightarrow> se_FrozenAttempts e = int (length (se_FrozenResults e)) \<and>
     (se_IsPending e \<longleftrightarrow> se_FrozenResults e \<noteq> [])"

definition hash_ok :: "(string \<times> score_entry payload) list \<Rightarrow> bool" where
  "hash_ok h \<longleftrightarrow> distinct (map fst h) \<and>
     (\<forall>(f, raw) \<in> set h. case decode raw of None \<Rightarrow> True
        | Some e \<Rightarrow> f = entryField (se_UserID e) (se_ProblemID e) \<and> entry_ok e)"

definition store_ok :: "ranking_state \<Rightarrow> bool" where
  "store_ok st \<longleftrightarrow> (\<forall>cid. hash_ok (rs_hash st (redisKey cid keyEntries)))"

lemma strategy_Apply_ok:
  assumes "\<And>e. prev = Some e \<Longrightarrow> entry_ok e"
  shows "entry_ok (strategy_Apply strategy ev prev settings)"
proof -
  have "entry_ok (cloneOrNew prev ev)"
    using assms by (cases prev) (simp_all add: entry_ok_def)
  then show ?thesis
    by (cases strategy) (auto simp: entry_ok_def ICPC_Apply_def OI_Apply_def Let_def)
qed

lemma hash_ok_update:
  assumes "hash_ok h" and "f = entryField (se_UserID e) (se_ProblemID e)" and "entry_ok e"
  shows "hash_ok (AList.update f (Encoded e) h)"
  unfolding hash_ok_def
proof
  show "distinct (map fst (AList.update f (Encoded e) h))"
    using assms(1) by (simp add: hash_ok_def distinct_update)
  show "\<forall>(f, raw) \<in> set (AList.update f (Encoded e) h).
      case decode raw of None \<Rightarrow> True
      | Some e \<Rightarrow> f = entryField (se_UserID e) (se_ProblemID e) \<and> entry_ok e"
    using assms set_AList_update [of f "Encoded e" h] by (fastforce simp: hash_ok_def)
qed

lemma stored_entry_ok:
  assumes "store_ok st" and "stored_entry env cid (entryField u p) st = Some e"
  shows "se_UserID e = u" and "se_ProblemID e = p" and "entry_ok e"
proof -
  let ?h = "rs_hash st (redisKey cid keyEntries)"
  obtain raw where "map_of ?h (entryField u p) = Some raw" and raw: "decode raw = Some e"
    using assms(2) by (auto simp: stored_entry_def bind_eq_Some_conv split: if_splits)
  then have "(entryField u p, raw) \<in> set ?h" by (simp add: map_of_SomeD)
  moreover have "hash_ok ?h" using assms(1) by (simp add: store_ok_def)
  ultimately have "entryField u p = entryField (se_UserID e) (se_ProblemID e) \<and> entry_ok e"
    using raw by (force simp: hash_ok_def)
  then show "se_UserID e = u" and "se_ProblemID e = p" and "entry_ok e" by simp_all
qed

lemma store_ok_keeps [simp]:
  "store_ok (snd (rebuildSnapshot env cid meta strategy st)) = store_ok st"
  "store_ok (snd (publishSnapshot env cid snap st)) = store_ok st"
  "store_ok (snd (contestMetaCache_get env cid st)) = store_ok st"
  by (simp_all add: store_ok_def)

lemma HSet_store_ok:
  assumes "store_ok st" and "u = ev_UserID ev" and "p = ev_ProblemID ev"
  shows "store_ok (HSet_entry cid (entryField u p)
    (strategy_Apply strategy ev (stored_entry env cid (entryField u p) st) settings) st)"
proof -
  let ?prev = "stored_entry env cid (entryField u p) st"
  let ?e = "strategy_Apply strategy ev ?prev settings"
  note prev = stored_entry_ok [OF assms(1), of env cid u p]
  have "registered.entry_for u p ?e"
    unfolding assms(2,3) by (rule registered.apply_keeps_key)
      (use prev assms(2,3) in \<open>simp add: registered.entry_for_def\<close>)
  then have "entryField u p = entryField (se_UserID ?e) (se_ProblemID ?e)"
    by (simp add: registered.entry_for_def)
  moreover have "entry_ok ?e" by (rule strategy_Apply_ok) (rule prev(3))
  ultimately have "hash_ok (AList.update (entryField u p) (Encoded ?e) (rs_hash st (redisKey cid keyEntries)))"
    using assms(1) by (intro hash_ok_update) (simp_all add: store_ok_def)
  then show ?thesis using assms(1) by (simp add: store_ok_def HSet_entry_def)
qed

lemma process_store_ok:
  assumes "store_ok st"
  shows "store_ok (snd (processContestResult env cid r st))"
proof -
  let ?st1 = "snd (contestMetaCache_get env cid st)"
  have st1: "store_ok ?st1" using assms by simp
  have st2: "store_ok (HSet_entry cid (entryField (rm_UserID r) (rm_ProblemID r))
      (strategy_Apply strategy (event_of meta r)
        (stored_entry env cid (entryField (rm_UserID r) (rm_ProblemID r)) ?st1) (cm_Settings meta)) ?st1)"
    for strategy meta
    by (rule HSet_store_ok [OF st1]) (simp_all add: event_of_def)
  show ?thesis
    using st1 st2 by (auto simp: process_cases Let_def split: sum.split)
qed

section \<open>What a rebuilt board is made of\<close>

lemma RevealNext_key [simp]:
  "se_UserID (fst (RevealNext e start settings)) = se_UserID e"
  "se_ProblemID (fst (RevealNext e start settings)) = se_ProblemID e"
  by (simp_all add: RevealNext_def Let_def split: list.split)

lemma RevealAll_key [simp]:
  "se_UserID (RevealAll start settings e) = se_UserID e"
  "se_ProblemID (RevealAll start settings e) = se_ProblemID e"
  by (induction start settings e rule: RevealAll.induct; subst RevealAll.simps; simp)+

lemma RevealNext_ok: "entry_ok e \<Longrightarrow> entry_ok (fst (RevealNext e start settings))"
  by (cases "se_FrozenResults e") (auto simp: RevealNext_def entry_ok_def Let_def)

lemma RevealAll_ok: "entry_ok e \<Longrightarrow> entry_ok (RevealAll start settings e)"
  by (induction start settings e rule: RevealAll.induct)
     (metis RevealAll.simps RevealNext_ok)

lemma RevealAll_pending: "entry_ok e \<Longrightarrow> se_FrozenAttempts (RevealAll start settings e) = 0"
  using RevealAll_ok [of e start settings] by (simp add: entry_ok_def RevealAll_empties)

lemma load_entries_keys:
  "map (\<lambda>e. (se_UserID e, se_ProblemID e)) (load_entries revealed strategy meta h) =
   map (\<lambda>e. (se_UserID e, se_ProblemID e)) (List.map_filter (\<lambda>(f, raw). decode raw) h)"
  by (induction revealed strategy meta h rule: load_entries.induct)
     (simp_all add: List.map_filter_simps split: option.split)

lemma load_entries_distinct:
  assumes "hash_ok h"
  shows "distinct (map (\<lambda>e. (se_UserID e, se_ProblemID e)) (load_entries revealed strategy meta h))"
  using assms unfolding load_entries_keys
proof (induction h)
  case (Cons x h)
  obtain f raw where x: "x = (f, raw)" by fastforce
  have ok: "hash_ok h" using Cons.prems by (simp add: hash_ok_def x)
  have "(se_UserID e, se_ProblemID e) \<notin>
      (\<lambda>e. (se_UserID e, se_ProblemID e)) ` set (List.map_filter (\<lambda>(f, raw). decode raw) h)"
    if e: "decode raw = Some e" for e
  proof
    assume "(se_UserID e, se_ProblemID e) \<in>
      (\<lambda>e. (se_UserID e, se_ProblemID e)) ` set (List.map_filter (\<lambda>(f, raw). decode raw) h)"
    then obtain f' raw' e' where "(f', raw') \<in> set h" "decode raw' = Some e'"
      "se_UserID e' = se_UserID e" "se_ProblemID e' = se_ProblemID e"
      by (auto simp: List.map_filter_def)
    then have "f' = f" using Cons.prems e ok by (force simp: hash_ok_def x)
    with \<open>(f', raw') \<in> set h\<close> Cons.prems show False by (force simp: hash_ok_def x)
  qed
  then show ?case
    using Cons.IH [OF ok] by (auto simp: x List.map_filter_simps split: option.split)
qed (simp add: List.map_filter_simps)

lemma row_entries:
  assumes "map_iteration it" and "r \<in> set (ICPC_Rank it es settings)" and "(pid, e) \<in> set (rr_Entries r)"
  shows "e \<in> set es"
proof -
  obtain u where "r = board_row icpc_accum icpc_better es u"
    using assms(1,2) ICPC_rows(1) by blast
  then have "(pid, e) \<in> set (foldl (\<lambda>m e. AList.update (se_ProblemID e) e m) [] (user_entries u es))"
    using assms(3)
    by (simp add: board_row_def row_of_def icpc_board.foldl_row_entries new_row_def)
  then show ?thesis
    using foldl_AList_update_set [of se_ProblemID "\<lambda>e. e" "[]" "user_entries u es"]
    by (auto simp: user_entries_def)
qed

lemma cells_loop_from:
  "(l, c) \<in> set (fst (cells_loop lab es cells n)) \<Longrightarrow>
   (l, c) \<in> set cells \<or> (\<exists>pid e. (pid, e) \<in> set es \<and> c = cell_of e)"
proof (induction lab es cells n rule: cells_loop.induct)
  case (2 lab pid e rest cells n)
  show ?case
  proof (cases "lab pid")
    case None
    then show ?thesis using 2 by auto
  next
    case (Some label)
    then have "(l, c) \<in> set (AList.update label (cell_of e) cells) \<or>
        (\<exists>pid e. (pid, e) \<in> set rest \<and> c = cell_of e)"
      using 2 by auto
    then show ?thesis using set_AList_update [of label "cell_of e" cells] by auto
  qed
qed simp

definition fair_orders :: "ranking_env \<Rightarrow> bool" where
  "fair_orders env \<longleftrightarrow> map_iteration (re_user_order env) \<and>
     (\<forall>h. mset (re_hash_order env h) = mset h) \<and> (\<forall>m. mset (re_cell_order env m) = mset m)"

lemma fair_ordersD:
  assumes "fair_orders env"
  shows "map_iteration (re_user_order env)" and "set (re_hash_order env h) = set h"
    and "set (re_cell_order env m) = set m" and "distinct (map fst (re_hash_order env h)) = distinct (map fst h)"
proof -
  show "map_iteration (re_user_order env)" using assms by (simp add: fair_orders_def)
  show "set (re_hash_order env h) = set h" "set (re_cell_order env m) = set m"
    using assms by (metis fair_orders_def set_mset_mset)+
  show "distinct (map fst (re_hash_order env h)) = distinct (map fst h)"
    using assms by (metis fair_orders_def mset_eq_imp_distinct_iff mset_map)
qed

lemma hash_ok_order:
  assumes "fair_orders env"
  shows "hash_ok (re_hash_order env h) = hash_ok h"
  by (simp add: hash_ok_def fair_ordersD [OF assms])

lemma assignFirstBlood_keeps:
  "set (map (\<lambda>e. e\<lparr>se_IsFirstBlood := False\<rparr>) (assignFirstBlood es)) =
   (\<lambda>e. e\<lparr>se_IsFirstBlood := False\<rparr>) ` set es"
proof -
  have "map (\<lambda>e. e\<lparr>se_IsFirstBlood := False\<rparr>) (assignFirstBlood es) =
      map (\<lambda>e. e\<lparr>se_IsFirstBlood := False\<rparr>) es"
    by (rule nth_equalityI) (simp_all add: assignFirstBlood_def Let_def nth_enumerate_eq)
  then show ?thesis by simp
qed

lemma revealed_entries_settled:
  assumes "hash_ok h" and "e \<in> set (assignFirstBlood (load_entries True ICPCStrategy meta h))"
  shows "se_FrozenAttempts e = 0"
proof -
  have "e\<lparr>se_IsFirstBlood := False\<rparr> \<in>
      (\<lambda>e. e\<lparr>se_IsFirstBlood := False\<rparr>) ` set (load_entries True ICPCStrategy meta h)"
    using assms(2) assignFirstBlood_keeps by fastforce
  then obtain x where x: "x \<in> set (load_entries True ICPCStrategy meta h)"
    and "e\<lparr>se_IsFirstBlood := False\<rparr> = x\<lparr>se_IsFirstBlood := False\<rparr>" by auto
  then have "se_FrozenAttempts e = se_FrozenAttempts x"
    by (metis score_entry.select_convs(9) score_entry.surjective score_entry.update_convs(12))
  moreover have "se_FrozenAttempts x = 0"
    using assms(1) x
    by (induction h) (auto simp: hash_ok_def RevealAll_pending split: option.splits)
  ultimately show ?thesis by simp
qed

lemma rebuild_rows:
  assumes "fst (rebuildSnapshot env cid meta strategy st) = Inr snap"
  shows "\<exists>lab ui. set (bs_Contestants snap) =
    contestant env lab ui ` set (ranked_rows env cid meta strategy st)"
proof -
  obtain labels ui where "re_problems env cid = Inr labels"
    and "re_users env (map rr_UserID (ranked_rows env cid meta strategy st)) = Inr ui"
    using assms by (auto simp: rebuildSnapshot_def Let_def split: if_splits sum.splits)
  then have "set (bs_Contestants snap) =
      contestant env (label_map labels) ui ` set (ranked_rows env cid meta strategy st)"
    using assms by (auto simp: rebuildSnapshot_def Let_def split: if_splits)
  then show ?thesis by blast
qed

lemma contestant_cells:
  assumes "fair_orders env" and "(label, cell) \<in> set (br_Problems (contestant env lab ui r))"
  shows "\<exists>pid e. (pid, e) \<in> set (rr_Entries r) \<and> cell = cell_of e"
proof -
  have "(label, cell) \<in> set (fst (cells_loop lab (re_cell_order env (rr_Entries r)) [] 0))"
    using assms(2) by (simp add: contestant_def Let_def split: prod.splits)
  then show ?thesis using cells_loop_from fair_ordersD(3) [OF assms(1)] by fastforce
qed

lemma revealed_cells:
  assumes "fair_orders env" and "store_ok st" and "is_revealed env cid st"
    and "fst (rebuildSnapshot env cid meta ICPCStrategy st) = Inr snap"
    and "row \<in> set (bs_Contestants snap)" and "(label, cell) \<in> set (br_Problems row)"
  shows "bc_Pending cell = 0"
proof -
  let ?h = "re_hash_order env (rs_hash st (redisKey cid keyEntries))"
  obtain lab ui where "set (bs_Contestants snap) =
      contestant env lab ui ` set (ranked_rows env cid meta ICPCStrategy st)"
    using rebuild_rows [OF assms(4)] by blast
  then obtain r where r: "r \<in> set (ranked_rows env cid meta ICPCStrategy st)"
    and row: "row = contestant env lab ui r" using assms(5) by auto
  obtain pid e where e: "(pid, e) \<in> set (rr_Entries r)" and cell: "cell = cell_of e"
    using contestant_cells [OF assms(1)] assms(6) row by blast
  have "e \<in> set (assignFirstBlood (load_entries True ICPCStrategy meta ?h))"
    using r assms(3) by (intro row_entries [OF fair_ordersD(1) [OF assms(1)] _ e])
      (simp add: ranked_rows_def)
  moreover have "hash_ok ?h" using assms(1,2) by (simp add: hash_ok_order store_ok_def)
  ultimately show ?thesis using revealed_entries_settled cell by (simp add: cell_of_def)
qed

section \<open>Hiding the frozen part of the store\<close>

fun hide_payload :: "score_entry payload \<Rightarrow> score_entry payload" where
  "hide_payload (Encoded e) = Encoded (icpc_public e)"
| "hide_payload Malformed = Malformed"

definition hide_frozen :: "ID \<Rightarrow> ranking_state \<Rightarrow> ranking_state" where
  "hide_frozen cid st = st\<lparr>rs_hash := (rs_hash st)(redisKey cid keyEntries :=
     map (apsnd hide_payload) (rs_hash st (redisKey cid keyEntries)))\<rparr>"

definition blank_cell :: "board_cell \<Rightarrow> board_cell" where
  "blank_cell c = c\<lparr>bc_Pending := 0\<rparr>"

definition blank_row :: "board_row_view \<Rightarrow> board_row_view" where
  "blank_row r = r\<lparr>br_Problems := map (apsnd blank_cell) (br_Problems r)\<rparr>"

definition blank_pending :: "board_snapshot \<Rightarrow> board_snapshot" where
  "blank_pending snap = snap\<lparr>bs_Contestants := map blank_row (bs_Contestants snap)\<rparr>"

text \<open>A Go map's iteration order may be random; it does not look at the values.\<close>

definition value_blind :: "ranking_env \<Rightarrow> bool" where
  "value_blind env \<longleftrightarrow>
     (\<forall>h g. re_hash_order env (map (apsnd g) h) = map (apsnd g) (re_hash_order env h)) \<and>
     (\<forall>m g. re_cell_order env (map (apsnd g) m) = map (apsnd g) (re_cell_order env m))"

lemma icpc_public_sels [simp]:
  "se_UserID (icpc_public e) = se_UserID e" "se_ProblemID (icpc_public e) = se_ProblemID e"
  "se_Accepted (icpc_public e) = se_Accepted e" "se_Penalty (icpc_public e) = se_Penalty e"
  "se_BestSubmitTime (icpc_public e) = se_BestSubmitTime e"
  "se_WrongAttemptCount (icpc_public e) = se_WrongAttemptCount e"
  "se_DisplayScore (icpc_public e) = se_DisplayScore e"
  "se_IsFirstBlood (icpc_public e) = se_IsFirstBlood e" "se_FrozenAttempts (icpc_public e) = 0"
  by (simp_all add: icpc_public_def)

lemma load_entries_hidden:
  "load_entries False ICPCStrategy meta (map (apsnd hide_payload) h) =
   map icpc_public (load_entries False ICPCStrategy meta h)"
proof (induction h)
  case (Cons x h)
  then show ?case by (cases x; cases "snd x") simp_all
qed simp

lemma fb_owner_hidden: "fb_owner (map icpc_public es) (icpc_public e) = fb_owner es e"
  by (simp add: fb_owner_def fb_eligible_def fb_better_def)

lemma assignFirstBlood_hidden:
  assumes "distinct (map (\<lambda>e. (se_UserID e, se_ProblemID e)) es)"
  shows "assignFirstBlood (map icpc_public es) = map icpc_public (assignFirstBlood es)"
proof -
  have "distinct (map (\<lambda>e. (se_UserID e, se_ProblemID e)) (map icpc_public es))"
    using assms by (simp add: comp_def)
  then show ?thesis
    using assms by (simp add: assignFirstBlood_owner fb_owner_hidden) (simp add: icpc_public_def)
qed

definition hide_rank_row :: "rank_row \<Rightarrow> rank_row" where
  "hide_rank_row r = r\<lparr>rr_Entries := map (apsnd icpc_public) (rr_Entries r)\<rparr>"

lemma hide_rank_row_sels [simp]:
  "rr_UserID (hide_rank_row r) = rr_UserID r" "rr_TotalScore (hide_rank_row r) = rr_TotalScore r"
  "rr_TotalPenalty (hide_rank_row r) = rr_TotalPenalty r"
  "rr_LastACTime (hide_rank_row r) = rr_LastACTime r" "rr_Rank (hide_rank_row r) = rr_Rank r"
  "rr_Entries (hide_rank_row r) = map (apsnd icpc_public) (rr_Entries r)"
  by (simp_all add: hide_rank_row_def)

lemma icpc_accum_hidden:
  "icpc_accum (hide_rank_row r\<lparr>rr_Entries := AList.update (se_ProblemID e) (icpc_public e)
      (rr_Entries (hide_rank_row r))\<rparr>) (icpc_public e) =
   hide_rank_row (icpc_accum (r\<lparr>rr_Entries := AList.update (se_ProblemID e) e (rr_Entries r)\<rparr>) e)"
  by (simp add: icpc_accum_def hide_rank_row_def AList_update_map Let_def)

lemma aggregate_hidden:
  "aggregate_loop icpc_accum (map icpc_public es) (map (apsnd hide_rank_row) m) =
   map (apsnd hide_rank_row) (aggregate_loop icpc_accum es m)"
proof (induction es arbitrary: m)
  case (Cons e es)
  have new: "hide_rank_row (new_row u) = new_row u" for u
    by (simp add: hide_rank_row_def new_row_def)
  have row: "(case map_option hide_rank_row (map_of m u) of Some r \<Rightarrow> r | None \<Rightarrow> new_row u) =
      hide_rank_row (case map_of m u of Some r \<Rightarrow> r | None \<Rightarrow> new_row u)" for u
    by (simp add: new split: option.split)
  show ?case
    by (simp only: list.map aggregate_loop.simps Let_def icpc_public_sels map_of_apsnd row
        icpc_accum_hidden AList_update_map Cons.IH)
qed simp

lemma assignRanks_hidden:
  "assignRanks_loop icpc_tied i (map_option hide_rank_row prev) (map hide_rank_row rows) =
   map hide_rank_row (assignRanks_loop icpc_tied i prev rows)"
proof (induction rows arbitrary: i prev)
  case (Cons r rows)
  let ?r = "case prev of None \<Rightarrow> r\<lparr>rr_Rank := i + 1\<rparr>
    | Some q \<Rightarrow> if \<not> icpc_tied q r then r\<lparr>rr_Rank := i + 1\<rparr> else r\<lparr>rr_Rank := rr_Rank q\<rparr>"
  have "(case map_option hide_rank_row prev of None \<Rightarrow> hide_rank_row r\<lparr>rr_Rank := i + 1\<rparr>
      | Some q \<Rightarrow> if \<not> icpc_tied q (hide_rank_row r) then hide_rank_row r\<lparr>rr_Rank := i + 1\<rparr>
                  else hide_rank_row r\<lparr>rr_Rank := rr_Rank q\<rparr>) = hide_rank_row ?r"
    by (cases prev) (simp_all add: icpc_tied_def hide_rank_row_def)
  then show ?case using Cons.IH [of "i + 1" "Some ?r"] by (simp add: Let_def)
qed simp

lemma ICPC_Rank_hidden:
  assumes "map_iteration it"
  shows "ICPC_Rank it (map icpc_public es) settings = map hide_rank_row (ICPC_Rank it es settings)"
proof -
  have agg: "aggregateUsers (\<lambda>m. m) (map icpc_public es) icpc_accum =
      map hide_rank_row (aggregateUsers (\<lambda>m. m) es icpc_accum)"
    using aggregate_hidden [of es "[]"] by (simp add: aggregateUsers_def)
  have less: "icpc_less (hide_rank_row a) (hide_rank_row b) = icpc_less a b" for a b
    by (simp add: icpc_less_def)
  have "ICPC_Rank (\<lambda>m. m) (map icpc_public es) settings =
      map hide_rank_row (ICPC_Rank (\<lambda>m. m) es settings)"
    using assignRanks_hidden [of 0 None]
    by (simp add: ICPC_Rank_def assignRanks_def agg sort_slice_map [of icpc_less, OF less])
  then show ?thesis
    using icpc_rank_order_free [OF assms map_iteration_id] by simp
qed

lemma cells_hidden:
  "cells_loop lab (map (apsnd icpc_public) es) (map (apsnd blank_cell) cells) n =
   apfst (map (apsnd blank_cell)) (cells_loop lab es cells n)"
proof (induction lab es cells n rule: cells_loop.induct)
  case (2 lab pid e rest cells n)
  have cell: "cell_of (icpc_public e) = blank_cell (cell_of e)"
    by (simp add: cell_of_def blank_cell_def)
  show ?case
    using 2 by (cases "lab pid"; cases "se_Accepted e") (simp_all add: cell AList_update_map)
qed simp

lemma contestant_hidden:
  assumes "value_blind env"
  shows "contestant env lab ui (hide_rank_row r) = blank_row (contestant env lab ui r)"
  using assms cells_hidden [of lab "re_cell_order env (rr_Entries r)" "[]" 0]
  by (simp add: contestant_def value_blind_def blank_row_def Let_def split: prod.split)

lemma ranked_rows_hidden:
  assumes "value_blind env" and "fair_orders env" and "store_ok st" and "\<not> is_revealed env cid st"
  shows "ranked_rows env cid meta ICPCStrategy (hide_frozen cid st) =
    map hide_rank_row (ranked_rows env cid meta ICPCStrategy st)"
proof -
  let ?h = "re_hash_order env (rs_hash st (redisKey cid keyEntries))"
  have h: "re_hash_order env (rs_hash (hide_frozen cid st) (redisKey cid keyEntries)) =
      map (apsnd hide_payload) ?h" and r: "\<not> is_revealed env cid (hide_frozen cid st)"
    using assms(1,4) by (simp_all add: hide_frozen_def value_blind_def is_revealed_def)
  have "hash_ok ?h" using assms(2,3) by (simp add: hash_ok_order store_ok_def)
  then have "assignFirstBlood (map icpc_public (load_entries False ICPCStrategy meta ?h)) =
      map icpc_public (assignFirstBlood (load_entries False ICPCStrategy meta ?h))"
    by (intro assignFirstBlood_hidden load_entries_distinct)
  then show ?thesis
    using assms(4) fair_ordersD(1) [OF assms(2)] r
    by (simp add: ranked_rows_def h load_entries_hidden ICPC_Rank_hidden)
qed

lemma rebuild_hidden:
  assumes "value_blind env" and "fair_orders env" and "store_ok st" and "\<not> is_revealed env cid st"
  shows "fst (rebuildSnapshot env cid meta ICPCStrategy (hide_frozen cid st)) =
    map_sum id blank_pending (fst (rebuildSnapshot env cid meta ICPCStrategy st))"
proof -
  have r: "\<not> is_revealed env cid (hide_frozen cid st)"
    using assms(4) by (simp add: hide_frozen_def is_revealed_def)
  have ids: "map rr_UserID (map hide_rank_row rows) = map rr_UserID rows" for rows by simp
  have rows: "map (contestant env lab ui) (map hide_rank_row rows) =
      map blank_row (map (contestant env lab ui) rows)" for lab ui rows
    by (simp add: contestant_hidden [OF assms(1)])
  have sorted: "sort_slice (\<lambda>a b. br_Rank a < br_Rank b) (map blank_row rows) =
      map blank_row (sort_slice (\<lambda>a b. br_Rank a < br_Rank b) rows)" for rows
    by (rule sort_slice_map) (simp add: blank_row_def)
  show ?thesis
    unfolding rebuildSnapshot_def Let_def ranked_rows_hidden [OF assms] ids rows sorted
    using assms(4) r by (simp add: blank_pending_def split: sum.split)
qed

section \<open>Properties\<close>

definition sample_meta :: contest_meta where
  "sample_meta = \<lparr>cm_ContestType = ContestICPC, cm_Settings = Map.empty,
     cm_StartTime = 1000000000000, cm_FreezeTime = Some (1000000000000 + 240 * minute_ns),
     cm_EndTime = 1000000000000 + 300 * minute_ns\<rparr>"

definition sample_env :: ranking_env where
  "sample_env = \<lparr>re_registry = NewRegistry, re_loader = (\<lambda>_. Inr sample_meta),
     re_problems = (\<lambda>_. Inr [\<lparr>pl_ProblemID = 1, pl_Label = ''A''\<rparr>]),
     re_users = (\<lambda>_. Inr Map.empty), re_now_lookup = 1000000000000, re_now_store = 1000000000000,
     re_now = 1000000000000 + 250 * minute_ns, re_hash_order = (\<lambda>h. h), re_user_order = (\<lambda>m. m),
     re_cell_order = (\<lambda>m. m), re_hget_fails = False, re_marshal_fails = False,
     re_hset_fails = False, re_hgetall_fails = False, re_exists_fails = False,
     re_set_revealed_fails = False, re_set_snapshot_fails = False, re_publish_fails = False\<rparr>"

definition sample_result :: "ID \<Rightarrow> SubmissionStatus \<Rightarrow> int \<Rightarrow> result_message" where
  "sample_result u st m = \<lparr>rm_TaskID = ''t'', rm_SubmissionID = 1, rm_UserID = u, rm_ProblemID = 1,
     rm_ContestID = Some 5, rm_Status = st, rm_Score = 0, rm_TimeUsedMs = 0, rm_MemUsedKB = 0,
     rm_CompileLog = [], rm_JudgeMessage = [], rm_TestCaseResults = [], rm_JudgeNodeID = [],
     rm_JudgedAt = 0, rm_SubmittedAt = 1000000000000 + m * minute_ns\<rparr>"

definition empty_state :: ranking_state where
  "empty_state = \<lparr>rs_hash = (\<lambda>_. []), rs_strings = Map.empty, rs_published = [],
     rs_cache = Map.empty\<rparr>"

lemma sample_serves: "serves 5 sample_meta ICPCStrategy sample_env"
  by (simp add: serves_def storage_works_def sample_env_def sample_meta_def Registry_Get_def
      NewRegistry_def Register_def)

lemma empty_state_facts [simp]:
  "cache_agrees cid meta empty_state" "store_ok empty_state" "entry_at empty_state cid u p = None"
  by (simp_all add: cache_agrees_def empty_state_def store_ok_def hash_ok_def entry_at_def)

text \<open>
  C2: the Redis hash of a contest refines the abstract board. After any sequence of result
  messages, contest and practice results of other contests, users and problems interleaved, the
  stored entry of a user and problem is the replay of exactly that pair's results, in order,
  through the contest's strategy. Failures to rebuild, store or publish the snapshot do not affect
  it; reading and writing the entry itself must succeed.
\<close>

theorem ranking_store_is_replay:
  assumes "\<forall>(env, msg) \<in> set steps. serves cid meta strategy env" and "cache_agrees cid meta st"
    and "u \<noteq> 0" and "p \<noteq> 0"
  shows "entry_at (run_results steps st) cid u p =
    strategy_replay strategy (cm_Settings meta) (entry_at st cid u p)
      (events_for meta cid u p (map snd steps))"
  using assms by (rule store_is_replay)

theorem ranking_store_is_replay_witness:
  "entry_at (run_results
      [(sample_env, Encoded (sample_result 7 StatusWrongAnswer 30)), (sample_env, Malformed),
       (sample_env\<lparr>re_hgetall_fails := True\<rparr>, Encoded (sample_result 8 StatusAccepted 31)),
       (sample_env, Encoded (sample_result 7 StatusAccepted 40))] empty_state) 5 7 1 =
   strategy_replay ICPCStrategy Map.empty None
     [event_of sample_meta (sample_result 7 StatusWrongAnswer 30),
      event_of sample_meta (sample_result 7 StatusAccepted 40)]"
proof -
  have fails: "serves 5 sample_meta ICPCStrategy (sample_env\<lparr>re_hgetall_fails := True\<rparr>)"
    using sample_serves by (simp add: serves_def storage_works_def)
  show ?thesis
    by (subst ranking_store_is_replay [where meta = sample_meta and strategy = ICPCStrategy])
       (auto simp: sample_serves fails events_for_def ranks_def sample_result_def,
        simp add: sample_meta_def)
qed


definition sample_store :: ranking_state where
  "sample_store = empty_state\<lparr>rs_hash := (\<lambda>_.
     [(entryField 7 1, Encoded (ICPC_replay 7 1 Map.empty
         [event_of sample_meta (sample_result 7 StatusWrongAnswer 30),
          event_of sample_meta (sample_result 7 StatusAccepted 250)])),
      (entryField 8 1, Encoded (ICPC_replay 8 1 Map.empty
         [event_of sample_meta (sample_result 8 StatusAccepted 35)]))])\<rparr>"

lemma ICPC_replay_ok:
  "entry_ok (ICPC_replay u p settings es)"
  "se_UserID (ICPC_replay u p settings es) = u" "se_ProblemID (ICPC_replay u p settings es) = p"
  by (cases "dropWhile not_AC (filter (\<lambda>e. \<not> post_freeze e) es)";
      simp add: replay_reference icpc_reference_def Let_def entry_ok_def del: dropWhile_eq_Nil_conv)+

lemma sample_store_facts [simp]:
  "store_ok sample_store" "\<not> is_revealed env cid sample_store" "cache_agrees cid meta sample_store"
  by (simp_all add: store_ok_def sample_store_def hash_ok_def ICPC_replay_ok is_revealed_def
      empty_state_def cache_agrees_def)

lemma sample_env_orders [simp]: "value_blind sample_env" "fair_orders sample_env"
  by (simp_all add: value_blind_def fair_orders_def sample_env_def)

lemma handle_store_ok: "store_ok st \<Longrightarrow> store_ok (snd (handleResult env msg st))"
  by (auto simp: handleResult_def process_store_ok split: option.split)

lemma run_store_ok: "store_ok st \<Longrightarrow> store_ok (run_results steps st)"
proof (induction steps arbitrary: st)
  case (Cons x steps)
  then show ?case by (cases x) (simp add: handle_store_ok)
qed simp


text \<open>
  C17: a problem's first blood is awarded to the accepted entry with the earliest submission, ties
  going to the smaller user, and to no other; the award is a function of the set of entries, so
  neither the order Redis returns them in nor a stale stored flag matters.
\<close>

theorem first_blood_earliest:
  assumes "distinct (map (\<lambda>e. (se_UserID e, se_ProblemID e)) es)"
  shows "assignFirstBlood es = map (\<lambda>e. e\<lparr>se_IsFirstBlood := fb_owner es e\<rparr>) es \<and>
    (\<forall>x \<in> set es. \<forall>y \<in> set es. fb_owner es x \<and> fb_owner es y \<and> se_ProblemID x = se_ProblemID y \<longrightarrow> x = y)"
proof (intro conjI ballI impI)
  show "assignFirstBlood es = map (\<lambda>e. e\<lparr>se_IsFirstBlood := fb_owner es e\<rparr>) es"
    using assms by (rule assignFirstBlood_owner)
  fix x y assume xy: "x \<in> set es" "y \<in> set es"
    "fb_owner es x \<and> fb_owner es y \<and> se_ProblemID x = se_ProblemID y"
  then have "\<not> fb_better x y" "\<not> fb_better y x" by (auto simp: fb_owner_def)
  then have "se_UserID x = se_UserID y" by (auto simp: fb_better_def)
  with xy assms show "x = y" by (auto simp: distinct_map inj_on_def)
qed

theorem first_blood_earliest_witness:
  "map se_IsFirstBlood (assignFirstBlood
     [(zero_entry 1 10)\<lparr>se_Accepted := True, se_BestSubmitTime := 90\<rparr>,
      (zero_entry 2 10)\<lparr>se_Accepted := True, se_BestSubmitTime := 50\<rparr>,
      (zero_entry 1 11)\<lparr>se_Accepted := True, se_BestSubmitTime := 70\<rparr>]) = [False, True, True]"
  by (subst first_blood_earliest [THEN conjunct1])
     (simp_all add: fb_owner_def fb_eligible_def fb_better_def)

text \<open>
  C16: whatever fails on the way, processing a message and revealing a contest keep the entry store
  well formed: hash fields are distinct and name the user and problem of the entry they hold, and
  an entry's frozen counter and pending flag agree with its frozen results.
\<close>

theorem ranking_store_invariant:
  assumes "store_ok st"
  shows "store_ok (snd (handleResult env msg st)) \<and> store_ok (snd (RevealContest env cid st))"
proof
  show "store_ok (snd (handleResult env msg st))" using assms by (rule handle_store_ok)
  have "store_ok (st\<lparr>rs_strings := f\<rparr>)" for f using assms by (simp add: store_ok_def)
  then show "store_ok (snd (RevealContest env cid st))"
    using assms by (auto simp: reveal_cases Let_def split: sum.split)
qed

theorem ranking_store_invariant_witness:
  "store_ok (snd (handleResult (sample_env\<lparr>re_hget_fails := True\<rparr>)
     (Encoded (sample_result 7 StatusTLE 260)) sample_store))"
  using ranking_store_invariant [OF sample_store_facts(1)] by blast

text \<open>
  C19: a message that does not decode, or belongs to no contest, or names no user or problem, is
  acknowledged without any effect; any other message touches only its own contest: one hash, one
  snapshot and at most one frame published to that contest's channel.
\<close>

theorem ranking_frame:
  "case decode msg of
     None \<Rightarrow> handleResult env msg st = (None, st)
   | Some r \<Rightarrow>
       (case rm_ContestID r of
          None \<Rightarrow> handleResult env msg st = (None, st)
        | Some cid \<Rightarrow>
            if rm_UserID r = 0 \<or> rm_ProblemID r = 0 then handleResult env msg st = (None, st)
            else
              (\<forall>k. k \<noteq> redisKey cid keyEntries \<longrightarrow>
                 rs_hash (snd (handleResult env msg st)) k = rs_hash st k) \<and>
              (\<forall>k. k \<noteq> redisKey cid keySnapshot \<longrightarrow>
                 rs_strings (snd (handleResult env msg st)) k = rs_strings st k) \<and>
              (\<exists>new. rs_published (snd (handleResult env msg st)) = rs_published st @ new \<and>
                 length new \<le> 1 \<and> fst ` set new \<subseteq> {redisKey cid keyEvents}))"
proof (cases "decode msg")
  case (Some r)
  show ?thesis
  proof (cases "rm_ContestID r")
    case cid: (Some cid)
    show ?thesis
      using process_frame(4) [of env cid r st]
      by (simp add: Some cid handleResult_def process_frame(1,2))
  qed (simp add: Some handleResult_def)
qed (simp add: handleResult_def)

theorem ranking_frame_witness:
  "rs_hash (snd (handleResult sample_env (Encoded (sample_result 7 StatusTLE 60)) sample_store))
     (redisKey 6 keyEntries) = rs_hash sample_store (redisKey 6 keyEntries)"
proof -
  have "rm_ContestID (sample_result 7 StatusTLE 60) = Some 5"
    "rm_UserID (sample_result 7 StatusTLE 60) = 7" "rm_ProblemID (sample_result 7 StatusTLE 60) = 1"
    by (simp_all add: sample_result_def)
  then show ?thesis
    using ranking_frame [where msg = "Encoded (sample_result 7 StatusTLE 60)" and
        env = sample_env and st = sample_store] by simp
qed



text \<open>
  C20: results are not applied exactly once. When rebuilding the snapshot fails, the entry has
  already been written but the message is not acknowledged; its redelivery counts the same
  rejected submission a second time.
\<close>

theorem redelivery_counts_twice:
  assumes "serves cid meta ICPCStrategy env" and "cache_agrees cid meta st"
    and "rm_ContestID r = Some cid" and "rm_UserID r \<noteq> 0" and "rm_ProblemID r \<noteq> 0"
    and "rm_Status r = StatusWrongAnswer" and "\<not> post_freeze (event_of meta r)"
    and "entry_at st cid (rm_UserID r) (rm_ProblemID r) = Some e" and "\<not> se_Accepted e"
  defines "failing \<equiv> env\<lparr>re_hgetall_fails := True\<rparr>"
  shows "fst (handleResult failing (Encoded r) st) \<noteq> None \<and>
    (\<exists>e'. entry_at (run_results [(failing, Encoded r), (env, Encoded r)] st) cid
            (rm_UserID r) (rm_ProblemID r) = Some e' \<and>
          se_WrongAttemptCount e' = se_WrongAttemptCount e + 2)"
proof
  have serves: "serves cid meta ICPCStrategy failing"
    using assms(1) by (simp add: serves_def storage_works_def failing_def)
  have get: "fst (contestMetaCache_get failing cid st) = Inr meta"
    using serves assms(2) by (intro cache_get_agrees) (simp_all add: serves_def)
  have "re_hgetall_fails failing" by (simp add: failing_def)
  then show "fst (handleResult failing (Encoded r) st) \<noteq> None"
    using assms(3-5) serves
    by (simp add: handleResult_def process_cases get serves_def storage_works_def Let_def
        rebuildSnapshot_def)
  let ?steps = "[(failing, Encoded r), (env, Encoded r)]"
  have events: "events_for meta cid (rm_UserID r) (rm_ProblemID r) (map snd ?steps) =
      [event_of meta r, event_of meta r]"
    using assms(3) by (simp add: events_for_def ranks_def)
  have "entry_at (run_results ?steps st) cid (rm_UserID r) (rm_ProblemID r) =
      strategy_replay ICPCStrategy (cm_Settings meta) (Some e) [event_of meta r, event_of meta r]"
    using store_is_replay [of ?steps cid meta ICPCStrategy st] assms(1,2,4,5,8) serves events by simp
  then show "\<exists>e'. entry_at (run_results ?steps st) cid (rm_UserID r) (rm_ProblemID r) = Some e' \<and>
      se_WrongAttemptCount e' = se_WrongAttemptCount e + 2"
    using assms(6,7,9)
    by (simp add: strategy_replay_def ICPC_Apply_def post_freeze_def event_of_def ignoreCE_def Let_def)
qed

theorem redelivery_counts_twice_witness:
  "fst (handleResult (sample_env\<lparr>re_hgetall_fails := True\<rparr>)
     (Encoded (sample_result 7 StatusWrongAnswer 50)) sample_store) \<noteq> None"
proof -
  have entry: "entry_at sample_store 5 7 1 = Some (ICPC_replay 7 1 Map.empty
         [event_of sample_meta (sample_result 7 StatusWrongAnswer 30),
          event_of sample_meta (sample_result 7 StatusAccepted 250)])"
    by (simp add: entry_at_def sample_store_def)
  have "\<not> se_Accepted (ICPC_replay 7 1 Map.empty
         [event_of sample_meta (sample_result 7 StatusWrongAnswer 30),
          event_of sample_meta (sample_result 7 StatusAccepted 250)])"
    "\<not> post_freeze (event_of sample_meta (sample_result 7 StatusWrongAnswer 50))"
    by code_simp+
  then show ?thesis
    using redelivery_counts_twice [OF sample_serves sample_store_facts(3),
        of "sample_result 7 StatusWrongAnswer 50"] entry
    by (simp add: sample_result_def)
qed

end
