(* ===== verification/Hub.thy ===== *)
theory Hub
  imports Ranking
begin

text \<open>
  Package \<open>core/ranking\<close>, file \<open>websocket.go\<close>: the hub that groups WebSocket clients into one room
  per contest and fans published boards out to them.

  Clients are numbered in the order they connect; a client's \<open>send\<close> channel is a buffer with a
  closed flag. The three channels into \<open>Hub.Run\<close>, the snapshot fetches in flight and the
  connections are part of the state. Each handler is a function; one step of the step relation is
  one atomic action of one goroutine, so every interleaving of the hub goroutine, the Pub/Sub
  reader, \<open>ServeWS\<close> and the pumps is a run. Closing a closed channel and sending on a closed one
  panic in Go; both are recorded as flags.

  The ghost fields \<open>h_log\<close> and \<open>cl_since\<close> record which broadcasts were handled and where in that
  history a client was registered; no handler reads them.
\<close>

section \<open>State\<close>

datatype 'a frame = SnapshotFrame 'a | EventFrame 'a

type_synonym client_id = nat

definition sendBufSize :: nat where "sendBufSize = 64"
definition registerCap :: nat where "registerCap = 256"
definition unregisterCap :: nat where "unregisterCap = 256"
definition broadcastCap :: nat where "broadcastCap = 2048"

record 'a client =
  cl_contestID :: ID
  cl_send :: "'a frame list"
  cl_closed :: bool
  cl_written :: "'a frame list list"
  cl_pumps :: bool
  cl_since :: nat

record 'a hub =
  h_rooms :: "ID \<rightharpoonup> client_id list"
  h_clients :: "client_id \<rightharpoonup> 'a client"
  h_next :: client_id
  h_register :: "client_id list"
  h_unregister :: "client_id list"
  h_broadcast :: "(ID \<times> 'a) list"
  h_fetching :: "client_id list"
  h_running :: bool
  h_double_close :: bool
  h_send_on_closed :: bool
  h_log :: "(ID \<times> 'a) list"

definition NewHub :: "'a hub" where
  "NewHub = \<lparr>h_rooms = Map.empty, h_clients = Map.empty, h_next = 0, h_register = [],
     h_unregister = [], h_broadcast = [], h_fetching = [], h_running = True, h_double_close = False,
     h_send_on_closed = False, h_log = []\<rparr>"

definition upd_client :: "client_id \<Rightarrow> ('a client \<Rightarrow> 'a client) \<Rightarrow> 'a hub \<Rightarrow> 'a hub" where
  "upd_client i f h =
     (case h_clients h i of
        None \<Rightarrow> h
      | Some c \<Rightarrow> h\<lparr>h_clients := (h_clients h)(i \<mapsto> f c)\<rparr>)"

definition close_send :: "client_id \<Rightarrow> 'a hub \<Rightarrow> 'a hub" where
  "close_send i h =
     (case h_clients h i of
        None \<Rightarrow> h
      | Some c \<Rightarrow>
          if cl_closed c then h\<lparr>h_double_close := True\<rparr>
          else h\<lparr>h_clients := (h_clients h)(i \<mapsto> c\<lparr>cl_closed := True\<rparr>)\<rparr>)"

section \<open>Handlers of the hub goroutine\<close>

definition handleRegister :: "client_id \<Rightarrow> ID \<Rightarrow> 'a hub \<Rightarrow> 'a hub" where
  "handleRegister i cid h =
     (let room = (case h_rooms h cid of None \<Rightarrow> [] | Some room \<Rightarrow> room);
          h = h\<lparr>h_rooms := (h_rooms h)(cid \<mapsto> List.insert i room),
                h_fetching := h_fetching h @ [i]\<rparr>
      in upd_client i (\<lambda>c. c\<lparr>cl_since := length (h_log h)\<rparr>) h)"

definition handleUnregister :: "client_id \<Rightarrow> 'a hub \<Rightarrow> 'a hub" where
  "handleUnregister i h =
     (case h_clients h i of
        None \<Rightarrow> h
      | Some c \<Rightarrow>
          (case h_rooms h (cl_contestID c) of
             None \<Rightarrow> h
           | Some room \<Rightarrow>
               if i \<notin> set room then h
               else
                 let room' = remove1 i room;
                     h = close_send i (h\<lparr>h_rooms := (h_rooms h)(cl_contestID c \<mapsto> room')\<rparr>)
                 in if room' = [] then h\<lparr>h_rooms := (h_rooms h)(cl_contestID c := None)\<rparr> else h))"

fun broadcast_loop :: "ID \<Rightarrow> 'a \<Rightarrow> client_id list \<Rightarrow> 'a hub \<Rightarrow> 'a hub" where
  "broadcast_loop cid payload [] h = h"
| "broadcast_loop cid payload (i # room) h =
     (case h_clients h i of
        None \<Rightarrow> broadcast_loop cid payload room h
      | Some c \<Rightarrow>
          if cl_closed c then broadcast_loop cid payload room (h\<lparr>h_send_on_closed := True\<rparr>)
          else if length (cl_send c) < sendBufSize then
            broadcast_loop cid payload room
              (h\<lparr>h_clients := (h_clients h)(i \<mapsto> c\<lparr>cl_send := cl_send c @ [EventFrame payload]\<rparr>)\<rparr>)
          else
            broadcast_loop cid payload room
              (close_send i (h\<lparr>h_rooms := (h_rooms h)(cid := map_option (remove1 i) (h_rooms h cid))\<rparr>)))"

definition handleBroadcast :: "ID \<Rightarrow> 'a \<Rightarrow> 'a hub \<Rightarrow> 'a hub" where
  "handleBroadcast cid payload h =
     (let h = h\<lparr>h_log := h_log h @ [(cid, payload)]\<rparr>
      in case h_rooms h cid of
           None \<Rightarrow> h
         | Some room \<Rightarrow> if room = [] then h else broadcast_loop cid payload room h)"

definition shutdownAllClients :: "ID list \<Rightarrow> 'a hub \<Rightarrow> 'a hub" where
  "shutdownAllClients contests h =
     (foldl (\<lambda>h cid. case h_rooms h cid of None \<Rightarrow> h
                      | Some room \<Rightarrow> foldl (\<lambda>h i. close_send i h) h room) h contests)
     \<lparr>h_rooms := Map.empty, h_running := False\<rparr>"

section \<open>Pub/Sub, connections and pumps\<close>

text \<open>
  \<open>dispatchPubSubMsg\<close> reads the contest from the channel name; a name that does not parse is
  dropped, as is a message that finds the broadcast channel full.
\<close>

definition parse_channel :: "string \<Rightarrow> ID option" where
  "parse_channel ch =
     (let pre = ''oj:ranking:'' in
      if take (length pre) ch \<noteq> pre then None
      else let rest = dropWhile (\<lambda>c. c = CHR '' '' \<or> c = CHR 0x09) (drop (length pre) ch);
               num = takeWhile (\<lambda>c. c \<noteq> CHR '':'') rest
           in if take 7 (drop (length num) rest) = '':events'' then parse_int num else None)"

definition dispatchPubSubMsg :: "string \<Rightarrow> 'a \<Rightarrow> 'a hub \<Rightarrow> 'a hub" where
  "dispatchPubSubMsg channel payload h =
     (case parse_channel channel of
        None \<Rightarrow> h
      | Some cid \<Rightarrow>
          if length (h_broadcast h) < broadcastCap
          then h\<lparr>h_broadcast := h_broadcast h @ [(cid, payload)]\<rparr> else h)"

definition ServeWS :: "ID \<Rightarrow> 'a hub \<Rightarrow> 'a hub" where
  "ServeWS cid h =
     h\<lparr>h_clients := (h_clients h)(h_next h \<mapsto> \<lparr>cl_contestID = cid, cl_send = [], cl_closed = False,
          cl_written = [], cl_pumps = False, cl_since = 0\<rparr>),
       h_register := h_register h @ [h_next h], h_next := h_next h + 1\<rparr>"

definition snapshot_delivered :: "client_id \<Rightarrow> 'a option \<Rightarrow> 'a hub \<Rightarrow> 'a hub" where
  "snapshot_delivered i snap h =
     (let h = h\<lparr>h_fetching := remove1 i (h_fetching h)\<rparr>
      in case h_clients h i of
           None \<Rightarrow> h
         | Some c \<Rightarrow>
             (case snap of
                None \<Rightarrow> upd_client i (\<lambda>c. c\<lparr>cl_pumps := True\<rparr>) h
              | Some s \<Rightarrow>
                  if cl_closed c then h\<lparr>h_send_on_closed := True\<rparr>
                  else upd_client i (\<lambda>c. c\<lparr>cl_send := cl_send c @ [SnapshotFrame s], cl_pumps := True\<rparr>) h))"

text \<open>
  \<open>writePump\<close> takes one message and then every further message that is already queued, and writes
  them as one WebSocket message.
\<close>

definition writePump_message :: "nat \<Rightarrow> 'a client \<Rightarrow> 'a client" where
  "writePump_message n c =
     c\<lparr>cl_send := drop n (cl_send c), cl_written := cl_written c @ [take n (cl_send c)]\<rparr>"

section \<open>Interleavings\<close>

inductive hub_step :: "'a hub \<Rightarrow> 'a hub \<Rightarrow> bool" where
  connect: "length (h_register h) < registerCap \<Longrightarrow> hub_step h (ServeWS cid h)"
| register: "h_running h \<Longrightarrow> h_register h = i # rest \<Longrightarrow> h_clients h i = Some c \<Longrightarrow>
    hub_step h (handleRegister i (cl_contestID c) (h\<lparr>h_register := rest\<rparr>))"
| unregister: "h_running h \<Longrightarrow> h_unregister h = i # rest \<Longrightarrow>
    hub_step h (handleUnregister i (h\<lparr>h_unregister := rest\<rparr>))"
| broadcast: "h_running h \<Longrightarrow> h_broadcast h = (cid, p) # rest \<Longrightarrow>
    hub_step h (handleBroadcast cid p (h\<lparr>h_broadcast := rest\<rparr>))"
| pubsub: "hub_step h (dispatchPubSubMsg channel p h)"
| snapshot: "i \<in> set (h_fetching h) \<Longrightarrow> h_clients h i = Some c \<Longrightarrow>
    cl_closed c \<or> snap = None \<or> length (cl_send c) < sendBufSize \<Longrightarrow>
    hub_step h (snapshot_delivered i snap h)"
| flush: "h_clients h i = Some c \<Longrightarrow> cl_pumps c \<Longrightarrow> 0 < n \<Longrightarrow> n \<le> length (cl_send c) \<Longrightarrow>
    hub_step h (upd_client i (writePump_message n) h)"
| hangup: "h_clients h i = Some c \<Longrightarrow> cl_pumps c \<Longrightarrow> length (h_unregister h) < unregisterCap \<Longrightarrow>
    hub_step h (h\<lparr>h_unregister := h_unregister h @ [i]\<rparr>)"
| shutdown: "h_running h \<Longrightarrow> set contests = dom (h_rooms h) \<Longrightarrow> distinct contests \<Longrightarrow>
    hub_step h (shutdownAllClients contests h)"

inductive hub_reachable :: "'a hub \<Rightarrow> bool" where
  start: "hub_reachable NewHub"
| step: "hub_reachable h \<Longrightarrow> hub_step h h' \<Longrightarrow> hub_reachable h'"

section \<open>One broadcast\<close>

definition full :: "'a client \<Rightarrow> bool" where
  "full c \<longleftrightarrow> sendBufSize \<le> length (cl_send c)"

definition deliver :: "'a \<Rightarrow> 'a client \<Rightarrow> 'a client" where
  "deliver p c = (if full c then c\<lparr>cl_closed := True\<rparr> else c\<lparr>cl_send := cl_send c @ [EventFrame p]\<rparr>)"

definition open_client :: "'a hub \<Rightarrow> ID \<Rightarrow> client_id \<Rightarrow> bool" where
  "open_client h cid i = (case h_clients h i of None \<Rightarrow> False
     | Some c \<Rightarrow> cl_contestID c = cid \<and> \<not> cl_closed c)"

definition full_client :: "'a hub \<Rightarrow> client_id \<Rightarrow> bool" where
  "full_client h i = (case h_clients h i of None \<Rightarrow> False | Some c \<Rightarrow> full c)"

definition room_ok :: "'a hub \<Rightarrow> ID \<Rightarrow> client_id list \<Rightarrow> bool" where
  "room_ok h cid room \<longleftrightarrow> distinct room \<and> (\<forall>i \<in> set room. open_client h cid i)"

lemma open_clientE:
  assumes "open_client h cid i"
  obtains c where "h_clients h i = Some c" and "cl_contestID c = cid" and "\<not> cl_closed c"
  using assms by (auto simp: open_client_def split: option.splits)

lemma open_client_unique: "open_client h c i \<Longrightarrow> open_client h c' i \<Longrightarrow> c = c'"
  by (auto elim!: open_clientE)

lemma broadcast_loop_eq:
  assumes "room_ok h cid is" and "h_rooms h cid = Some room" and "distinct room"
  shows "broadcast_loop cid p is h =
    h\<lparr>h_clients := (\<lambda>i. if i \<in> set is then map_option (deliver p) (h_clients h i) else h_clients h i),
      h_rooms := (h_rooms h)(cid \<mapsto> filter (\<lambda>i. \<not> (i \<in> set is \<and> full_client h i)) room)\<rparr>"
  using assms
proof (induction "is" arbitrary: h room)
  case Nil
  then show ?case by (simp add: fun_upd_idem)
next
  case (Cons i "is")
  obtain c where c: "h_clients h i = Some c" "\<not> cl_closed c"
    using Cons.prems(1) by (auto simp: room_ok_def elim: open_clientE)
  have i: "i \<notin> set is" using Cons.prems(1) by (simp add: room_ok_def)
  show ?case
  proof (cases "full c")
    case False
    let ?h = "h\<lparr>h_clients := (h_clients h)(i \<mapsto> c\<lparr>cl_send := cl_send c @ [EventFrame p]\<rparr>)\<rparr>"
    have ok: "room_ok ?h cid is" using Cons.prems(1) i by (auto simp: room_ok_def open_client_def)
    have fc: "full_client ?h j = full_client h j" if "j \<in> set is" for j
      using that i by (auto simp: full_client_def)
    have nf: "\<not> full_client h i" using False c by (simp add: full_client_def)
    have "broadcast_loop cid p (i # is) h = broadcast_loop cid p is ?h"
      using False c by (simp add: full_def)
    also have "\<dots> = ?h\<lparr>h_clients := (\<lambda>j. if j \<in> set is then map_option (deliver p) (h_clients ?h j) else h_clients ?h j),
      h_rooms := (h_rooms ?h)(cid \<mapsto> filter (\<lambda>j. \<not> (j \<in> set is \<and> full_client ?h j)) room)\<rparr>"
      by (rule Cons.IH [OF ok]) (use Cons.prems in simp_all)
    also have "filter (\<lambda>j. \<not> (j \<in> set is \<and> full_client ?h j)) room =
        filter (\<lambda>j. \<not> (j \<in> set (i # is) \<and> full_client h j)) room"
      using fc nf by (intro filter_cong) auto
    finally show ?thesis
      using False c i by (auto simp: deliver_def fun_eq_iff)
  next
    case True
    let ?h = "h\<lparr>h_rooms := (h_rooms h)(cid \<mapsto> remove1 i room),
                h_clients := (h_clients h)(i \<mapsto> c\<lparr>cl_closed := True\<rparr>)\<rparr>"
    have ok: "room_ok ?h cid is" using Cons.prems(1) i by (auto simp: room_ok_def open_client_def)
    have fc: "full_client ?h j = full_client h j" if "j \<in> set is" for j
      using that i by (auto simp: full_client_def)
    have ff: "full_client h i" using True c by (simp add: full_client_def)
    have "broadcast_loop cid p (i # is) h = broadcast_loop cid p is ?h"
      using True c Cons.prems(2) by (simp add: full_def close_send_def)
    also have "\<dots> = ?h\<lparr>h_clients := (\<lambda>j. if j \<in> set is then map_option (deliver p) (h_clients ?h j) else h_clients ?h j),
      h_rooms := (h_rooms ?h)(cid \<mapsto> filter (\<lambda>j. \<not> (j \<in> set is \<and> full_client ?h j)) (remove1 i room))\<rparr>"
      by (rule Cons.IH [OF ok]) (use Cons.prems in simp_all)
    also have "filter (\<lambda>j. \<not> (j \<in> set is \<and> full_client ?h j)) (remove1 i room) =
        filter (\<lambda>j. \<not> (j \<in> set (i # is) \<and> full_client h j)) room"
      using fc ff Cons.prems(3) by (auto simp: distinct_remove1_removeAll removeAll_filter_not_eq intro!: filter_cong)
    finally show ?thesis
      using True c i by (auto simp: deliver_def fun_eq_iff)
  qed
qed

section \<open>Closing every room\<close>

definition close_set :: "client_id set \<Rightarrow> 'a hub \<Rightarrow> 'a hub" where
  "close_set S h = h\<lparr>h_clients := (\<lambda>i. if i \<in> S then map_option (\<lambda>c. c\<lparr>cl_closed := True\<rparr>) (h_clients h i)
     else h_clients h i)\<rparr>"

lemma close_set_sels [simp]:
  "h_rooms (close_set S h) = h_rooms h" "h_next (close_set S h) = h_next h"
  "h_register (close_set S h) = h_register h" "h_unregister (close_set S h) = h_unregister h"
  "h_broadcast (close_set S h) = h_broadcast h" "h_log (close_set S h) = h_log h"
  "h_double_close (close_set S h) = h_double_close h" "h_send_on_closed (close_set S h) = h_send_on_closed h"
  "h_clients (close_set S h) i = (if i \<in> S then map_option (\<lambda>c. c\<lparr>cl_closed := True\<rparr>) (h_clients h i)
     else h_clients h i)"
  by (simp_all add: close_set_def)

lemma close_set_empty [simp]: "close_set {} h = h"
  by (simp add: close_set_def)

lemma close_set_union: "close_set S (close_set T h) = close_set (S \<union> T) h"
  by (auto simp: close_set_def fun_eq_iff option.map_comp comp_def)

lemma close_send_open:
  assumes "open_client h cid i"
  shows "close_send i h = close_set {i} h"
  using assms by (auto simp: close_send_def close_set_def fun_eq_iff elim!: open_clientE)

lemma foldl_close_send:
  "room_ok h cid room \<Longrightarrow> foldl (\<lambda>h i. close_send i h) h room = close_set (set room) h"
proof (induction room arbitrary: h)
  case (Cons i room)
  have "close_send i h = close_set {i} h"
    using Cons.prems by (intro close_send_open [where cid = cid]) (simp add: room_ok_def)
  moreover have "room_ok (close_set {i} h) cid room"
    using Cons.prems by (auto simp: room_ok_def open_client_def)
  ultimately show ?case using Cons.IH by (simp add: close_set_union)
qed simp

definition members :: "'a hub \<Rightarrow> ID set \<Rightarrow> client_id set" where
  "members h cs = {i. \<exists>cid \<in> cs. \<exists>room. h_rooms h cid = Some room \<and> i \<in> set room}"

lemma foldl_close_rooms:
  assumes "\<forall>cid \<in> set contests. \<forall>room. h_rooms h cid = Some room \<longrightarrow> room_ok h cid room" and "distinct contests"
  shows "foldl (\<lambda>h cid. case h_rooms h cid of None \<Rightarrow> h
           | Some room \<Rightarrow> foldl (\<lambda>h i. close_send i h) h room) h contests =
         close_set (members h (set contests)) h"
  using assms
proof (induction contests arbitrary: h)
  case Nil
  then show ?case by (simp add: members_def)
next
  case (Cons cid contests)
  let ?S = "members h {cid}"
  have step: "(case h_rooms h cid of None \<Rightarrow> h
      | Some room \<Rightarrow> foldl (\<lambda>h i. close_send i h) h room) = close_set ?S h"
    using Cons.prems(1) by (auto simp: foldl_close_send members_def split: option.split)
  have "room_ok (close_set ?S h) c room" if "c \<in> set contests" "h_rooms h c = Some room" for c room
  proof -
    have ok: "room_ok h c room" using Cons.prems(1) that by simp
    have "j \<notin> ?S" if "j \<in> set room" for j
    proof
      assume "j \<in> ?S"
      then have "open_client h cid j"
        using Cons.prems(1) by (auto simp: members_def room_ok_def)
      moreover have "open_client h c j" using ok that by (simp add: room_ok_def)
      ultimately have "c = cid" using open_client_unique by blast
      with Cons.prems(2) \<open>c \<in> set contests\<close> show False by simp
    qed
    then show ?thesis using ok by (simp add: room_ok_def open_client_def)
  qed
  then have "foldl (\<lambda>h cid. case h_rooms h cid of None \<Rightarrow> h
           | Some room \<Rightarrow> foldl (\<lambda>h i. close_send i h) h room) (close_set ?S h) contests =
      close_set (members (close_set ?S h) (set contests)) (close_set ?S h)"
    using Cons.prems(2) by (intro Cons.IH) auto
  moreover have "members (close_set ?S h) (set contests) \<union> ?S = members h (set (cid # contests))"
    by (auto simp: members_def)
  ultimately show ?case by (simp only: foldl_Cons step close_set_union)
qed

section \<open>Invariant\<close>

fun event_payload :: "'a frame \<Rightarrow> 'a option" where
  "event_payload (SnapshotFrame p) = None"
| "event_payload (EventFrame p) = Some p"

definition received :: "'a client \<Rightarrow> 'a list" where
  "received c = List.map_filter event_payload (concat (cl_written c) @ cl_send c)"

definition history :: "'a hub \<Rightarrow> ID \<Rightarrow> nat \<Rightarrow> 'a list" where
  "history h cid n = map snd (filter (\<lambda>(c, _). c = cid) (drop n (h_log h)))"

definition hist_ok :: "'a hub \<Rightarrow> ID \<Rightarrow> client_id \<Rightarrow> bool" where
  "hist_ok h cid i = (case h_clients h i of None \<Rightarrow> False
     | Some c \<Rightarrow> cl_since c \<le> length (h_log h) \<and> received c = history h cid (cl_since c))"

definition fresh_client :: "'a hub \<Rightarrow> client_id \<Rightarrow> bool" where
  "fresh_client h i \<longleftrightarrow> (case h_clients h i of None \<Rightarrow> False | Some c \<Rightarrow> \<not> cl_closed c \<and> received c = []) \<and>
     i \<notin> members h UNIV"

definition rooms_ok :: "'a hub \<Rightarrow> bool" where
  "rooms_ok h \<longleftrightarrow> (\<forall>cid room. h_rooms h cid = Some room \<longrightarrow>
     room_ok h cid room \<and> (\<forall>i \<in> set room. hist_ok h cid i))"

definition hub_inv :: "'a hub \<Rightarrow> bool" where
  "hub_inv h \<longleftrightarrow>
     (\<forall>i. h_clients h i \<noteq> None \<longleftrightarrow> i < h_next h) \<and>
     rooms_ok h \<and>
     distinct (h_register h) \<and> (\<forall>i \<in> set (h_register h). fresh_client h i) \<and>
     (\<forall>i c. h_clients h i = Some c \<longrightarrow> length (cl_send c) \<le> sendBufSize) \<and>
     length (h_register h) \<le> registerCap \<and> length (h_unregister h) \<le> unregisterCap \<and>
     length (h_broadcast h) \<le> broadcastCap \<and>
     \<not> h_double_close h"

lemma hub_invD:
  assumes "hub_inv h"
  shows "h_clients h i \<noteq> None \<longleftrightarrow> i < h_next h"
    and "h_rooms h cid = Some room \<Longrightarrow> room_ok h cid room"
    and "h_rooms h cid = Some room \<Longrightarrow> j \<in> set room \<Longrightarrow> hist_ok h cid j"
    and "distinct (h_register h)" and "j \<in> set (h_register h) \<Longrightarrow> fresh_client h j"
    and "h_clients h j = Some c \<Longrightarrow> length (cl_send c) \<le> sendBufSize"
    and "length (h_register h) \<le> registerCap" and "length (h_unregister h) \<le> unregisterCap"
    and "length (h_broadcast h) \<le> broadcastCap" and "\<not> h_double_close h"
  using assms unfolding hub_inv_def rooms_ok_def by metis+

definition same_view :: "'a hub \<Rightarrow> 'a hub \<Rightarrow> bool" where
  "same_view h h' \<longleftrightarrow> h_rooms h' = h_rooms h \<and> h_log h' = h_log h \<and>
     (\<forall>i. rel_option (\<lambda>c c'. cl_contestID c = cl_contestID c' \<and> cl_closed c = cl_closed c' \<and>
        cl_since c = cl_since c' \<and> received c = received c') (h_clients h i) (h_clients h' i))"

lemma same_viewD:
  assumes "same_view h h'"
  shows "open_client h' cid i = open_client h cid i" and "hist_ok h' cid i = hist_ok h cid i"
    and "fresh_client h' i = fresh_client h i" and "rooms_ok h' = rooms_ok h"
    and "h_clients h' i = None \<longleftrightarrow> h_clients h i = None"
proof -
  have rel: "rel_option (\<lambda>c c'. cl_contestID c = cl_contestID c' \<and> cl_closed c = cl_closed c' \<and>
      cl_since c = cl_since c' \<and> received c = received c') (h_clients h i) (h_clients h' i)" for i
    using assms by (simp add: same_view_def)
  have eq: "h_rooms h' = h_rooms h" "h_log h' = h_log h"
    using assms by (simp_all add: same_view_def)
  have op: "open_client h' cid i = open_client h cid i" for cid i
    using rel [of i] by (cases rule: option.rel_cases) (auto simp: open_client_def)
  have hist: "hist_ok h' cid i = hist_ok h cid i" for cid i
    using rel [of i] by (cases rule: option.rel_cases) (auto simp: hist_ok_def history_def eq)
  show "open_client h' cid i = open_client h cid i" "hist_ok h' cid i = hist_ok h cid i"
    by (simp_all add: op hist)
  show "fresh_client h' i = fresh_client h i"
    using rel [of i] by (cases rule: option.rel_cases) (auto simp: fresh_client_def members_def eq)
  show "rooms_ok h' = rooms_ok h" by (simp add: rooms_ok_def room_ok_def op hist eq)
  show "h_clients h' i = None \<longleftrightarrow> h_clients h i = None"
    using rel [of i] by (cases rule: option.rel_cases) auto
qed

lemma same_view_inv:
  assumes "hub_inv h" and "same_view h h'" and "h_next h' = h_next h"
    and "h_register h' = h_register h" and "length (h_unregister h') \<le> unregisterCap"
    and "length (h_broadcast h') \<le> broadcastCap" and "h_double_close h' = h_double_close h"
    and "\<And>i c. h_clients h' i = Some c \<Longrightarrow> length (cl_send c) \<le> sendBufSize"
  shows "hub_inv h'"
  using assms(1,3-8) same_viewD [OF assms(2)] by (simp add: hub_inv_def)

lemma same_view_upd_client:
  assumes "\<And>c. h_clients h i = Some c \<Longrightarrow> cl_contestID (f c) = cl_contestID c \<and>
    cl_closed (f c) = cl_closed c \<and> cl_since (f c) = cl_since c \<and> received (f c) = received c"
  shows "same_view h (upd_client i f h)"
  using assms by (auto simp: same_view_def upd_client_def option.rel_refl split: option.split)

lemma upd_client_sels [simp]:
  "h_rooms (upd_client i f h) = h_rooms h" "h_next (upd_client i f h) = h_next h"
  "h_register (upd_client i f h) = h_register h" "h_unregister (upd_client i f h) = h_unregister h"
  "h_broadcast (upd_client i f h) = h_broadcast h" "h_log (upd_client i f h) = h_log h"
  "h_double_close (upd_client i f h) = h_double_close h"
  "h_clients (upd_client i f h) j = (if j = i then map_option f (h_clients h i) else h_clients h j)"
  by (auto simp: upd_client_def split: option.split)

lemma map_filter_append: "List.map_filter f (xs @ ys) = List.map_filter f xs @ List.map_filter f ys"
  by (simp add: List.map_filter_def)

lemma received_pump: "received (writePump_message n c) = received c"
proof -
  have "concat (cl_written (writePump_message n c)) @ cl_send (writePump_message n c) =
      concat (cl_written c) @ cl_send c"
    by (simp add: writePump_message_def)
  then show ?thesis by (simp only: received_def)
qed

lemma received_snapshot [simp]:
  "received (c\<lparr>cl_send := cl_send c @ [SnapshotFrame s]\<rparr>) = received c"
  by (simp add: received_def map_filter_append List.map_filter_simps)

lemma received_event:
  "received (c\<lparr>cl_send := cl_send c @ [EventFrame p]\<rparr>) = received c @ [p]"
  by (simp add: received_def map_filter_append List.map_filter_simps)

lemma received_flags [simp]:
  "received (c\<lparr>cl_closed := b\<rparr>) = received c" "received (c\<lparr>cl_pumps := b\<rparr>) = received c"
  "received (c\<lparr>cl_since := n\<rparr>) = received c"
  by (simp_all add: received_def)

lemma inv_flush:
  assumes "hub_inv h"
  shows "hub_inv (upd_client i (writePump_message n) h)"
proof (rule same_view_inv [OF assms same_view_upd_client])
  fix j c assume "h_clients (upd_client i (writePump_message n) h) j = Some c"
  then show "length (cl_send c) \<le> sendBufSize"
    using hub_invD(6) [OF assms] by (fastforce simp: writePump_message_def split: if_splits)
qed (use hub_invD(8,9) [OF assms] received_pump in \<open>auto simp: writePump_message_def\<close>)

lemma inv_snapshot:
  assumes "hub_inv h" and "h_clients h i = Some c"
    and "cl_closed c \<or> snap = None \<or> length (cl_send c) < sendBufSize"
  shows "hub_inv (snapshot_delivered i snap h)"
proof -
  let ?h = "h\<lparr>h_fetching := remove1 i (h_fetching h)\<rparr>"
  have base: "hub_inv ?h" "hub_inv (?h\<lparr>h_send_on_closed := True\<rparr>)"
    using assms(1) by (auto intro!: same_view_inv [OF assms(1)] hub_invD(6,8,9) [OF assms(1)]
        simp: same_view_def option.rel_refl)
  have upd: "hub_inv (upd_client i f ?h)"
    if "\<And>c. cl_contestID (f c) = cl_contestID c \<and> cl_closed (f c) = cl_closed c \<and>
        cl_since (f c) = cl_since c \<and> received (f c) = received c"
      and "length (cl_send (f c)) \<le> sendBufSize" for f
  proof (rule same_view_inv [OF base(1) same_view_upd_client])
    fix j c' assume "h_clients (upd_client i f ?h) j = Some c'"
    then show "length (cl_send c') \<le> sendBufSize"
      using hub_invD(6) [OF assms(1)] that(2) assms(2) by (auto split: if_splits)
  qed (use that hub_invD(8,9) [OF assms(1)] in auto)
  show ?thesis
    using assms(2,3) base(2) upd [of "\<lambda>c. c\<lparr>cl_pumps := True\<rparr>"]
      upd [of "\<lambda>c. c\<lparr>cl_send := cl_send c @ [SnapshotFrame (the snap)], cl_pumps := True\<rparr>"]
      hub_invD(6) [OF assms(1,2)]
    by (auto simp: snapshot_delivered_def Let_def split: option.split)
qed

lemma inv_connect:
  assumes "hub_inv h" and "length (h_register h) < registerCap"
  shows "hub_inv (ServeWS cid h)"
proof -
  let ?n = "h_next h" and ?h = "ServeWS cid h"
  have new: "h_clients h ?n = None" using hub_invD(1) [OF assms(1), of ?n] by auto
  have exists: "i \<noteq> ?n" if "h_clients h i \<noteq> None" for i using that new by auto
  have op: "open_client ?h c i = open_client h c i" "hist_ok ?h c i = hist_ok h c i" if "i \<noteq> ?n" for c i
    using that by (simp_all add: ServeWS_def open_client_def hist_ok_def history_def split: option.split)
  have reg: "i \<noteq> ?n" if "i \<in> set (h_register h)" for i
    using hub_invD(5) [OF assms(1) that] exists by (auto simp: fresh_client_def split: option.splits)
  have room: "i \<noteq> ?n" if "h_rooms h c = Some room" "i \<in> set room" for c room i
    using hub_invD(2) [OF assms(1) that(1)] that(2) exists [of i]
    by (auto simp: room_ok_def elim!: open_clientE dest!: bspec [where x = i])
  have "rooms_ok ?h"
    unfolding rooms_ok_def room_ok_def
  proof (intro allI impI)
    fix c rm assume "h_rooms ?h c = Some rm"
    then have r: "h_rooms h c = Some rm" by (simp add: ServeWS_def)
    show "(distinct rm \<and> (\<forall>i \<in> set rm. open_client ?h c i)) \<and> (\<forall>i \<in> set rm. hist_ok ?h c i)"
      using hub_invD(2) [OF assms(1) r] hub_invD(3) [OF assms(1) r] room [OF r] op
      by (auto simp: room_ok_def)
  qed
  moreover have "fresh_client ?h i" if "i \<in> set (h_register ?h)" for i
  proof (cases "i = ?n")
    case True
    then show ?thesis using room
      by (auto simp: fresh_client_def ServeWS_def members_def received_def List.map_filter_simps)
  next
    case False
    then have "fresh_client h i" using that hub_invD(5) [OF assms(1)] by (simp add: ServeWS_def)
    then show ?thesis using False by (simp add: fresh_client_def ServeWS_def members_def)
  qed
  ultimately show ?thesis
    using assms reg hub_invD(1,6) [OF assms(1)]
    by (auto simp: hub_inv_def ServeWS_def less_Suc_eq)
qed

lemma inv_register:
  assumes "hub_inv h" and "h_register h = i # rest" and "h_clients h i = Some c"
  shows "hub_inv (handleRegister i (cl_contestID c) (h\<lparr>h_register := rest\<rparr>))" (is "hub_inv ?h")
proof -
  let ?cid = "cl_contestID c"
  have fr: "\<not> cl_closed c" "received c = []" "i \<notin> members h UNIV"
    using hub_invD(5) [OF assms(1), of i] assms(2,3) by (simp_all add: fresh_client_def)
  have i: "i \<notin> set rest" using hub_invD(4) [OF assms(1)] assms(2) by simp
  have clients: "h_clients ?h j =
      (if j = i then Some (c\<lparr>cl_since := length (h_log h)\<rparr>) else h_clients h j)" for j
    using assms(3) by (simp add: handleRegister_def Let_def)
  have rooms: "h_rooms ?h = (h_rooms h)(?cid \<mapsto>
      List.insert i (case h_rooms h ?cid of None \<Rightarrow> [] | Some room \<Rightarrow> room))"
    by (simp add: handleRegister_def Let_def)
  have log: "h_log ?h = h_log h" and regs: "h_register ?h = rest"
    by (simp_all add: handleRegister_def Let_def)
  have old: "open_client ?h d j = open_client h d j" "hist_ok ?h d j = hist_ok h d j" if "j \<noteq> i" for d j
    using that by (simp_all add: open_client_def hist_ok_def clients history_def log split: option.split)
  have new: "open_client ?h ?cid i" "hist_ok ?h ?cid i"
    using fr by (simp_all add: open_client_def hist_ok_def clients history_def log)
  have mem: "j \<noteq> i" if "h_rooms h d = Some room" "j \<in> set room" for d room j
    using that fr(3) by (auto simp: members_def)
  have "rooms_ok ?h"
    unfolding rooms_ok_def
  proof (intro allI impI)
    fix d rm assume "h_rooms ?h d = Some rm"
    then consider "d \<noteq> ?cid" "h_rooms h d = Some rm"
      | "d = ?cid" "h_rooms h ?cid = None" "rm = [i]"
      | room where "d = ?cid" "h_rooms h ?cid = Some room" "rm = List.insert i room"
      by (auto simp: rooms split: if_splits option.splits)
    then show "room_ok ?h d rm \<and> (\<forall>j \<in> set rm. hist_ok ?h d j)"
    proof cases
      case 1
      then show ?thesis
        using hub_invD(2,3) [OF assms(1) 1(2)] mem [OF 1(2)] old by (auto simp: room_ok_def)
    next
      case 2
      then show ?thesis using new by (simp add: room_ok_def)
    next
      case (3 room)
      then show ?thesis
        using hub_invD(2,3) [OF assms(1) 3(2)] mem [OF 3(2)] old new by (auto simp: room_ok_def)
    qed
  qed
  moreover have "fresh_client ?h j" if "j \<in> set rest" for j
  proof -
    have "fresh_client h j" "j \<noteq> i" using hub_invD(5) [OF assms(1)] assms(2) that i by auto
    moreover have "members ?h UNIV \<subseteq> insert i (members h UNIV)"
      by (fastforce simp: members_def rooms split: if_splits option.splits)
    ultimately show ?thesis by (auto simp: fresh_client_def clients)
  qed
  moreover have "h_clients ?h j \<noteq> None \<longleftrightarrow> j < h_next h" for j
    using hub_invD(1) [OF assms(1)] assms(3) by (auto simp: clients)
  moreover have "length (cl_send c') \<le> sendBufSize" if "h_clients ?h j = Some c'" for j c'
    using that hub_invD(6) [OF assms(1)] assms(3) by (auto simp: clients split: if_splits)
  ultimately show ?thesis
    using hub_invD(4,7-10) [OF assms(1)] assms(2)
    by (simp add: hub_inv_def regs) (simp add: handleRegister_def Let_def)
qed

lemma hist_ok_close_set [simp]: "hist_ok (close_set S h) cid i = hist_ok h cid i"
  by (simp add: hist_ok_def history_def split: option.split)

lemma inv_close_leave:
  assumes "hub_inv h" and "h_clients h' = h_clients (close_set S h)" and "S \<subseteq> members h UNIV"
    and "\<And>cid room'. h_rooms h' cid = Some room' \<Longrightarrow>
      \<exists>room. h_rooms h cid = Some room \<and> set room' \<subseteq> set room - S \<and> distinct room'"
    and "h_next h' = h_next h" "h_register h' = h_register h" "h_log h' = h_log h"
    and "length (h_unregister h') \<le> unregisterCap" "h_broadcast h' = h_broadcast h"
    and "h_double_close h' = h_double_close h"
  shows "hub_inv h'"
proof -
  have clients: "h_clients h' i = h_clients (close_set S h) i" for i by (simp add: assms(2))
  have "rooms_ok h'"
    unfolding rooms_ok_def
  proof (intro allI impI)
    fix cid room' assume "h_rooms h' cid = Some room'"
    then obtain room where r: "h_rooms h cid = Some room" "set room' \<subseteq> set room - S" "distinct room'"
      using assms(4) by blast
    have "open_client h' cid j" "hist_ok h' cid j" if "j \<in> set room'" for j
    proof -
      have j: "j \<in> set room" "j \<notin> S" using that r(2) by auto
      then show "open_client h' cid j"
        using hub_invD(2) [OF assms(1) r(1)] by (simp add: room_ok_def open_client_def clients)
      show "hist_ok h' cid j"
        using hub_invD(3) [OF assms(1) r(1) j(1)] j(2)
        by (simp add: hist_ok_def clients history_def assms(7) split: option.splits)
    qed
    then show "room_ok h' cid room' \<and> (\<forall>i \<in> set room'. hist_ok h' cid i)"
      using r(3) by (simp add: room_ok_def)
  qed
  moreover have "fresh_client h' j" if "j \<in> set (h_register h)" for j
  proof -
    have fr: "fresh_client h j" by (rule hub_invD(5) [OF assms(1) that])
    then have "j \<notin> S" using assms(3) by (auto simp: fresh_client_def)
    moreover have "members h' UNIV \<subseteq> members h UNIV"
      using assms(4) by (fastforce simp: members_def)
    ultimately show ?thesis using fr by (auto simp: fresh_client_def clients)
  qed
  moreover have "h_clients h' j \<noteq> None \<longleftrightarrow> j < h_next h" for j
    using hub_invD(1) [OF assms(1), of j] by (auto simp: clients)
  moreover have "length (cl_send c') \<le> sendBufSize" if "h_clients h' j = Some c'" for j c'
    using that hub_invD(6) [OF assms(1), of j] by (auto simp: clients split: if_splits)
  ultimately show ?thesis
    using hub_invD(4,7,9,10) [OF assms(1)] assms(5-10) by (simp add: hub_inv_def)
qed

lemma inv_unregister:
  assumes "hub_inv h" and "h_unregister h = i # rest"
  shows "hub_inv (handleUnregister i (h\<lparr>h_unregister := rest\<rparr>))"
proof -
  let ?h = "h\<lparr>h_unregister := rest\<rparr>"
  have base: "hub_inv ?h"
    using assms(2) hub_invD(6,8,9) [OF assms(1)]
    by (intro same_view_inv [OF assms(1)]) (auto simp: same_view_def option.rel_refl)
  consider "handleUnregister i ?h = ?h"
    | c room where "h_clients h i = Some c" "h_rooms h (cl_contestID c) = Some room" "i \<in> set room"
  proof (cases "\<exists>c room. h_clients h i = Some c \<and> h_rooms h (cl_contestID c) = Some room \<and> i \<in> set room")
    case True
    then show ?thesis using that by blast
  next
    case False
    then have "handleUnregister i ?h = ?h"
      by (auto simp: handleUnregister_def split: option.split)
    then show ?thesis using that by blast
  qed
  then show ?thesis
  proof cases
    case 1
    then show ?thesis using base by simp
  next
    case (2 c room)
    have room: "room_ok h (cl_contestID c) room" by (rule hub_invD(2) [OF assms(1) 2(2)])
    then have "open_client (?h\<lparr>h_rooms := r\<rparr>) (cl_contestID c) i" for r
      using 2(3) by (simp add: room_ok_def open_client_def)
    note close = close_send_open [OF this]
    have "set (remove1 i room) \<subseteq> set room - {i}" "distinct (remove1 i room)"
      using room by (auto simp: room_ok_def)
    moreover have "i \<notin> set room' \<and> distinct room'"
      if "h_rooms h d = Some room'" "d \<noteq> cl_contestID c" for d room'
      using hub_invD(2) [OF assms(1) that(1)] that(2) room 2(3) open_client_unique
      unfolding room_ok_def by metis
    ultimately show ?thesis
      using 2
      by (intro inv_close_leave [OF base, where S = "{i}"])
         (auto simp: handleUnregister_def close Let_def members_def hub_invD(8) [OF base, simplified]
            split: if_splits)
  qed
qed

lemma inv_shutdown:
  assumes "hub_inv h" and "set contests = dom (h_rooms h)" and "distinct contests"
  shows "hub_inv (shutdownAllClients contests h)"
proof -
  have eq: "shutdownAllClients contests h =
      (close_set (members h (set contests)) h)\<lparr>h_rooms := Map.empty, h_running := False\<rparr>"
    unfolding shutdownAllClients_def
    by (subst foldl_close_rooms) (use assms(3) hub_invD(2) [OF assms(1)] in auto)
  show ?thesis
    unfolding eq
    by (rule inv_close_leave [OF assms(1), where S = "members h (set contests)"])
       (auto simp: members_def hub_invD(8) [OF assms(1)])
qed

lemma handleBroadcast_eq:
  assumes "hub_inv h" and "h_rooms h cid = Some room"
  shows "handleBroadcast cid p h = h\<lparr>h_log := h_log h @ [(cid, p)],
      h_clients := (\<lambda>i. if i \<in> set room then map_option (deliver p) (h_clients h i) else h_clients h i),
      h_rooms := (h_rooms h)(cid \<mapsto> filter (\<lambda>i. \<not> full_client h i) room)\<rparr>"
proof -
  let ?h = "h\<lparr>h_log := h_log h @ [(cid, p)]\<rparr>"
  have ok: "room_ok h cid room" by (rule hub_invD(2) [OF assms])
  then have "room_ok ?h cid room" "distinct room" by (simp_all add: room_ok_def open_client_def)
  then have loop: "broadcast_loop cid p room ?h =
    ?h\<lparr>h_clients := (\<lambda>i. if i \<in> set room then map_option (deliver p) (h_clients ?h i) else h_clients ?h i),
      h_rooms := (h_rooms ?h)(cid \<mapsto> filter (\<lambda>i. \<not> (i \<in> set room \<and> full_client ?h i)) room)\<rparr>"
    using assms(2) by (intro broadcast_loop_eq) simp_all
  have flt: "filter (\<lambda>i. \<not> (i \<in> set room \<and> full_client ?h i)) room = filter (\<lambda>i. \<not> full_client h i) room"
    by (intro filter_cong) (simp_all add: full_client_def)
  show ?thesis
  proof (cases "room = []")
    case True
    then show ?thesis using assms(2) by (simp add: handleBroadcast_def fun_upd_idem)
  next
    case False
    then show ?thesis
      using assms(2) loop unfolding flt by (simp add: handleBroadcast_def Let_def cong: if_cong)
  qed
qed

lemma history_snoc:
  assumes "n \<le> length (h_log h)" and "h_log h' = h_log h @ [(cid, p)]"
  shows "history h' c n = (if c = cid then history h c n @ [p] else history h c n)"
  using assms by (auto simp: history_def)

lemma inv_broadcast:
  assumes "hub_inv h"
  shows "hub_inv (handleBroadcast cid p h)" (is "hub_inv ?h")
proof -
  have log: "h_log ?h = h_log h @ [(cid, p)]" and misc: "h_next ?h = h_next h"
    "h_register ?h = h_register h" "h_unregister ?h = h_unregister h" "h_broadcast ?h = h_broadcast h"
    "h_double_close ?h = h_double_close h"
    using handleBroadcast_eq [OF assms, of cid _ p]
    by (cases "h_rooms h cid"; simp add: handleBroadcast_def)+
  define room where "room = (case h_rooms h cid of None \<Rightarrow> [] | Some r \<Rightarrow> r)"
  have clients: "h_clients ?h i = (if i \<in> set room then map_option (deliver p) (h_clients h i) else h_clients h i)" for i
    using handleBroadcast_eq [OF assms, of cid _ p]
    by (cases "h_rooms h cid") (simp_all add: room_def handleBroadcast_def)
  have rooms: "h_rooms ?h c = (if c = cid then map_option (filter (\<lambda>i. \<not> full_client h i)) (h_rooms h c) else h_rooms h c)" for c
    using handleBroadcast_eq [OF assms, of cid _ p]
    by (cases "h_rooms h cid") (simp_all add: handleBroadcast_def)
  have in_room: "open_client h cid i" if "i \<in> set room" for i
    using that hub_invD(2) [OF assms, of cid] by (cases "h_rooms h cid") (simp_all add: room_def room_ok_def)
  have sub: "members ?h UNIV \<subseteq> members h UNIV"
    by (fastforce simp: members_def rooms split: if_splits)
  have "rooms_ok ?h"
    unfolding rooms_ok_def
  proof (intro allI impI)
    fix c rm assume rm: "h_rooms ?h c = Some rm"
    then obtain r where r: "h_rooms h c = Some r"
      and sel: "rm = (if c = cid then filter (\<lambda>i. \<not> full_client h i) r else r)"
      by (auto simp: rooms split: if_splits)
    have "open_client ?h c j \<and> hist_ok ?h c j" if j: "j \<in> set rm" for j
    proof -
      have jr: "j \<in> set r" using j sel by (auto split: if_splits)
      have "open_client h c j" using hub_invD(2) [OF assms r] jr by (simp add: room_ok_def)
      then obtain cl where cl: "h_clients h j = Some cl" "cl_contestID cl = c" "\<not> cl_closed cl"
        by (rule open_clientE)
      have hist: "cl_since cl \<le> length (h_log h)" "received cl = history h c (cl_since cl)"
        using hub_invD(3) [OF assms r jr] cl(1) by (simp_all add: hist_ok_def)
      show ?thesis
      proof (cases "c = cid")
        case True
        then have "j \<in> set room" "\<not> full cl"
          using jr r j sel cl(1) by (auto simp: room_def full_client_def)
        then show ?thesis
          using cl hist True
          by (simp add: open_client_def hist_ok_def clients deliver_def received_event
              history_snoc [OF _ log] log)
      next
        case False
        then have "j \<notin> set room"
          using in_room \<open>open_client h c j\<close> open_client_unique by blast
        then show ?thesis
          using cl hist False
          by (simp add: open_client_def hist_ok_def clients history_snoc [OF _ log] log)
      qed
    qed
    then show "room_ok ?h c rm \<and> (\<forall>i \<in> set rm. hist_ok ?h c i)"
      using hub_invD(2) [OF assms r] sel by (auto simp: room_ok_def)
  qed
  moreover have "fresh_client ?h j" if "j \<in> set (h_register h)" for j
  proof -
    have fr: "fresh_client h j" by (rule hub_invD(5) [OF assms that])
    then have "j \<notin> set room"
      by (auto simp: fresh_client_def members_def room_def split: option.splits)
    then show ?thesis using fr sub by (auto simp: fresh_client_def clients)
  qed
  moreover have "h_clients ?h j \<noteq> None \<longleftrightarrow> j < h_next h" for j
    using hub_invD(1) [OF assms, of j] by (auto simp: clients)
  moreover have "length (cl_send c') \<le> sendBufSize" if c': "h_clients ?h j = Some c'" for j c'
  proof -
    obtain c where c: "h_clients h j = Some c" "c' = c \<or> c' = deliver p c"
      using c' by (auto simp: clients split: if_splits)
    with hub_invD(6) [OF assms c(1)] show ?thesis by (auto simp: deliver_def full_def)
  qed
  ultimately show ?thesis
    using hub_invD(4,7-10) [OF assms] misc by (simp add: hub_inv_def)
qed

lemma hub_inv_start: "hub_inv NewHub"
  by (simp add: hub_inv_def NewHub_def rooms_ok_def registerCap_def unregisterCap_def broadcastCap_def)

lemma hub_inv_step: "hub_step h h' \<Longrightarrow> hub_inv h \<Longrightarrow> hub_inv h'"
proof (induction rule: hub_step.induct)
  case (broadcast h cid p rest)
  then have "hub_inv (h\<lparr>h_broadcast := rest\<rparr>)"
    by (intro same_view_inv [OF broadcast.prems])
       (auto simp: same_view_def option.rel_refl hub_invD(6,8) dest: hub_invD(9))
  then show ?case by (rule inv_broadcast)
next
  case (pubsub h channel p)
  then show ?case
    using hub_invD(6,8,9) [OF pubsub.prems]
    by (intro same_view_inv [OF pubsub.prems])
       (auto simp: same_view_def option.rel_refl dispatchPubSubMsg_def split: option.splits if_splits)
next
  case (hangup h i c)
  then show ?case
    using hub_invD(6,9) [OF hangup.prems]
    by (intro same_view_inv [OF hangup.prems]) (auto simp: same_view_def option.rel_refl)
qed (simp_all add: inv_connect inv_register inv_unregister inv_snapshot inv_flush inv_shutdown)

lemma hub_reachable_inv: "hub_reachable h \<Longrightarrow> hub_inv h"
  by (induction rule: hub_reachable.induct) (simp_all add: hub_inv_start hub_inv_step)

lemma panic_only_snapshot:
  assumes "hub_step h h'" and "hub_inv h" and "\<not> h_send_on_closed h" and "h_send_on_closed h'"
  shows "\<exists>i s. i \<in> set (h_fetching h) \<and> h' = snapshot_delivered i (Some s) h"
  using assms
proof (cases rule: hub_step.cases)
  case (broadcast cid p rest)
  let ?h = "h\<lparr>h_broadcast := rest\<rparr>"
  have "hub_inv ?h" using broadcast(3) hub_invD(6,8,9) [OF assms(2)]
    by (intro same_view_inv [OF assms(2)]) (auto simp: same_view_def option.rel_refl)
  then have "h_send_on_closed (handleBroadcast cid p ?h) = h_send_on_closed h"
    using handleBroadcast_eq [of ?h cid _ p]
    by (cases "h_rooms h cid") (simp_all add: handleBroadcast_def)
  then show ?thesis using assms(3,4) broadcast by simp
next
  case (snapshot i c snap)
  show ?thesis
  proof (cases snap)
    case None
    then have "h_send_on_closed h' = h_send_on_closed h"
      using snapshot by (simp add: snapshot_delivered_def upd_client_def Let_def)
    then show ?thesis using assms(3,4) by simp
  next
    case (Some s)
    then show ?thesis using snapshot(1,2) by blast
  qed
next
  case (shutdown contests)
  then have "h_send_on_closed h' = h_send_on_closed h"
    unfolding shutdown(1) shutdownAllClients_def
    by (subst foldl_close_rooms) (use hub_invD(2) [OF assms(2)] in auto)
  then show ?thesis using assms(3,4) by simp
qed (auto simp: ServeWS_def handleRegister_def handleUnregister_def dispatchPubSubMsg_def
    upd_client_def close_send_def Let_def split: option.splits if_splits)

section \<open>Properties\<close>

text \<open>
  C23: however the hub, the Pub/Sub reader, connecting clients and the pumps interleave, no channel
  is closed twice, no client queue exceeds its 64 slots, exactly the clients in a room are open
  members of that contest, and a client in a room has been sent every board published for its
  contest since it was registered, in order and without gaps; a client that could not keep up has
  left the room.
\<close>

theorem hub_delivery:
  assumes "hub_reachable h"
  shows "\<not> h_double_close h \<and>
    (\<forall>i c. h_clients h i = Some c \<longrightarrow> length (cl_send c) \<le> sendBufSize) \<and>
    (\<forall>cid room i. h_rooms h cid = Some room \<and> i \<in> set room \<longrightarrow>
       (\<exists>c. h_clients h i = Some c \<and> cl_contestID c = cid \<and> \<not> cl_closed c \<and>
            received c = history h cid (cl_since c)))"
proof -
  note inv = hub_reachable_inv [OF assms]
  have "\<exists>c. h_clients h i = Some c \<and> cl_contestID c = cid \<and> \<not> cl_closed c \<and>
      received c = history h cid (cl_since c)"
    if "h_rooms h cid = Some room" "i \<in> set room" for cid room i
    using hub_invD(2,3) [OF inv that(1)] that(2)
    by (fastforce simp: room_ok_def hist_ok_def elim!: open_clientE)
  then show ?thesis using hub_invD(6,10) [OF inv] by blast
qed

definition sample_hub :: "nat hub" where
  "sample_hub = handleBroadcast 5 42 ((dispatchPubSubMsg ''oj:ranking:5:events'' 42
     (handleRegister 0 5 ((ServeWS 5 NewHub)\<lparr>h_register := []\<rparr>)))\<lparr>h_broadcast := []\<rparr>)"

lemma sample_hub_reachable: "hub_reachable sample_hub"
proof -
  have conn: "hub_reachable (ServeWS 5 NewHub :: nat hub)"
    by (rule hub_reachable.step [OF hub_reachable.start hub_step.connect])
       (simp add: NewHub_def registerCap_def)
  have reg: "hub_reachable (handleRegister 0 5 ((ServeWS 5 NewHub :: nat hub)\<lparr>h_register := []\<rparr>))"
    using hub_reachable.step [OF conn hub_step.register, of 0 "[]"]
    by (simp add: ServeWS_def NewHub_def)
  have parse: "parse_channel ''oj:ranking:5:events'' = Some 5" by code_simp
  let ?d = "dispatchPubSubMsg ''oj:ranking:5:events'' 42
      (handleRegister 0 5 ((ServeWS 5 NewHub :: nat hub)\<lparr>h_register := []\<rparr>))"
  have "hub_reachable ?d" by (rule hub_reachable.step [OF reg hub_step.pubsub])
  moreover have "h_running ?d" "h_broadcast ?d = [(5, 42)]"
    by (simp_all add: dispatchPubSubMsg_def parse handleRegister_def ServeWS_def NewHub_def
        upd_client_def broadcastCap_def Let_def)
  ultimately show ?thesis
    unfolding sample_hub_def by (rule hub_reachable.step [OF _ hub_step.broadcast])
qed

theorem hub_delivery_witness:
  "\<exists>c. h_clients sample_hub 0 = Some c \<and> received c = history sample_hub 5 (cl_since c) \<and> received c = [42]"
proof -
  have parse: "parse_channel ''oj:ranking:5:events'' = Some 5" by code_simp
  have "h_rooms sample_hub 5 = Some [0]" "h_log sample_hub = [(5, 42)]"
    "\<And>c. h_clients sample_hub 0 = Some c \<Longrightarrow> cl_since c = 0"
    by (simp_all add: sample_hub_def handleBroadcast_def dispatchPubSubMsg_def parse handleRegister_def
        ServeWS_def NewHub_def upd_client_def broadcastCap_def sendBufSize_def Let_def)
  moreover from this(1) obtain c where "h_clients sample_hub 0 = Some c"
    "received c = history sample_hub 5 (cl_since c)"
    using hub_delivery [OF sample_hub_reachable] by (metis list.set_intros(1))
  ultimately show ?thesis by (simp add: history_def)
qed

definition panic_hub :: "nat hub" where
  "panic_hub = shutdownAllClients [5] (handleRegister 0 5 ((ServeWS 5 NewHub)\<lparr>h_register := []\<rparr>))"

lemma panic_hub:
  "hub_reachable panic_hub" "hub_step panic_hub (snapshot_delivered 0 (Some 1) panic_hub)"
  "\<not> h_send_on_closed panic_hub" "h_send_on_closed (snapshot_delivered 0 (Some 1) panic_hub)"
proof -
  let ?c = "ServeWS 5 NewHub :: nat hub"
  let ?r = "handleRegister 0 5 (?c\<lparr>h_register := []\<rparr>)"
  have "hub_reachable ?c"
    by (rule hub_reachable.step [OF hub_reachable.start hub_step.connect])
       (simp add: NewHub_def registerCap_def)
  then have "hub_reachable ?r"
    using hub_reachable.step [OF _ hub_step.register, of ?c 0 "[]"]
    by (simp add: ServeWS_def NewHub_def)
  then show "hub_reachable panic_hub"
    unfolding panic_hub_def
    by (rule hub_reachable.step [OF _ hub_step.shutdown])
       (auto simp: ServeWS_def NewHub_def handleRegister_def upd_client_def Let_def dom_def)
  have s: "h_clients panic_hub 0 = Some \<lparr>cl_contestID = 5, cl_send = [], cl_closed = True,
      cl_written = [], cl_pumps = False, cl_since = 0\<rparr>" "h_fetching panic_hub = [0]" "\<not> h_send_on_closed panic_hub"
    by (simp_all add: panic_hub_def ServeWS_def NewHub_def handleRegister_def upd_client_def Let_def
        shutdownAllClients_def close_send_def)
  then show "\<not> h_send_on_closed panic_hub" by simp
  show "hub_step panic_hub (snapshot_delivered 0 (Some 1) panic_hub)"
    by (rule hub_step.snapshot [OF _ s(1)]) (simp_all add: s(2))
  show "h_send_on_closed (snapshot_delivered 0 (Some 1) panic_hub)"
    by (simp add: snapshot_delivered_def s)
qed



end
