(* ===== verification/Go_Strings.thy ===== *)
theory Go_Strings
  imports OJ_Prelude
begin

text \<open>
  The string functions of Go's standard library that the judger and the API use, on byte strings:
  white space (with the multi-byte UTF-8 encodings \<open>unicode.IsSpace\<close> accepts), \<open>TrimSpace\<close>,
  \<open>ToLower\<close> and \<open>ToUpper\<close> on ASCII letters, \<open>HasPrefix\<close>, the first line of \<open>SplitN\<close>, \<open>Sscanf("%d")\<close>,
  \<open>bufio.ScanWords\<close> with the scanner's token limit, and \<open>filepath.Clean\<close>, \<open>Join\<close>, \<open>IsAbs\<close>.
\<close>

section \<open>White space\<close>

definition ascii_space :: "char \<Rightarrow> bool" where
  "ascii_space c \<longleftrightarrow> c \<in> {CHR '' '', CHR 0x09, CHR 0x0A, CHR 0x0B, CHR 0x0C, CHR 0x0D}"

definition space2 :: "char \<Rightarrow> char \<Rightarrow> bool" where
  "space2 a b \<longleftrightarrow> a = CHR 0xC2 \<and> (b = CHR 0x85 \<or> b = CHR 0xA0)"

definition space3 :: "char \<Rightarrow> char \<Rightarrow> char \<Rightarrow> bool" where
  "space3 a b c \<longleftrightarrow>
     a = CHR 0xE1 \<and> b = CHR 0x9A \<and> c = CHR 0x80 \<or>
     a = CHR 0xE2 \<and> b = CHR 0x80 \<and>
       (128 \<le> (of_char c :: nat) \<and> (of_char c :: nat) \<le> 138 \<or> c = CHR 0xA8 \<or> c = CHR 0xA9 \<or> c = CHR 0xAF) \<or>
     a = CHR 0xE2 \<and> b = CHR 0x81 \<and> c = CHR 0x9F \<or>
     a = CHR 0xE3 \<and> b = CHR 0x80 \<and> c = CHR 0x80"

fun space_len :: "string \<Rightarrow> nat" where
  "space_len [] = 0"
| "space_len (a # s) =
     (if ascii_space a then 1
      else case s of
             [] \<Rightarrow> 0
           | b # s' \<Rightarrow> if space2 a b then 2
                       else case s' of [] \<Rightarrow> 0 | c # _ \<Rightarrow> if space3 a b c then 3 else 0)"

lemma space_len_le: "space_len s \<le> length s"
  by (cases s rule: space_len.cases) (auto split: list.split)

function skip_space :: "string \<Rightarrow> string" where
  "skip_space s = (if space_len s = 0 then s else skip_space (drop (space_len s) s))"
  by pat_completeness auto
termination
proof (relation "measure length")
  fix s :: string
  assume "space_len s \<noteq> 0"
  moreover from this have "s \<noteq> []" by auto
  ultimately show "(drop (space_len s) s, s) \<in> measure length" by simp
qed simp

declare skip_space.simps [simp del]

lemma skip_space_length: "length (skip_space s) \<le> length s"
proof (induction s rule: skip_space.induct)
  case (1 s)
  show ?case
  proof (cases "space_len s = 0")
    case True
    then show ?thesis by (subst skip_space.simps) simp
  next
    case False
    then have "length (skip_space (drop (space_len s) s)) \<le> length s" using 1 by fastforce
    with False show ?thesis by (subst skip_space.simps) simp
  qed
qed

lemma skip_space_stops: "space_len (skip_space s) = 0"
proof (induction s rule: skip_space.induct)
  case (1 s)
  then show ?case by (subst skip_space.simps) simp
qed

definition trailing_space_len :: "string \<Rightarrow> nat" where
  "trailing_space_len s =
     (case rev s of
        [] \<Rightarrow> 0
      | c # r \<Rightarrow> if ascii_space c then 1
                else case r of
                       [] \<Rightarrow> 0
                     | b # r' \<Rightarrow> if space2 b c then 2
                                 else case r' of [] \<Rightarrow> 0 | a # _ \<Rightarrow> if space3 a b c then 3 else 0)"

function trim_right :: "string \<Rightarrow> string" where
  "trim_right s =
     (if trailing_space_len s = 0 \<or> s = [] then s
      else trim_right (take (length s - trailing_space_len s) s))"
  by pat_completeness auto
termination
  by (relation "measure length") auto

declare trim_right.simps [simp del]

definition TrimSpace :: "string \<Rightarrow> string" where
  "TrimSpace s = trim_right (skip_space s)"

section \<open>Prefixes, lines, case\<close>

definition HasPrefix :: "string \<Rightarrow> string \<Rightarrow> bool" where
  "HasPrefix s p \<longleftrightarrow> take (length p) s = p"

definition first_line :: "string \<Rightarrow> string" where
  "first_line s = takeWhile (\<lambda>c. c \<noteq> CHR 0x0A) s"

definition lower_char :: "char \<Rightarrow> char" where
  "lower_char c = (let n = of_char c :: nat in if 65 \<le> n \<and> n \<le> 90 then char_of (n + 32) else c)"

definition upper_char :: "char \<Rightarrow> char" where
  "upper_char c = (let n = of_char c :: nat in if 97 \<le> n \<and> n \<le> 122 then char_of (n - 32) else c)"

definition ToLower :: "string \<Rightarrow> string" where "ToLower s = map lower_char s"
definition ToUpper :: "string \<Rightarrow> string" where "ToUpper s = map upper_char s"

text \<open>\<open>Sscanf(s, "%d", &n)\<close>: the value scanned, or \<open>None\<close> when \<open>n\<close> is left alone.\<close>

definition sscanf_d :: "string \<Rightarrow> int option" where
  "sscanf_d s =
     (case skip_space s of
        [] \<Rightarrow> None
      | c # r \<Rightarrow>
          if c = CHR ''-'' then parse_digits (- 1) (takeWhile is_digit r)
          else if c = CHR ''+'' then parse_digits 1 (takeWhile is_digit r)
          else parse_digits 1 (takeWhile is_digit (c # r)))"

section \<open>Words\<close>

fun span_word :: "string \<Rightarrow> string \<times> string" where
  "span_word [] = ([], [])"
| "span_word (c # s) =
     (if space_len (c # s) > 0 then ([], c # s)
      else let (w, rest) = span_word s in (c # w, rest))"

lemma span_word_append: "fst (span_word s) @ snd (span_word s) = s"
  by (induction s) (simp_all add: split_def Let_def del: space_len.simps)

lemma span_word_progress:
  assumes "s \<noteq> []" and "space_len s = 0"
  shows "length (snd (span_word s)) < length s"
proof -
  have le: "length (snd (span_word r)) \<le> length r" for r
    using span_word_append [of r] by (metis le_add2 length_append)
  obtain c r where s: "s = c # r" using assms(1) by (cases s) auto
  show ?thesis using assms(2) le [of r] by (simp add: s split_def Let_def del: space_len.simps)
qed

function words :: "string \<Rightarrow> string list" where
  "words s =
     (let t = skip_space s
      in if t = [] then [] else fst (span_word t) # words (snd (span_word t)))"
  by pat_completeness auto
termination
proof (relation "measure length")
  fix s t :: string
  assume "t = skip_space s" and "t \<noteq> []"
  then show "(snd (span_word t), s) \<in> measure length"
    using span_word_progress [of t] skip_space_length [of s] skip_space_stops [of s] by simp
qed simp

declare words.simps [simp del]

definition MaxScanTokenSize :: nat where "MaxScanTokenSize = 65536"

text \<open>
  A \<open>bufio.Scanner\<close> with the default buffer stops at the first token that fills the buffer: the
  tokens after it, and that token itself, are not returned.
\<close>

definition scan_tokens :: "string \<Rightarrow> string list" where
  "scan_tokens s = takeWhile (\<lambda>w. length w < MaxScanTokenSize) (words s)"

section \<open>Layout of words\<close>

definition word_char :: "char \<Rightarrow> bool" where
  "word_char c \<longleftrightarrow> \<not> ascii_space c \<and> c \<noteq> CHR 0xC2 \<and> c \<noteq> CHR 0xE1 \<and> c \<noteq> CHR 0xE2 \<and> c \<noteq> CHR 0xE3"

definition is_word :: "string \<Rightarrow> bool" where
  "is_word w \<longleftrightarrow> w \<noteq> [] \<and> list_all word_char w"

definition blank :: "string \<Rightarrow> bool" where
  "blank s \<longleftrightarrow> list_all ascii_space s"

text \<open>
  A text is laid out as a list of words when the words follow one another in it, separated,
  preceded and followed by any amount of white space.
\<close>

inductive laid_out :: "string list \<Rightarrow> string \<Rightarrow> bool" where
  no_words: "blank s \<Longrightarrow> laid_out [] s"
| last_word: "blank s \<Longrightarrow> is_word w \<Longrightarrow> laid_out [w] (s @ w)"
| next_word: "blank s \<Longrightarrow> is_word w \<Longrightarrow> ascii_space c \<Longrightarrow> laid_out ws rest \<Longrightarrow>
    laid_out (w # ws) (s @ w @ c # rest)"

lemma space_len_word: "word_char c \<Longrightarrow> space_len (c # s) = 0"
  by (auto simp: word_char_def space2_def space3_def split: list.split)

lemma space_len_ascii: "ascii_space c \<Longrightarrow> space_len (c # s) = 1"
  by simp

lemma skip_space_blank: "blank s \<Longrightarrow> skip_space (s @ t) = skip_space t"
proof (induction s)
  case (Cons c s)
  then show ?case by (subst skip_space.simps) (simp add: blank_def)
qed simp

lemma skip_space_word: "is_word w \<Longrightarrow> skip_space (w @ t) = w @ t"
proof (cases w)
  case (Cons c r)
  assume "is_word w"
  then have "space_len (w @ t) = 0" by (simp add: Cons is_word_def space_len_word del: space_len.simps)
  then show ?thesis by (subst skip_space.simps) simp
qed (simp add: is_word_def)

lemma skip_space_Nil [simp]: "skip_space [] = []"
  by (simp add: skip_space.simps)

lemma span_word_word:
  "list_all word_char w \<Longrightarrow> t = [] \<or> space_len t > 0 \<Longrightarrow> span_word (w @ t) = (w, t)"
proof (induction w)
  case Nil
  then show ?case by (cases t) (auto simp del: space_len.simps)
next
  case (Cons c w)
  then show ?case by (simp add: space_len_word del: space_len.simps)
qed

lemma words_Nil [simp]: "words [] = []"
  by (simp add: words.simps)

lemma words_word:
  assumes "blank s" and "is_word w" and "t = [] \<or> space_len t > 0"
  shows "words (s @ w @ t) = w # words t"
proof -
  have skip: "skip_space (s @ w @ t) = w @ t"
    using assms(1,2) by (simp add: skip_space_blank skip_space_word)
  have "span_word (w @ t) = (w, t)" using assms(2,3) by (simp add: span_word_word is_word_def)
  moreover have "w \<noteq> []" using assms(2) by (simp add: is_word_def)
  ultimately show ?thesis by (subst words.simps) (simp add: skip)
qed

lemma words_blank: "ascii_space c \<Longrightarrow> words (c # s) = words s"
  using skip_space_blank [of "[c]" s] by (subst (1 2) words.simps) (simp add: blank_def)

lemma words_laid_out: "laid_out ws s \<Longrightarrow> words s = ws"
proof (induction rule: laid_out.induct)
  case (no_words s)
  then show ?case using skip_space_blank [of s "[]"] by (subst words.simps) simp
next
  case (last_word s w)
  then show ?case using words_word [of s w "[]"] by simp
next
  case (next_word s w c ws rest)
  then show ?case
    using words_word [of s w "c # rest"] by (simp add: words_blank)
qed

section \<open>Paths\<close>

fun split_slash :: "string \<Rightarrow> string list" where
  "split_slash [] = [[]]"
| "split_slash (c # s) =
     (if c = CHR ''/'' then [] # split_slash s
      else case split_slash s of [] \<Rightarrow> [[c]] | w # ws \<Rightarrow> (c # w) # ws)"

fun clean_parts :: "bool \<Rightarrow> string list \<Rightarrow> string list \<Rightarrow> string list" where
  "clean_parts rooted acc [] = rev acc"
| "clean_parts rooted acc (p # ps) =
     (if p = [] \<or> p = ''.'' then clean_parts rooted acc ps
      else if p = ''..'' then
        (case acc of
           a # as \<Rightarrow> if a = ''..'' then clean_parts rooted (''..'' # acc) ps else clean_parts rooted as ps
         | [] \<Rightarrow> clean_parts rooted (if rooted then [] else [''..'']) ps)
      else clean_parts rooted (p # acc) ps)"

fun join_slash :: "string list \<Rightarrow> string" where
  "join_slash [] = []"
| "join_slash [p] = p"
| "join_slash (p # ps) = p @ CHR ''/'' # join_slash ps"

definition IsAbs :: "string \<Rightarrow> bool" where
  "IsAbs p \<longleftrightarrow> HasPrefix p ''/''"

definition path_Clean :: "string \<Rightarrow> string" where
  "path_Clean p =
     (if p = [] then ''.''
      else let parts = clean_parts (IsAbs p) [] (split_slash p);
               body = join_slash parts
           in if IsAbs p then CHR ''/'' # body else if body = [] then ''.'' else body)"

definition path_Join :: "string \<Rightarrow> string \<Rightarrow> string" where
  "path_Join a b =
     (if a = [] then (if b = [] then [] else path_Clean b)
      else if b = [] then path_Clean a else path_Clean (a @ CHR ''/'' # b))"

lemma space_len_take: "space_len s = 0 \<Longrightarrow> space_len (take n s) = 0"
  by (cases s rule: space_len.cases; cases n)
     (auto split: list.splits if_splits nat.splits simp: take_Cons')

lemma skip_space_id: "space_len s = 0 \<Longrightarrow> skip_space s = s"
  by (simp add: skip_space.simps)

lemma trim_right_take: "\<exists>n. trim_right s = take n s"
proof (induction s rule: trim_right.induct)
  case (1 s)
  show ?case
  proof (cases "trailing_space_len s = 0 \<or> s = []")
    case True
    then have "trim_right s = take (length s) s" by (subst trim_right.simps) simp
    then show ?thesis ..
  next
    case False
    then show ?thesis using 1 by (subst trim_right.simps) (metis take_take)
  qed
qed

lemma trim_right_idem: "trim_right (trim_right s) = trim_right s"
proof (induction s rule: trim_right.induct)
  case (1 s)
  show ?case
  proof (cases "trailing_space_len s = 0 \<or> s = []")
    case True
    then have "trim_right s = s" by (subst trim_right.simps) (rule if_P)
    then show ?thesis by simp
  next
    case False
    then have "trim_right s = trim_right (take (length s - trailing_space_len s) s)"
      by (subst trim_right.simps) (rule if_not_P)
    then show ?thesis using 1 [OF False] by simp
  qed
qed

lemma TrimSpace_idem: "TrimSpace (TrimSpace s) = TrimSpace s"
proof -
  obtain n where n: "trim_right (skip_space s) = take n (skip_space s)" using trim_right_take by blast
  have "skip_space (take n (skip_space s)) = take n (skip_space s)"
    by (simp add: skip_space_id space_len_take skip_space_stops)
  then have "TrimSpace (TrimSpace s) = trim_right (trim_right (skip_space s))"
    by (simp add: TrimSpace_def n)
  then show ?thesis by (simp add: TrimSpace_def trim_right_idem)
qed

section \<open>Cleaned absolute paths\<close>

definition good_part :: "string \<Rightarrow> bool" where
  "good_part p \<longleftrightarrow> p \<noteq> [] \<and> p \<noteq> ''.'' \<and> p \<noteq> ''..'' \<and> CHR ''/'' \<notin> set p"

lemma split_slash_nonempty [simp]: "split_slash s \<noteq> []"
  by (induction s) (auto split: list.split)

lemma split_slash_no_slash: "p \<in> set (split_slash s) \<Longrightarrow> CHR ''/'' \<notin> set p"
  by (induction s arbitrary: p) (auto split: list.splits if_splits)

lemma split_slash_word: "CHR ''/'' \<notin> set p \<Longrightarrow> split_slash p = [p]"
  by (induction p) auto

lemma split_slash_append: "split_slash (a @ CHR ''/'' # b) = split_slash a @ split_slash b"
  by (induction a) (auto split: list.split)

lemma split_join_slash:
  "list_all good_part ps \<Longrightarrow> ps \<noteq> [] \<Longrightarrow> split_slash (join_slash ps) = ps"
  by (induction ps rule: join_slash.induct) (simp_all add: split_slash_word split_slash_append good_part_def)

lemma clean_parts_good:
  "list_all good_part acc \<Longrightarrow> \<forall>p \<in> set ps. CHR ''/'' \<notin> set p \<Longrightarrow> list_all good_part (clean_parts True acc ps)"
proof (induction "True" acc ps rule: clean_parts.induct)
  case (2 acc p ps)
  then show ?case by (cases acc) (auto simp: good_part_def)
qed (simp add: list_all_iff)

lemma path_Clean_abs:
  assumes "IsAbs d"
  obtains ps where "list_all good_part ps" and "path_Clean d = CHR ''/'' # join_slash ps"
proof
  show "list_all good_part (clean_parts True [] (split_slash d))"
    by (rule clean_parts_good) (auto dest: split_slash_no_slash)
  show "path_Clean d = CHR ''/'' # join_slash (clean_parts True [] (split_slash d))"
    using assms by (auto simp: path_Clean_def IsAbs_def HasPrefix_def Let_def)
qed

lemma IsAbs_append: "IsAbs r \<Longrightarrow> IsAbs (r @ s)"
  by (cases r) (simp_all add: IsAbs_def HasPrefix_def)

lemma IsAbs_Clean: "IsAbs r \<Longrightarrow> IsAbs (path_Clean r) \<and> path_Clean r \<noteq> []"
  by (auto simp: path_Clean_def IsAbs_def HasPrefix_def Let_def)

lemma path_Join_abs: "IsAbs a \<Longrightarrow> \<exists>r. IsAbs r \<and> path_Join a b = path_Clean r"
proof -
  assume abs: "IsAbs a"
  then have "a \<noteq> []" by (auto simp: IsAbs_def HasPrefix_def)
  then show ?thesis using IsAbs_append [OF abs] abs by (cases "b = []") (auto simp: path_Join_def)
qed

lemma join_slash_head: "list_all good_part ps \<Longrightarrow> join_slash ps \<noteq> CHR ''/'' # t"
  by (cases ps rule: join_slash.cases) (auto simp: good_part_def Cons_eq_append_conv append_eq_Cons_conv)

text \<open>
  The zip-slip check: a cleaned path that starts with a cleaned absolute directory and a slash
  names something inside that directory.
\<close>

lemma clean_below:
  assumes "IsAbs d" and "IsAbs q" and "HasPrefix (path_Clean q) (path_Clean d @ ''/'')"
  shows "\<exists>t. path_Clean q = path_Clean d @ ''/'' @ t \<and> list_all good_part (split_slash t)"
proof -
  obtain ds where ds: "list_all good_part ds" "path_Clean d = CHR ''/'' # join_slash ds"
    using path_Clean_abs [OF assms(1)] .
  obtain qs where qs: "list_all good_part qs" "path_Clean q = CHR ''/'' # join_slash qs"
    using path_Clean_abs [OF assms(2)] .
  obtain t where t: "path_Clean q = path_Clean d @ ''/'' @ t"
    using assms(3) by (metis HasPrefix_def append.assoc append_take_drop_id)
  then have join: "join_slash qs = join_slash ds @ CHR ''/'' # t" using ds qs by simp
  show ?thesis
  proof (cases "ds = []")
    case True
    then show ?thesis using join join_slash_head [OF qs(1)] by simp
  next
    case False
    have "qs \<noteq> []" using join by auto
    then have "qs = split_slash (join_slash ds @ CHR ''/'' # t)" using qs(1) join split_join_slash by metis
    then have "qs = ds @ split_slash t" using False ds(1) by (simp add: split_slash_append split_join_slash)
    then show ?thesis using t qs(1) by auto
  qed
qed

end
