(* ===== verification/Verdict.thy ===== *)
theory Verdict
  imports Models Go_Strings
begin

text \<open>
  Package \<open>judger\<close>: the sandbox interface (\<open>sandbox/types.go\<close>, \<open>sandbox/sandbox.go\<close>), verdicts
  (\<open>verdict.go\<close>), the four orchestrators that judge one test case (\<open>runner_standard.go\<close>,
  \<open>runner_special.go\<close>, \<open>interactive/orchestrator.go\<close>) and their registry (\<open>orchestrator.go\<close>).

  A call either returns a value, returns an error or panics (\<open>outcome\<close>). The sandbox session, the
  shared file system and the checker process are parameters: a session is a record of its three
  execution methods, which return the captured output along with the result.
\<close>

section \<open>Outcomes\<close>

datatype 'a outcome = Done 'a | Fail error | Panic error

fun outcome_bind :: "'a outcome \<Rightarrow> ('a \<Rightarrow> 'b outcome) \<Rightarrow> 'b outcome" where
  "outcome_bind (Done x) f = f x"
| "outcome_bind (Fail e) f = Fail e"
| "outcome_bind (Panic e) f = Panic e"

section \<open>Sandbox interface\<close>

record resource_limits =
  rl_TimeLimitMs :: int
  rl_WallTimeLimitMs :: int
  rl_MemLimitKB :: int
  rl_FileSizeKB :: int
  rl_MaxOpenFiles :: int
  rl_MaxChildProcesses :: int

record bind_mount =
  bm_HostPath :: string
  bm_SandboxPath :: string
  bm_ReadOnly :: bool

record session_config =
  sc_WorkDir :: string
  sc_ExtraBindMounts :: "bind_mount list"
  sc_MaxProcesses :: int
  sc_NetworkEnabled :: bool

record exec_request =
  er_Executable :: string
  er_Args :: "string list"
  er_Stdin :: "string option"
  er_Limits :: resource_limits

datatype ExecStatus = ExecOK | ExecTLE | ExecWallTLE | ExecMLE | ExecRE | ExecSCViol | ExecSE
  | ExecOther string

record exec_result =
  xr_ExitCode :: int
  xr_Signal :: int
  xr_TimeUsedMs :: int
  xr_MemUsedKB :: int
  xr_Status :: ExecStatus
  xr_Message :: string

record pair_exec_request =
  pr_Contestant :: exec_request
  pr_Interactor :: exec_request
  pr_InteractorLimits :: resource_limits
  pr_InteractorInput :: string

record pair_exec_result =
  px_Contestant :: exec_result
  px_Interactor :: exec_result
  px_InteractorOutput :: string
  px_WallTimeMs :: int

record channel_spec =
  ch_Name :: string
  ch_From :: int
  ch_To :: int
  ch_BufferSizeKB :: int

record group_exec_request =
  gr_Processes :: "exec_request list"
  gr_Channels :: "channel_spec list"
  gr_GraderProcess :: "exec_request option"
  gr_GlobalWallTimeLimitMs :: int

record group_exec_result =
  gx_Processes :: "exec_result list"
  gx_GraderOutput :: string
  gx_WallTimeMs :: int

record session =
  s_Execute :: "exec_request \<Rightarrow> (exec_result \<times> string) outcome"
  s_ExecutePair :: "pair_exec_request \<Rightarrow> pair_exec_result outcome"
  s_ExecuteGroup :: "group_exec_request \<Rightarrow> group_exec_result outcome"

definition no_limits :: resource_limits where
  "no_limits = \<lparr>rl_TimeLimitMs = 0, rl_WallTimeLimitMs = 0, rl_MemLimitKB = 0, rl_FileSizeKB = 0,
     rl_MaxOpenFiles = 0, rl_MaxChildProcesses = 0\<rparr>"

section \<open>Verdicts\<close>

record verdict =
  v_Status :: SubmissionStatus
  v_Score :: int
  v_TimeUsedMs :: int
  v_MemUsedKB :: int
  v_JudgeMessage :: string

record test_case_request =
  tr_RunCmd :: "string list"
  tr_TestCase :: judge_test_case
  tr_JudgeConfig :: judge_config
  tr_Limits :: resource_limits

definition execStatusToSubmission :: "ExecStatus \<Rightarrow> SubmissionStatus" where
  "execStatusToSubmission s =
     (case s of
        ExecTLE \<Rightarrow> StatusTLE | ExecWallTLE \<Rightarrow> StatusTLE
      | ExecMLE \<Rightarrow> StatusMLE
      | ExecRE \<Rightarrow> StatusRE | ExecSCViol \<Rightarrow> StatusRE
      | ExecSE \<Rightarrow> StatusSE
      | _ \<Rightarrow> StatusRE)"

definition priority :: "SubmissionStatus \<Rightarrow> int" where
  "priority s =
     (case s of
        StatusSE \<Rightarrow> 6 | StatusTLE \<Rightarrow> 5 | StatusMLE \<Rightarrow> 4 | StatusRE \<Rightarrow> 3 | StatusWrongAnswer \<Rightarrow> 2
      | StatusAccepted \<Rightarrow> 1 | _ \<Rightarrow> 0)"

fun aggregate_results :: "bool \<Rightarrow> test_case_result list \<Rightarrow> SubmissionStatus \<Rightarrow> int \<Rightarrow> SubmissionStatus \<times> int" where
  "aggregate_results isScored [] worst totalScore = (worst, totalScore)"
| "aggregate_results isScored (r # rs) worst totalScore =
     aggregate_results isScored rs
       (if priority (tcr_Status r) > priority worst then tcr_Status r else worst)
       (if isScored then wrap64 (totalScore + tcr_Score r) else totalScore)"

definition aggregate :: "test_case_result list \<Rightarrow> JudgeType \<Rightarrow> SubmissionStatus \<times> int" where
  "aggregate results jt =
     (if results = [] then (StatusSE, 0)
      else aggregate_results
             (jt = JudgeStandard \<or> jt = JudgeSpecial \<or> jt = JudgeInteractive \<or> jt = JudgeCommunication)
             results StatusAccepted 0)"

section \<open>Standard problems\<close>

fun equal_at :: "string list \<Rightarrow> string list \<Rightarrow> bool" where
  "equal_at [] _ = True"
| "equal_at (a # as) [] = True"
| "equal_at (a # as) (b # bs) = (if a \<noteq> b then False else equal_at as bs)"

definition tokenize :: "string \<Rightarrow> string list" where
  "tokenize data = scan_tokens data"

definition tokensEqual :: "string \<Rightarrow> string \<Rightarrow> bool" where
  "tokensEqual a b =
     (let ta = tokenize a; tb = tokenize b
      in if length ta \<noteq> length tb then False else equal_at ta tb)"

text \<open>The argument \<open>quote\<close> stands for \<open>strconv.Quote\<close>, the \<open>%q\<close> verb.\<close>

fun diff_loop :: "(string \<Rightarrow> string) \<Rightarrow> nat \<Rightarrow> string list \<Rightarrow> string list \<Rightarrow> string option" where
  "diff_loop quote i (g # gs) (w # ws) =
     (if g \<noteq> w then Some (''first difference at token '' @ show_nat (i + 1) @ '': got '' @ quote g @
                         '', expected '' @ quote w)
      else diff_loop quote (i + 1) gs ws)"
| "diff_loop quote i _ _ = None"

definition firstDiffHint :: "(string \<Rightarrow> string) \<Rightarrow> string \<Rightarrow> string \<Rightarrow> string" where
  "firstDiffHint quote got want =
     (let tg = tokenize got; tw = tokenize want
      in case diff_loop quote 0 tg tw of
           Some msg \<Rightarrow> msg
         | None \<Rightarrow> ''token count mismatch: got '' @ show_nat (length tg) @ '', expected '' @ show_nat (length tw))"

record judge_io =
  io_files :: "string \<rightharpoonup> string"
  io_temp :: "string option"
  io_checker :: "string \<Rightarrow> string list \<Rightarrow> string \<Rightarrow> string"
  io_quote :: "string \<Rightarrow> string"

definition failed_verdict :: "exec_result \<Rightarrow> verdict" where
  "failed_verdict result = \<lparr>v_Status = execStatusToSubmission (xr_Status result), v_Score = 0,
     v_TimeUsedMs = xr_TimeUsedMs result, v_MemUsedKB = xr_MemUsedKB result, v_JudgeMessage = []\<rparr>"

definition run_contestant :: "test_case_request \<Rightarrow> session \<Rightarrow> string \<Rightarrow> (exec_result \<times> string) outcome" where
  "run_contestant req session input =
     s_Execute session \<lparr>er_Executable = hd (tr_RunCmd req), er_Args = tl (tr_RunCmd req),
       er_Stdin = Some input, er_Limits = tr_Limits req\<rparr>"

definition Standard_RunTestCase :: "judge_io \<Rightarrow> test_case_request \<Rightarrow> session \<Rightarrow> verdict outcome" where
  "Standard_RunTestCase io req session =
     (if tr_RunCmd req = [] then Fail ''standard: RunCmd is empty''
      else case io_files io (jtc_InputPath (tr_TestCase req)) of
             None \<Rightarrow> Fail ''standard: open input''
           | Some input \<Rightarrow>
               (case run_contestant req session input of
                  Fail e \<Rightarrow> Fail ''standard: execute''
                | Panic e \<Rightarrow> Panic e
                | Done (result, out) \<Rightarrow>
                    if xr_Status result \<noteq> ExecOK then Done (failed_verdict result)
                    else case io_files io (jtc_OutputPath (tr_TestCase req)) of
                           None \<Rightarrow> Fail ''standard: read expected output''
                         | Some expected \<Rightarrow>
                             Done (if tokensEqual out expected
                               then \<lparr>v_Status = StatusAccepted, v_Score = jtc_Score (tr_TestCase req),
                                     v_TimeUsedMs = xr_TimeUsedMs result, v_MemUsedKB = xr_MemUsedKB result,
                                     v_JudgeMessage = []\<rparr>
                               else \<lparr>v_Status = StatusWrongAnswer, v_Score = 0,
                                     v_TimeUsedMs = xr_TimeUsedMs result, v_MemUsedKB = xr_MemUsedKB result,
                                     v_JudgeMessage = firstDiffHint (io_quote io) out expected\<rparr>)))"

section \<open>Special judge\<close>

definition parseCheckerOutput :: "string \<Rightarrow> exec_result \<Rightarrow> verdict" where
  "parseCheckerOutput stderr execResult =
     (let line = TrimSpace (first_line stderr);
          firstLine = ToLower line;
          v = \<lparr>v_Status = StatusWrongAnswer, v_Score = 0, v_TimeUsedMs = xr_TimeUsedMs execResult,
               v_MemUsedKB = xr_MemUsedKB execResult, v_JudgeMessage = line\<rparr>
      in if HasPrefix firstLine ''ok'' then v\<lparr>v_Status := StatusAccepted, v_Score := 1\<rparr>
         else if HasPrefix firstLine ''points '' then
           v\<lparr>v_Status := StatusAccepted,
             v_Score := (case sscanf_d (drop 7 firstLine) of Some n \<Rightarrow> n | None \<Rightarrow> 0)\<rparr>
         else if HasPrefix firstLine ''fail'' then v\<lparr>v_Status := StatusSE\<rparr>
         else v)"

text \<open>
  The checker runs outside the sandbox on the input file, a temporary file with the contestant's
  output and the expected output file; \<open>io_checker\<close> gives its standard error.
\<close>

definition Special_RunTestCase :: "judge_io \<Rightarrow> test_case_request \<Rightarrow> session \<Rightarrow> verdict outcome" where
  "Special_RunTestCase io req session =
     (if jc_CheckerPath (tr_JudgeConfig req) = [] then Fail ''special: CheckerPath is empty''
      else if tr_RunCmd req = [] then Fail ''special: RunCmd is empty''
      else case io_files io (jtc_InputPath (tr_TestCase req)) of
             None \<Rightarrow> Fail ''special: open input''
           | Some input \<Rightarrow>
               (case run_contestant req session input of
                  Fail e \<Rightarrow> Fail ''special: execute''
                | Panic e \<Rightarrow> Panic e
                | Done (result, out) \<Rightarrow>
                    if xr_Status result \<noteq> ExecOK then Done (failed_verdict result)
                    else case io_temp io of
                           None \<Rightarrow> Fail ''special: create temp file''
                         | Some tmp \<Rightarrow>
                             let args = [jtc_InputPath (tr_TestCase req), tmp, jtc_OutputPath (tr_TestCase req)]
                                        @ jc_CheckerArgs (tr_JudgeConfig req)
                             in Done (parseCheckerOutput
                                  (io_checker io (jc_CheckerPath (tr_JudgeConfig req)) args out) result)))"

section \<open>Interactive and communication problems\<close>

definition DefaultVerdictParser :: "string \<Rightarrow> exec_result \<Rightarrow> verdict" where
  "DefaultVerdictParser stderr contestant =
     (let v = (\<lambda>st. \<lparr>v_Status = st, v_Score = 0, v_TimeUsedMs = xr_TimeUsedMs contestant,
               v_MemUsedKB = xr_MemUsedKB contestant, v_JudgeMessage = []\<rparr>);
          line = TrimSpace (first_line stderr);
          upper = ToUpper line;
          parsed = (if upper = ''AC'' then (v StatusAccepted)\<lparr>v_Score := 1\<rparr>
                    else if HasPrefix upper ''PC '' then
                      (v StatusAccepted)\<lparr>v_Score := (case sscanf_d (drop 3 line) of Some n \<Rightarrow> n | None \<Rightarrow> 0)\<rparr>
                    else v StatusWrongAnswer)\<lparr>v_JudgeMessage := line\<rparr>
      in case xr_Status contestant of
           ExecTLE \<Rightarrow> v StatusTLE | ExecWallTLE \<Rightarrow> v StatusTLE
         | ExecMLE \<Rightarrow> v StatusMLE
         | ExecRE \<Rightarrow> v StatusRE | ExecSCViol \<Rightarrow> v StatusRE
         | ExecSE \<Rightarrow> (v StatusSE)\<lparr>v_TimeUsedMs := 0, v_MemUsedKB := 0\<rparr>
         | _ \<Rightarrow> parsed)"

definition Interactive_RunTestCase ::
  "(string \<Rightarrow> exec_result \<Rightarrow> verdict) \<Rightarrow> judge_io \<Rightarrow> test_case_request \<Rightarrow> session \<Rightarrow> verdict outcome" where
  "Interactive_RunTestCase ParseVerdict io req session =
     (if jc_InteractorPath (tr_JudgeConfig req) = [] then Fail ''interactive: InteractorPath is empty''
      else if tr_RunCmd req = [] then Fail ''interactive: RunCmd is empty''
      else case io_files io (jtc_InputPath (tr_TestCase req)) of
             None \<Rightarrow> Fail ''interactive: open input''
           | Some input \<Rightarrow>
               (case s_ExecutePair session
                  \<lparr>pr_Contestant = \<lparr>er_Executable = hd (tr_RunCmd req), er_Args = tl (tr_RunCmd req),
                     er_Stdin = None, er_Limits = tr_Limits req\<rparr>,
                   pr_Interactor = \<lparr>er_Executable = jc_InteractorPath (tr_JudgeConfig req), er_Args = [],
                     er_Stdin = None, er_Limits = no_limits\<rparr>,
                   pr_InteractorLimits = no_limits\<lparr>
                     rl_WallTimeLimitMs := wrap64 (rl_WallTimeLimitMs (tr_Limits req) + 2000),
                     rl_MemLimitKB := 256 * 1024, rl_MaxOpenFiles := 64\<rparr>,
                   pr_InteractorInput = input\<rparr> of
                  Fail e \<Rightarrow> Fail ''interactive: ExecutePair''
                | Panic e \<Rightarrow> Panic e
                | Done result \<Rightarrow> Done (ParseVerdict (px_InteractorOutput result) (px_Contestant result))))"

definition severity :: "ExecStatus \<Rightarrow> int" where
  "severity s = (case s of ExecOK \<Rightarrow> 0 | ExecRE \<Rightarrow> 1 | ExecWallTLE \<Rightarrow> 2 | ExecTLE \<Rightarrow> 2 | ExecMLE \<Rightarrow> 3
     | ExecSCViol \<Rightarrow> 4 | ExecSE \<Rightarrow> 5 | _ \<Rightarrow> 0)"

definition worstProcess :: "exec_result list \<Rightarrow> exec_result outcome" where
  "worstProcess results =
     (case results of
        [] \<Rightarrow> Panic ''index out of range [0] with length 0''
      | r # rs \<Rightarrow> Done (foldl (\<lambda>worst r. if severity (xr_Status r) > severity (xr_Status worst) then r else worst) r rs))"

definition Comm_RunTestCase ::
  "(string \<Rightarrow> exec_result \<Rightarrow> verdict) \<Rightarrow> judge_io \<Rightarrow> test_case_request \<Rightarrow> session \<Rightarrow> verdict outcome" where
  "Comm_RunTestCase ParseVerdict io req session =
     (let cfg = tr_JudgeConfig req; n = jc_CommProcessCount cfg
      in if n < 2 then Fail ''comm: CommProcessCount must be at least 2''
         else if tr_RunCmd req = [] then Fail ''comm: RunCmd is empty''
         else case s_ExecuteGroup session
                \<lparr>gr_Processes = map (\<lambda>i. \<lparr>er_Executable = hd (tr_RunCmd req),
                     er_Args = tl (tr_RunCmd req) @ [show_nat i], er_Stdin = None,
                     er_Limits = tr_Limits req\<rparr>) [0..<nat n],
                 gr_Channels = map (\<lambda>ch. \<lparr>ch_Name = cc_Name ch, ch_From = cc_From ch, ch_To = cc_To ch,
                     ch_BufferSizeKB = cc_BufferSizeKB ch\<rparr>) (jc_CommChannels cfg),
                 gr_GraderProcess = (if jc_GraderPath cfg = [] then None
                   else Some \<lparr>er_Executable = jc_GraderPath cfg, er_Args = [], er_Stdin = None,
                          er_Limits = no_limits\<rparr>),
                 gr_GlobalWallTimeLimitMs = wrap64 (rl_WallTimeLimitMs (tr_Limits req) * 2)\<rparr> of
                Fail e \<Rightarrow> Fail ''comm: ExecuteGroup''
              | Panic e \<Rightarrow> Panic e
              | Done result \<Rightarrow> outcome_bind (worstProcess (gx_Processes result))
                  (\<lambda>worst. Done (ParseVerdict (gx_GraderOutput result) worst)))"

section \<open>Registry\<close>

type_synonym orchestrator = "judge_io \<Rightarrow> test_case_request \<Rightarrow> session \<Rightarrow> verdict outcome"

type_synonym OrchestratorRegistry = "JudgeType \<rightharpoonup> orchestrator"

definition NewOrchestratorRegistry :: OrchestratorRegistry where
  "NewOrchestratorRegistry = Map.empty"

definition Orchestrator_Register :: "OrchestratorRegistry \<Rightarrow> JudgeType \<Rightarrow> orchestrator \<Rightarrow> OrchestratorRegistry" where
  "Orchestrator_Register r jt o' = r(jt \<mapsto> o')"

definition Orchestrator_Get :: "OrchestratorRegistry \<Rightarrow> JudgeType \<Rightarrow> orchestrator outcome" where
  "Orchestrator_Get r jt =
     (case r jt of Some o' \<Rightarrow> Done o' | None \<Rightarrow> Fail ''judger: no orchestrator registered for JudgeType'')"

section \<open>Facts\<close>

lemma aggregate_results_score:
  "snd (aggregate_results True rs worst t) =
   (if rs = [] then t else wrap64 (t + sum_list (map tcr_Score rs)))"
  by (induction rs arbitrary: worst t) (auto simp: wrap64_add_left simp flip: add.assoc)

lemma aggregate_results_worst:
  "(fst (aggregate_results b rs worst t) = worst \<or> fst (aggregate_results b rs worst t) \<in> tcr_Status ` set rs) \<and>
   priority worst \<le> priority (fst (aggregate_results b rs worst t)) \<and>
   (\<forall>r \<in> set rs. priority (tcr_Status r) \<le> priority (fst (aggregate_results b rs worst t)))"
proof (induction rs arbitrary: worst t)
  case (Cons r rs)
  let ?w = "if priority (tcr_Status r) > priority worst then tcr_Status r else worst"
  let ?t = "if b then wrap64 (t + tcr_Score r) else t"
  from Cons.IH [of ?w ?t] show ?case
    by (auto split: if_splits)
qed simp

lemma equal_at_iff: "length a = length b \<Longrightarrow> equal_at a b \<longleftrightarrow> a = b"
  by (induction a b rule: equal_at.induct) auto

lemma tokensEqual_iff: "tokensEqual a b \<longleftrightarrow> scan_tokens a = scan_tokens b"
  by (auto simp: tokensEqual_def tokenize_def Let_def equal_at_iff)

lemma scan_tokens_laid_out:
  "laid_out ws a \<Longrightarrow> \<forall>w \<in> set ws. length w < MaxScanTokenSize \<Longrightarrow> scan_tokens a = ws"
  by (simp add: scan_tokens_def words_laid_out takeWhile_eq_all_conv)

section \<open>Properties\<close>


definition sample_tc :: "SubmissionStatus \<Rightarrow> int \<Rightarrow> test_case_result" where
  "sample_tc st score = \<lparr>tcr_TestCaseID = 1, tcr_GroupID = 0, tcr_Status = st, tcr_TimeUsedMs = 10,
     tcr_MemUsedKB = 100, tcr_Score = score, tcr_CheckerOutput = []\<rparr>"


text \<open>
  C26: the output comparison of standard problems looks at the words of both texts and at nothing
  else: two texts laid out in any way from words shorter than the scanner's limit compare equal
  exactly when they have the same words in the same order.
\<close>

theorem tokensEqual_words:
  assumes "laid_out ws a" and "laid_out ws' b"
    and "\<forall>w \<in> set ws \<union> set ws'. length w < MaxScanTokenSize"
  shows "tokensEqual a b \<longleftrightarrow> ws = ws'"
  using assms by (simp add: tokensEqual_iff scan_tokens_laid_out)

theorem tokensEqual_words_witness:
  "tokensEqual (''1 2'' @ [CHR 0x0A]) '' 1  2'' \<and> \<not> tokensEqual ''1 2'' ''12''"
proof -
  have "laid_out [''2''] (''2'' @ [CHR 0x0A])"
    using laid_out.next_word [of "[]" "''2''" "CHR 0x0A" "[]" "[]"]
    by (simp add: blank_def is_word_def word_char_def ascii_space_def laid_out.no_words)
  then have a: "laid_out [''1'', ''2''] (''1 2'' @ [CHR 0x0A])"
    using laid_out.next_word [of "[]" "''1''" "CHR '' ''" "[''2'']" "''2'' @ [CHR 0x0A]"]
    by (simp add: blank_def is_word_def word_char_def ascii_space_def)
  have "laid_out [''2''] '' 2''" "laid_out [''2''] ''2''" "laid_out [''12''] ''12''"
    using laid_out.last_word [of "'' ''" "''2''"] laid_out.last_word [of "[]" "''2''"]
      laid_out.last_word [of "[]" "''12''"]
    by (simp_all add: blank_def is_word_def word_char_def ascii_space_def)
  then have b: "laid_out [''1'', ''2''] '' 1  2''" and c: "laid_out [''1'', ''2''] ''1 2''"
    and d: "laid_out [''12''] ''12''"
    using laid_out.next_word [of "'' ''" "''1''" "CHR '' ''" "[''2'']" "'' 2''"]
      laid_out.next_word [of "[]" "''1''" "CHR '' ''" "[''2'']" "''2''"]
    by (simp_all add: blank_def is_word_def word_char_def ascii_space_def)
  show ?thesis
    using tokensEqual_words [OF a b] tokensEqual_words [OF c d] by (simp add: MaxScanTokenSize_def)
qed

text \<open>
  a word of 64 KiB or more ends the comparison. Two texts that begin with such a word compare
  equal whatever the words are and whatever follows them, so a wrong answer is accepted.
\<close>

theorem long_token_accepts_anything:
  assumes "is_word w" and "MaxScanTokenSize \<le> length w" and "x = [] \<or> space_len x > 0"
    and "is_word w'" and "MaxScanTokenSize \<le> length w'" and "x' = [] \<or> space_len x' > 0"
  shows "tokensEqual (w @ x) (w' @ x')"
proof -
  have "words (w @ x) = w # words x" "words (w' @ x') = w' # words x'"
    using words_word [of "[]"] assms by (simp_all add: blank_def)
  then show ?thesis using assms(2,5) by (simp add: tokensEqual_iff scan_tokens_def)
qed

theorem long_token_accepts_anything_witness:
  "tokensEqual (replicate 65536 CHR ''a'') (replicate 65536 CHR ''b'' @ '' 1 2 3'')"
  using long_token_accepts_anything [of "replicate 65536 CHR ''a''" "[]" "replicate 65536 CHR ''b''" "'' 1 2 3''"]
  by (simp add: is_word_def list_all_iff word_char_def ascii_space_def MaxScanTokenSize_def)

text \<open>
  A standard test case is accepted exactly when the program ran without a violation and its
  output has the tokens of the expected output, and then it earns the test case's score; any
  sandbox violation decides the verdict before the output is looked at, with no score.
\<close>

theorem standard_verdict:
  assumes "tr_RunCmd req \<noteq> []" and "io_files io (jtc_InputPath (tr_TestCase req)) = Some input"
    and "io_files io (jtc_OutputPath (tr_TestCase req)) = Some expected"
    and "run_contestant req session input = Done (result, out)"
  shows "\<exists>v. Standard_RunTestCase io req session = Done v \<and>
    (v_Status v = StatusAccepted \<longleftrightarrow> xr_Status result = ExecOK \<and> tokensEqual out expected) \<and>
    v_Score v = (if v_Status v = StatusAccepted then jtc_Score (tr_TestCase req) else 0) \<and>
    (xr_Status result \<noteq> ExecOK \<longrightarrow> v_Status v = execStatusToSubmission (xr_Status result)) \<and>
    v_TimeUsedMs v = xr_TimeUsedMs result \<and> v_MemUsedKB v = xr_MemUsedKB result"
  using assms
  by (auto simp: Standard_RunTestCase_def failed_verdict_def execStatusToSubmission_def split: ExecStatus.split)

definition sample_io :: judge_io where
  "sample_io = \<lparr>io_files = [''1.in'' \<mapsto> ''3 4'', ''1.out'' \<mapsto> ''7''], io_temp = Some ''/tmp/out'',
     io_checker = (\<lambda>_ _ _. ''ok''), io_quote = (\<lambda>s. s)\<rparr>"

definition sample_request :: test_case_request where
  "sample_request = \<lparr>tr_RunCmd = [''./main''],
     tr_TestCase = \<lparr>jtc_TestCaseID = 1, jtc_GroupID = 0, jtc_Ordinal = 1, jtc_InputPath = ''1.in'',
       jtc_OutputPath = ''1.out'', jtc_Score = 50\<rparr>,
     tr_JudgeConfig = \<lparr>jc_CheckerPath = [], jc_CheckerArgs = [], jc_InteractorPath = [],
       jc_CommProcessCount = 0, jc_CommChannels = [], jc_GraderPath = []\<rparr>,
     tr_Limits = no_limits\<rparr>"

definition sample_session :: "ExecStatus \<Rightarrow> string \<Rightarrow> session" where
  "sample_session st out =
     \<lparr>s_Execute = (\<lambda>_. Done (\<lparr>xr_ExitCode = 0, xr_Signal = 0, xr_TimeUsedMs = 12, xr_MemUsedKB = 900,
          xr_Status = st, xr_Message = []\<rparr>, out)),
      s_ExecutePair = (\<lambda>_. Fail []), s_ExecuteGroup = (\<lambda>_. Fail [])\<rparr>"

theorem standard_verdict_witness:
  "\<exists>v. Standard_RunTestCase sample_io sample_request (sample_session ExecTLE ''7'') = Done v \<and>
     v_Status v = StatusTLE \<and> v_Score v = 0"
proof -
  have "\<exists>v. Standard_RunTestCase sample_io sample_request (sample_session ExecTLE ''7'') = Done v \<and>
    (v_Status v = StatusAccepted \<longleftrightarrow> ExecTLE = ExecOK \<and> tokensEqual ''7'' ''7'') \<and>
    v_Score v = (if v_Status v = StatusAccepted then jtc_Score (tr_TestCase sample_request) else 0) \<and>
    (ExecTLE \<noteq> ExecOK \<longrightarrow> v_Status v = execStatusToSubmission ExecTLE) \<and>
    v_TimeUsedMs v = 12 \<and> v_MemUsedKB v = 900"
    using standard_verdict [of sample_request sample_io "''3 4''" "''7''" "sample_session ExecTLE ''7''"
        "\<lparr>xr_ExitCode = 0, xr_Signal = 0, xr_TimeUsedMs = 12, xr_MemUsedKB = 900,
          xr_Status = ExecTLE, xr_Message = []\<rparr>" "''7''"]
    by (simp add: sample_request_def sample_io_def sample_session_def run_contestant_def)
  then show ?thesis by (auto simp: execStatusToSubmission_def)
qed

end
