(* ===== verification/Judger.thy ===== *)
theory Judger
  imports Verdict
begin

text \<open>
  Package \<open>judger\<close>: language configuration (\<open>config.go\<close>), the compile stage (\<open>compiler.go\<close>) and the
  scheduler (\<open>scheduler.go\<close>) that takes a judge task from the queue through test-case prefetch,
  compilation, judging and publication.

  The state is what a task leaves behind: published results, work directories on the host, open
  sandbox sessions. Everything a task talks to is a field of \<open>judger_env\<close>: the sandbox, object
  storage, the test-case cache, the publisher, the clock and the task's context. The session used
  at each stage has its own index, so the same request may behave differently from one test case
  to the next. Calls may return errors or panic; deferred clean-ups run in both cases.
\<close>

section \<open>Language configuration\<close>

record lang_config =
  lc_Language :: Language
  lc_SourceFile :: string
  lc_CompileCmd :: "string list"
  lc_RunCmd :: "string list"
  lc_TimeLimitMultiplier :: rat

fun check_langs :: "lang_config list \<Rightarrow> error + lang_config list" where
  "check_langs [] = Inr []"
| "check_langs (lc # lcs) =
     (if lc_RunCmd lc = [] then Inl ''LoadLangConfigs: language missing run_cmd''
      else case check_langs lcs of
             Inl e \<Rightarrow> Inl e
           | Inr rest \<Rightarrow> Inr ((if lc_TimeLimitMultiplier lc = 0 then lc\<lparr>lc_TimeLimitMultiplier := 1\<rparr> else lc) # rest))"

definition LoadLangConfigs :: "(string \<rightharpoonup> lang_config list payload) \<Rightarrow> string \<Rightarrow> error + lang_config list" where
  "LoadLangConfigs files path =
     (case files path of
        None \<Rightarrow> Inl ''LoadLangConfigs: read''
      | Some data \<Rightarrow> (case decode data of None \<Rightarrow> Inl ''LoadLangConfigs: parse yaml'' | Some langs \<Rightarrow> check_langs langs))"

record judger_config =
  cfg_Workers :: int
  cfg_WorkBaseDir :: string
  cfg_GlobalTimeoutSec :: int
  cfg_GlobalTimeout :: int

definition resolve_timeout :: "judger_config \<Rightarrow> judger_config" where
  "resolve_timeout cfg =
     (let cfg = (if cfg_GlobalTimeout cfg = 0
                 then cfg\<lparr>cfg_GlobalTimeout := wrap64 (cfg_GlobalTimeoutSec cfg * second_ns)\<rparr> else cfg)
      in if cfg_GlobalTimeout cfg = 0 then cfg\<lparr>cfg_GlobalTimeout := 5 * minute_ns\<rparr> else cfg)"

section \<open>Compile stage\<close>

definition compileWallTimeLimitMs :: int where "compileWallTimeLimitMs = 30000"
definition compileMemLimitKB :: int where "compileMemLimitKB = 512 * 1024"
definition compileMaxLogBytes :: nat where "compileMaxLogBytes = 64 * 1024"

record compile_result =
  cr_Success :: bool
  cr_RunCmd :: "string list"
  cr_Log :: string

type_synonym compiler = "Language \<rightharpoonup> lang_config"

definition NewCompiler :: "lang_config list \<Rightarrow> compiler" where
  "NewCompiler cfgs = foldl (\<lambda>m c. m(lc_Language c \<mapsto> c)) Map.empty cfgs"

definition TimeLimitMultiplier :: "compiler \<Rightarrow> Language \<Rightarrow> rat" where
  "TimeLimitMultiplier c lang = (case c lang of None \<Rightarrow> 1 | Some cfg \<Rightarrow> lc_TimeLimitMultiplier cfg)"

fun exec_status_string :: "ExecStatus \<Rightarrow> string" where
  "exec_status_string ExecOK = ''OK''"
| "exec_status_string ExecTLE = ''TLE''"
| "exec_status_string ExecWallTLE = ''WallTLE''"
| "exec_status_string ExecMLE = ''MLE''"
| "exec_status_string ExecRE = ''RE''"
| "exec_status_string ExecSCViol = ''SCViol''"
| "exec_status_string ExecSE = ''SE''"
| "exec_status_string (ExecOther s) = s"

definition truncate_log :: "string \<Rightarrow> string" where
  "truncate_log logText =
     (if length logText > compileMaxLogBytes
      then take compileMaxLogBytes logText @ [CHR 0x0A] @ ''...(output truncated)'' else logText)"

definition Compile ::
  "compiler \<Rightarrow> (string \<Rightarrow> string \<Rightarrow> bool) \<Rightarrow> Language \<Rightarrow> string \<Rightarrow> string \<Rightarrow> session \<Rightarrow> compile_result outcome" where
  "Compile c download lang sourceKey workDir session =
     (case c lang of
        None \<Rightarrow> Fail ''compiler: unsupported language''
      | Some cfg \<Rightarrow>
          if \<not> download sourceKey (path_Join workDir (lc_SourceFile cfg)) then Fail ''compiler: download source''
          else if lc_CompileCmd cfg = [] then
            Done \<lparr>cr_Success = True, cr_RunCmd = lc_RunCmd cfg, cr_Log = []\<rparr>
          else
            (case s_Execute session
               \<lparr>er_Executable = hd (lc_CompileCmd cfg), er_Args = tl (lc_CompileCmd cfg), er_Stdin = None,
                er_Limits = \<lparr>rl_TimeLimitMs = 0, rl_WallTimeLimitMs = compileWallTimeLimitMs,
                  rl_MemLimitKB = compileMemLimitKB, rl_FileSizeKB = 256 * 1024, rl_MaxOpenFiles = 512,
                  rl_MaxChildProcesses = 64\<rparr>\<rparr> of
               Fail e \<Rightarrow> Fail ''compiler: sandbox error''
             | Panic e \<Rightarrow> Panic e
             | Done (result, out) \<Rightarrow>
                 let logText = truncate_log out
                 in if xr_ExitCode result \<noteq> 0 \<or> xr_Status result \<noteq> ExecOK then
                      Done \<lparr>cr_Success = False, cr_RunCmd = [],
                        cr_Log = (if TrimSpace logText = []
                          then ''(compiler produced no output '' @ [CHR 0xE2, CHR 0x80, CHR 0x94] @
                               '' sandbox status '' @ exec_status_string (xr_Status result) @
                               '', exit code '' @ show_int (xr_ExitCode result) @ '': '' @ xr_Message result @ '')''
                          else logText)\<rparr>
                    else Done \<lparr>cr_Success = True, cr_RunCmd = lc_RunCmd cfg, cr_Log = logText\<rparr>))"

section \<open>Scheduler\<close>

record judger_env =
  je_cfg :: judger_config
  je_compiler :: compiler
  je_download :: "string \<Rightarrow> string \<Rightarrow> bool"
  je_registry :: OrchestratorRegistry
  je_io :: judge_io
  je_uuid :: string
  je_mkdir_ok :: bool
  je_removeall_ok :: bool
  je_prepare :: "session_config \<Rightarrow> unit outcome"
  je_session :: "nat \<Rightarrow> session"
  je_ensure :: "ID \<Rightarrow> string outcome"
  je_ctx_err :: "nat \<Rightarrow> bool"
  je_ctx_at_publish :: bool
  je_publish :: "bool \<Rightarrow> result_message \<Rightarrow> bool"
  je_now :: time
  je_nodeID :: string

record judger_state =
  js_published :: "result_message list"
  js_dirs :: "string list"
  js_sessions :: nat

definition maxProcesses :: "JudgeType \<Rightarrow> int" where
  "maxProcesses jt = (case jt of JudgeInteractive \<Rightarrow> 2 | JudgeCommunication \<Rightarrow> 16 | _ \<Rightarrow> 1)"

definition resolvedLimits :: "judge_task \<Rightarrow> resource_limits" where
  "resolvedLimits task =
     \<lparr>rl_TimeLimitMs = jt_TimeLimitMs task,
      rl_WallTimeLimitMs = wrap64 (wrap64 (jt_TimeLimitMs task * 2) + 1000),
      rl_MemLimitKB = jt_MemLimitKB task, rl_FileSizeKB = 64 * 1024, rl_MaxOpenFiles = 32,
      rl_MaxChildProcesses = 1\<rparr>"

definition truncate :: "string \<Rightarrow> nat \<Rightarrow> string" where
  "truncate s maxBytes = (if length s \<le> maxBytes then s else take maxBytes s @ ''...(truncated)'')"

definition base_result :: "judger_env \<Rightarrow> judge_task \<Rightarrow> SubmissionStatus \<Rightarrow> result_message" where
  "base_result env task st =
     \<lparr>rm_TaskID = jt_TaskID task, rm_SubmissionID = jt_SubmissionID task, rm_UserID = jt_UserID task,
      rm_ProblemID = jt_ProblemID task, rm_ContestID = jt_ContestID task, rm_Status = st, rm_Score = 0,
      rm_TimeUsedMs = 0, rm_MemUsedKB = 0, rm_CompileLog = [], rm_JudgeMessage = [],
      rm_TestCaseResults = [], rm_JudgeNodeID = je_nodeID env, rm_JudgedAt = je_now env,
      rm_SubmittedAt = jt_SubmittedAt task\<rparr>"

definition publishResult ::
  "judger_env \<Rightarrow> bool \<Rightarrow> result_message \<Rightarrow> judger_state \<Rightarrow> unit outcome \<times> judger_state" where
  "publishResult env expired r st =
     (if je_publish env expired r then (Done (), st\<lparr>js_published := js_published st @ [r]\<rparr>)
      else (Fail ''publish result'', st))"

definition publishSE ::
  "judger_env \<Rightarrow> judge_task \<Rightarrow> string \<Rightarrow> judger_state \<Rightarrow> unit outcome \<times> judger_state" where
  "publishSE env task msg st =
     publishResult env False ((base_result env task StatusSE)\<lparr>rm_JudgeMessage := msg\<rparr>) st"

definition resolve_path :: "string \<Rightarrow> string \<Rightarrow> string" where
  "resolve_path tcDir p = (if p \<noteq> [] \<and> \<not> IsAbs p then path_Join tcDir p else p)"

definition resolve_case :: "string \<Rightarrow> judge_test_case \<Rightarrow> judge_test_case" where
  "resolve_case tcDir tc =
     tc\<lparr>jtc_InputPath := resolve_path tcDir (jtc_InputPath tc),
        jtc_OutputPath := resolve_path tcDir (jtc_OutputPath tc)\<rparr>"

definition scaled_limit :: "rat \<Rightarrow> int \<Rightarrow> int" where
  "scaled_limit multiplier ms =
     (if multiplier \<noteq> 1 \<and> multiplier > 0 then float_to_int64 (of_int ms * multiplier) else ms)"

fun judge_loop ::
  "judger_env \<Rightarrow> judge_task \<Rightarrow> orchestrator \<Rightarrow> string list \<Rightarrow> nat \<Rightarrow> judge_test_case list \<Rightarrow>
   test_case_result list \<Rightarrow> int \<Rightarrow> int \<Rightarrow> (test_case_result list \<times> int \<times> int) outcome" where
  "judge_loop env task orch runCmd i [] results maxTimeMs maxMemKB = Done (results, maxTimeMs, maxMemKB)"
| "judge_loop env task orch runCmd i (tc # tcs) results maxTimeMs maxMemKB =
     (if je_ctx_err env i then Done (results, maxTimeMs, maxMemKB)
      else case orch (je_io env) \<lparr>tr_RunCmd = runCmd, tr_TestCase = tc,
                  tr_JudgeConfig = jt_JudgeConfig task, tr_Limits = resolvedLimits task\<rparr>
                  (je_session env (i + 1)) of
             Panic e \<Rightarrow> Panic e
           | Fail e \<Rightarrow>
               judge_loop env task orch runCmd (i + 1) tcs
                 (results @ [\<lparr>tcr_TestCaseID = jtc_TestCaseID tc, tcr_GroupID = jtc_GroupID tc,
                    tcr_Status = StatusSE, tcr_TimeUsedMs = 0, tcr_MemUsedKB = 0, tcr_Score = 0,
                    tcr_CheckerOutput = []\<rparr>]) maxTimeMs maxMemKB
           | Done v \<Rightarrow>
               judge_loop env task orch runCmd (i + 1) tcs
                 (results @ [\<lparr>tcr_TestCaseID = jtc_TestCaseID tc, tcr_GroupID = jtc_GroupID tc,
                    tcr_Status = v_Status v, tcr_TimeUsedMs = v_TimeUsedMs v, tcr_MemUsedKB = v_MemUsedKB v,
                    tcr_Score = v_Score v, tcr_CheckerOutput = truncate (v_JudgeMessage v) 4096\<rparr>])
                 (if v_TimeUsedMs v > maxTimeMs then v_TimeUsedMs v else maxTimeMs)
                 (if v_MemUsedKB v > maxMemKB then v_MemUsedKB v else maxMemKB))"

definition judging_stage ::
  "judger_env \<Rightarrow> judge_task \<Rightarrow> compile_result \<Rightarrow> judger_state \<Rightarrow> unit outcome \<times> judger_state" where
  "judging_stage env task compiled st =
     (let task = task\<lparr>jt_TimeLimitMs := scaled_limit (TimeLimitMultiplier (je_compiler env) (jt_Language task))
                        (jt_TimeLimitMs task)\<rparr>
      in case Orchestrator_Get (je_registry env) (jt_JudgeType task) of
           Fail e \<Rightarrow> (Fail e, st)
         | Panic e \<Rightarrow> (Panic e, st)
         | Done orch \<Rightarrow>
             (case judge_loop env task orch (cr_RunCmd compiled) 0 (jt_TestCases task) [] 0 0 of
                Fail e \<Rightarrow> (Fail e, st)
              | Panic e \<Rightarrow> (Panic e, st)
              | Done (tcResults, maxTimeMs, maxMemKB) \<Rightarrow>
                  let (finalStatus, finalScore) = aggregate tcResults (jt_JudgeType task)
                  in publishResult env (je_ctx_at_publish env)
                       ((base_result env task finalStatus)\<lparr>rm_Score := finalScore, rm_TimeUsedMs := maxTimeMs,
                          rm_MemUsedKB := maxMemKB, rm_CompileLog := cr_Log compiled,
                          rm_TestCaseResults := tcResults\<rparr>) st))"

definition session_stages ::
  "judger_env \<Rightarrow> judge_task \<Rightarrow> string \<Rightarrow> judger_state \<Rightarrow> unit outcome \<times> judger_state" where
  "session_stages env task workDir st =
     (case je_ensure env (jt_ProblemID task) of
        Fail e \<Rightarrow> (Fail ''testcase prefetch'', st)
      | Panic e \<Rightarrow> (Panic e, st)
      | Done tcDir \<Rightarrow>
          let task = task\<lparr>jt_TestCases := map (resolve_case tcDir) (jt_TestCases task)\<rparr>
          in case Compile (je_compiler env) (je_download env) (jt_Language task) (jt_SourceCodePath task)
                    workDir (je_session env 0) of
               Fail e \<Rightarrow> (Fail ''compile (SE)'', st)
             | Panic e \<Rightarrow> (Panic e, st)
             | Done compiled \<Rightarrow>
                 if \<not> cr_Success compiled then
                   publishResult env (je_ctx_at_publish env)
                     ((base_result env task StatusCE)\<lparr>rm_CompileLog := cr_Log compiled\<rparr>) st
                 else judging_stage env task compiled st)"

definition runStateMachine :: "judger_env \<Rightarrow> judge_task \<Rightarrow> judger_state \<Rightarrow> unit outcome \<times> judger_state" where
  "runStateMachine env task st =
     (let workDir = path_Join (cfg_WorkBaseDir (je_cfg env)) (je_uuid env);
          remove = (\<lambda>st. if je_removeall_ok env then st\<lparr>js_dirs := remove1 workDir (js_dirs st)\<rparr> else st);
          release = (\<lambda>st. st\<lparr>js_sessions := js_sessions st - 1\<rparr>)
      in if \<not> je_mkdir_ok env then (Fail ''mkdir workdir'', st)
         else
           let st = st\<lparr>js_dirs := workDir # js_dirs st\<rparr>
           in case je_prepare env \<lparr>sc_WorkDir = workDir, sc_ExtraBindMounts = [],
                     sc_MaxProcesses = maxProcesses (jt_JudgeType task), sc_NetworkEnabled = False\<rparr> of
                Fail e \<Rightarrow> (Fail ''sandbox.Prepare'', remove st)
              | Panic e \<Rightarrow> (Panic e, remove st)
              | Done _ \<Rightarrow>
                  let (res, st) = session_stages env task workDir (st\<lparr>js_sessions := js_sessions st + 1\<rparr>)
                  in (res, remove (release st)))"

definition handleMessage ::
  "judger_env \<Rightarrow> judge_task payload \<Rightarrow> judger_state \<Rightarrow> error option \<times> judger_state" where
  "handleMessage env msg st =
     (case decode msg of
        None \<Rightarrow> (None, st)
      | Some task \<Rightarrow>
          (case runStateMachine env task st of
             (Done _, st) \<Rightarrow> (None, st)
           | (Fail e, st) \<Rightarrow> (None, snd (publishSE env task e st))
           | (Panic e, st) \<Rightarrow> (None, snd (publishSE env task (''internal error (panic): '' @ e) st))))"

section \<open>The registry of the judger node\<close>

definition node_registry :: OrchestratorRegistry where
  "node_registry =
     (let r = Orchestrator_Register NewOrchestratorRegistry JudgeStandard Standard_RunTestCase;
          r = Orchestrator_Register r JudgeSpecial Special_RunTestCase;
          r = Orchestrator_Register r JudgeInteractive (Interactive_RunTestCase DefaultVerdictParser)
      in Orchestrator_Register r JudgeCommunication (Comm_RunTestCase DefaultVerdictParser))"

definition final_status :: "SubmissionStatus \<Rightarrow> bool" where
  "final_status s \<longleftrightarrow> s \<in> {StatusSE, StatusTLE, StatusMLE, StatusRE, StatusWrongAnswer, StatusAccepted}"

lemma execStatus_final [simp]: "final_status (execStatusToSubmission s)"
  by (cases s) (simp_all add: execStatusToSubmission_def final_status_def)

lemma checker_final: "final_status (v_Status (parseCheckerOutput stderr result))"
  by (simp add: parseCheckerOutput_def Let_def final_status_def)

lemma parser_final: "final_status (v_Status (DefaultVerdictParser stderr result))"
  by (cases "xr_Status result") (simp_all add: DefaultVerdictParser_def Let_def final_status_def)

lemma standard_final:
  "Standard_RunTestCase io req session = Done v \<Longrightarrow> final_status (v_Status v)"
  by (auto simp: Standard_RunTestCase_def failed_verdict_def final_status_def [of StatusAccepted]
      final_status_def [of StatusWrongAnswer] split: if_splits option.splits outcome.splits)

lemma special_final:
  "Special_RunTestCase io req session = Done v \<Longrightarrow> final_status (v_Status v)"
  by (auto simp: Special_RunTestCase_def failed_verdict_def checker_final Let_def
      split: if_splits option.splits outcome.splits)

lemma interactive_final:
  "Interactive_RunTestCase DefaultVerdictParser io req session = Done v \<Longrightarrow> final_status (v_Status v)"
  by (auto simp: Interactive_RunTestCase_def parser_final split: if_splits option.splits outcome.splits)

lemma outcome_bind_Done: "outcome_bind x f = Done y \<longleftrightarrow> (\<exists>z. x = Done z \<and> f z = Done y)"
  by (cases x) auto

lemma comm_final:
  "Comm_RunTestCase DefaultVerdictParser io req session = Done v \<Longrightarrow> final_status (v_Status v)"
  by (auto simp: Comm_RunTestCase_def parser_final Let_def outcome_bind_Done
      split: if_splits outcome.splits)

lemma node_registry_final:
  assumes "node_registry jt = Some orch" and "orch io req session = Done v"
  shows "final_status (v_Status v)"
    and "jt \<in> {JudgeStandard, JudgeSpecial, JudgeInteractive, JudgeCommunication}"
  using assms standard_final special_final interactive_final comm_final
  by (auto simp: node_registry_def Orchestrator_Register_def NewOrchestratorRegistry_def Let_def
      split: if_splits)

lemma node_registry_types:
  "node_registry jt = Some orch \<Longrightarrow> jt \<in> {JudgeStandard, JudgeSpecial, JudgeInteractive, JudgeCommunication}"
  by (auto simp: node_registry_def Orchestrator_Register_def NewOrchestratorRegistry_def Let_def
      split: if_splits)

lemma judge_loop_results:
  assumes "judge_loop env task orch runCmd i tcs results t m = Done (rs, t', m')"
    and "\<And>io req s v. orch io req s = Done v \<Longrightarrow> final_status (v_Status v)"
    and "\<forall>r \<in> set results. final_status (tcr_Status r)"
  shows "(\<forall>r \<in> set rs. final_status (tcr_Status r)) \<and>
    (\<exists>n \<le> length tcs. map tcr_TestCaseID rs =
        map tcr_TestCaseID results @ map jtc_TestCaseID (take n tcs) \<and>
      (n < length tcs \<longrightarrow> (\<exists>j. je_ctx_err env j)))"
  using assms
proof (induction env task orch runCmd i tcs results t m rule: judge_loop.induct)
  case (2 env task orch runCmd i tc tcs results t m)
  let ?run = "orch (je_io env) \<lparr>tr_RunCmd = runCmd, tr_TestCase = tc, tr_JudgeConfig = jt_JudgeConfig task,
      tr_Limits = resolvedLimits task\<rparr> (je_session env (i + 1))"
  show ?case
  proof (cases "je_ctx_err env i")
    case True
    then show ?thesis using "2.prems" by (intro conjI exI [of _ 0]) auto
  next
    case False
    then obtain r where r: "final_status (tcr_Status r)" "tcr_TestCaseID r = jtc_TestCaseID tc"
      and rest: "(\<forall>r' \<in> set rs. final_status (tcr_Status r')) \<and>
        (\<exists>n \<le> length tcs. map tcr_TestCaseID rs =
          map tcr_TestCaseID (results @ [r]) @ map jtc_TestCaseID (take n tcs) \<and>
          (n < length tcs \<longrightarrow> (\<exists>j. je_ctx_err env j)))"
    proof (cases ?run)
      case (Done v)
      show ?thesis
        by (rule that [OF _ _ "2.IH"(1) [OF False Done]]) (use "2.prems" False Done in auto)
    next
      case (Fail e)
      show ?thesis
        by (rule that [OF _ _ "2.IH"(2) [OF False Fail]])
           (use "2.prems" False Fail in \<open>auto simp: final_status_def\<close>)
    qed (use "2.prems" False in auto)
    then obtain n where "n \<le> length tcs" "map tcr_TestCaseID rs =
        map tcr_TestCaseID (results @ [r]) @ map jtc_TestCaseID (take n tcs)"
        "n < length tcs \<longrightarrow> (\<exists>j. je_ctx_err env j)" by blast
    with rest r show ?thesis by (intro conjI exI [of _ "Suc n"]) auto
  qed
qed auto

section \<open>What a stage publishes\<close>

definition reports :: "judge_task \<Rightarrow> result_message \<Rightarrow> bool" where
  "reports task r \<longleftrightarrow> rm_TaskID r = jt_TaskID task \<and> rm_SubmissionID r = jt_SubmissionID task \<and>
     rm_UserID r = jt_UserID task \<and> rm_ProblemID r = jt_ProblemID task \<and>
     rm_ContestID r = jt_ContestID task \<and> rm_SubmittedAt r = jt_SubmittedAt task"

text \<open>
  An accepted result is backed by the task when it covers all of its test cases, at least one, and
  each of them was accepted.
\<close>

definition backed :: "judge_task \<Rightarrow> result_message \<Rightarrow> bool" where
  "backed task r \<longleftrightarrow> (rm_Status r = StatusAccepted \<longrightarrow>
     rm_TestCaseResults r \<noteq> [] \<and>
     map tcr_TestCaseID (rm_TestCaseResults r) = map jtc_TestCaseID (jt_TestCases task) \<and>
     (\<forall>t \<in> set (rm_TestCaseResults r). tcr_Status t = StatusAccepted))"

definition stage_ok :: "judge_task \<Rightarrow> (result_message \<Rightarrow> bool) \<Rightarrow> judger_state \<Rightarrow> unit outcome \<times> judger_state \<Rightarrow> bool" where
  "stage_ok task P st out =
     (case fst out of
        Done _ \<Rightarrow> \<exists>r. reports task r \<and> P r \<and> snd out = st\<lparr>js_published := js_published st @ [r]\<rparr>
      | _ \<Rightarrow> snd out = st)"

lemma stage_ok_errors [simp]: "stage_ok task P st (Fail e, st)" "stage_ok task P st (Panic e, st)"
  by (simp_all add: stage_ok_def)

lemma stage_ok_publish:
  "reports task r \<Longrightarrow> (je_publish env b r \<Longrightarrow> P r) \<Longrightarrow> stage_ok task P st (publishResult env b r st)"
  by (auto simp: stage_ok_def publishResult_def)

definition deadline_respected :: "judger_env \<Rightarrow> bool" where
  "deadline_respected env \<longleftrightarrow> (\<forall>r. \<not> je_publish env True r) \<and>
     ((\<exists>i. je_ctx_err env i) \<longrightarrow> je_ctx_at_publish env)"

lemma aggregate_accepted:
  assumes "fst (aggregate rs jt) = StatusAccepted" and "\<forall>r \<in> set rs. final_status (tcr_Status r)"
  shows "rs \<noteq> [] \<and> (\<forall>r \<in> set rs. tcr_Status r = StatusAccepted)"
proof
  show ne: "rs \<noteq> []" using assms(1) by (auto simp: aggregate_def)
  show "\<forall>r \<in> set rs. tcr_Status r = StatusAccepted"
  proof
    fix r assume r: "r \<in> set rs"
    then have "priority (tcr_Status r) \<le> priority StatusAccepted"
      using aggregate_results_worst [of _ rs StatusAccepted 0] assms(1) ne
      by (metis aggregate_def)
    then show "tcr_Status r = StatusAccepted"
      using assms(2) r by (auto simp: priority_def final_status_def)
  qed
qed

lemma judging_stage_ok:
  "stage_ok task (\<lambda>r. deadline_respected env \<and> je_registry env = node_registry \<longrightarrow> backed task r) st
     (judging_stage env task compiled st)"
proof -
  let ?task = "task\<lparr>jt_TimeLimitMs := scaled_limit (TimeLimitMultiplier (je_compiler env) (jt_Language task))
      (jt_TimeLimitMs task)\<rparr>"
  show ?thesis
  proof (cases "je_registry env (jt_JudgeType task)")
    case None
    then show ?thesis by (simp add: judging_stage_def Orchestrator_Get_def)
  next
    case orch: (Some orch)
    show ?thesis
    proof (cases "judge_loop env ?task orch (cr_RunCmd compiled) 0 (jt_TestCases task) [] 0 0")
      case (Done x)
      obtain rs t m where x: "x = (rs, t, m)" by (cases x)
      obtain status score where agg: "aggregate rs (jt_JudgeType task) = (status, score)" by fastforce
      let ?r = "(base_result env ?task status)\<lparr>rm_Score := score, rm_TimeUsedMs := t,
          rm_MemUsedKB := m, rm_CompileLog := cr_Log compiled, rm_TestCaseResults := rs\<rparr>"
      have "backed task ?r"
        if "je_publish env (je_ctx_at_publish env) ?r" "deadline_respected env" "je_registry env = node_registry"
      proof -
        have final: "\<And>io req s v. orch io req s = Done v \<Longrightarrow> final_status (v_Status v)"
          using node_registry_final orch that(3) by metis
        have "\<not> je_ctx_at_publish env" using that(1,2) by (cases "je_ctx_at_publish env") (auto simp: deadline_respected_def)
        then have "\<And>i. \<not> je_ctx_err env i" using that(2) by (auto simp: deadline_respected_def)
        then have "(\<forall>r \<in> set rs. final_status (tcr_Status r)) \<and>
            map tcr_TestCaseID rs = map jtc_TestCaseID (jt_TestCases task)"
          using judge_loop_results [OF Done [unfolded x] final] by fastforce
        then show ?thesis
          using aggregate_accepted [of rs "jt_JudgeType task"] agg by (simp add: backed_def base_result_def)
      qed
      moreover have "reports task ?r" by (simp add: reports_def base_result_def)
      moreover have "judging_stage env task compiled st = publishResult env (je_ctx_at_publish env) ?r st"
        using Done by (simp add: judging_stage_def Orchestrator_Get_def orch x agg)
      ultimately show ?thesis by (simp add: stage_ok_publish)
    qed (simp_all add: judging_stage_def Orchestrator_Get_def orch)
  qed
qed

lemma stage_ok_task:
  "stage_ok task P st out \<Longrightarrow> (\<And>r. reports task r \<Longrightarrow> reports task' r) \<Longrightarrow> (\<And>r. P r \<Longrightarrow> Q r) \<Longrightarrow>
   stage_ok task' Q st out"
  by (auto simp: stage_ok_def split: outcome.splits)

lemma session_stages_ok:
  "stage_ok task (\<lambda>r. deadline_respected env \<and> je_registry env = node_registry \<longrightarrow> backed task r) st
     (session_stages env task workDir st)"
proof (cases "je_ensure env (jt_ProblemID task)")
  case (Done tcDir)
  let ?task = "task\<lparr>jt_TestCases := map (resolve_case tcDir) (jt_TestCases task)\<rparr>"
  have ids: "map jtc_TestCaseID (map (resolve_case tcDir) tcs) = map jtc_TestCaseID tcs" for tcs
    by (simp add: resolve_case_def)
  have stage: "stage_ok task (\<lambda>r. deadline_respected env \<and> je_registry env = node_registry \<longrightarrow> backed task r) st
      (judging_stage env ?task compiled st)" for compiled
    by (rule stage_ok_task [OF judging_stage_ok])
       (use ids in \<open>auto simp: reports_def backed_def\<close>)
  have ce: "stage_ok task (\<lambda>r. deadline_respected env \<and> je_registry env = node_registry \<longrightarrow> backed task r) st
      (publishResult env b ((base_result env ?task StatusCE)\<lparr>rm_CompileLog := l\<rparr>) st)" for b l
    by (rule stage_ok_publish) (simp_all add: reports_def base_result_def backed_def)
  show ?thesis
    using stage ce Done by (simp add: session_stages_def Let_def split: outcome.split)
qed (simp_all add: session_stages_def)

lemma runStateMachine_ok:
  assumes "runStateMachine env task st = (res, st')"
  shows "js_sessions st' = js_sessions st" and "je_removeall_ok env \<Longrightarrow> js_dirs st' = js_dirs st"
    and "case res of
        Done _ \<Rightarrow> \<exists>r. reports task r \<and> (deadline_respected env \<and> je_registry env = node_registry \<longrightarrow> backed task r) \<and>
          js_published st' = js_published st @ [r]
      | _ \<Rightarrow> js_published st' = js_published st"
proof -
  let ?dir = "path_Join (cfg_WorkBaseDir (je_cfg env)) (je_uuid env)"
  let ?st = "st\<lparr>js_dirs := ?dir # js_dirs st, js_sessions := js_sessions st + 1\<rparr>"
  note ok = session_stages_ok [of task env ?st ?dir]
  obtain res' st'' where run: "session_stages env task ?dir ?st = (res', st'')" by fastforce
  have mid: "js_sessions st'' = js_sessions st + 1" "js_dirs st'' = ?dir # js_dirs st"
    using ok run by (auto simp: stage_ok_def split: outcome.splits)
  show "js_sessions st' = js_sessions st" "je_removeall_ok env \<Longrightarrow> js_dirs st' = js_dirs st"
    using assms run mid
    by (auto simp: runStateMachine_def Let_def split: if_splits outcome.splits)
  show "case res of
        Done _ \<Rightarrow> \<exists>r. reports task r \<and> (deadline_respected env \<and> je_registry env = node_registry \<longrightarrow> backed task r) \<and>
          js_published st' = js_published st @ [r]
      | _ \<Rightarrow> js_published st' = js_published st"
    using assms run ok
    by (auto simp: runStateMachine_def stage_ok_def Let_def split: if_splits outcome.splits)
qed

lemma handleMessage_reports:
  assumes "decode msg = Some task"
  shows "\<exists>new. js_published (snd (handleMessage env msg st)) = js_published st @ new \<and>
    length new \<le> 1 \<and> (\<forall>r \<in> set new. reports task r) \<and> ((\<forall>r. je_publish env False r) \<longrightarrow> length new = 1)"
proof -
  obtain res st' where run: "runStateMachine env task st = (res, st')" by fastforce
  note ok = runStateMachine_ok(3) [OF run]
  have se: "reports task ((base_result env task StatusSE)\<lparr>rm_JudgeMessage := m\<rparr>)" for m
    by (simp add: reports_def base_result_def)
  show ?thesis
    using assms ok se by (cases res) (auto simp: handleMessage_def run publishSE_def publishResult_def)
qed

lemma accepted_backed:
  assumes "decode msg = Some task" and "deadline_respected env" and "je_registry env = node_registry"
    and "js_published (snd (handleMessage env msg st)) = js_published st @ new" and "r \<in> set new"
  shows "backed task r"
proof -
  obtain res st' where run: "runStateMachine env task st = (res, st')" by fastforce
  note ok = runStateMachine_ok(3) [OF run]
  have se: "backed task ((base_result env task StatusSE)\<lparr>rm_JudgeMessage := m\<rparr>)" for m
    by (simp add: backed_def base_result_def)
  show ?thesis
    using assms ok se
    by (cases res) (auto simp: handleMessage_def run publishSE_def publishResult_def split: if_splits)
qed

section \<open>Properties\<close>

text \<open>
  C22: every task message is acknowledged and leaves nothing behind: the session is released and the
  work directory removed on every path, through errors and panics of the sandbox, the compiler or
  an orchestrator. At most one result is published for it, carrying the identity and submission
  time of the task, and exactly one if the publisher accepts messages outside the task's deadline.
\<close>

theorem judge_one_result:
  assumes "decode msg = Some task" and "je_removeall_ok env"
  shows "fst (handleMessage env msg st) = None \<and>
    js_sessions (snd (handleMessage env msg st)) = js_sessions st \<and>
    js_dirs (snd (handleMessage env msg st)) = js_dirs st \<and>
    (\<exists>new. js_published (snd (handleMessage env msg st)) = js_published st @ new \<and>
       length new \<le> 1 \<and> (\<forall>r \<in> set new. reports task r) \<and>
       ((\<forall>r. je_publish env False r) \<longrightarrow> length new = 1))"
proof -
  obtain res st' where run: "runStateMachine env task st = (res, st')" by fastforce
  note ok = runStateMachine_ok(1,2) [OF run]
  have "fst (handleMessage env msg st) = None \<and> js_sessions (snd (handleMessage env msg st)) = js_sessions st \<and>
    js_dirs (snd (handleMessage env msg st)) = js_dirs st"
    using assms ok by (cases res) (auto simp: handleMessage_def run publishSE_def publishResult_def)
  then show ?thesis using handleMessage_reports [OF assms(1)] by simp
qed

definition sample_task :: judge_task where
  "sample_task = \<lparr>jt_TaskID = ''t1'', jt_SubmissionID = 9, jt_UserID = 7, jt_ProblemID = 1,
     jt_ContestID = Some 5, jt_SubmittedAt = 1000, jt_Language = LangCPP17, jt_SourceCodePath = ''s/9.cpp'',
     jt_JudgeType = JudgeStandard,
     jt_JudgeConfig = tr_JudgeConfig sample_request, jt_TimeLimitMs = 1000, jt_MemLimitKB = 65536,
     jt_TestCases = [tr_TestCase sample_request], jt_Priority = 0\<rparr>"

definition sample_judger :: judger_env where
  "sample_judger = \<lparr>je_cfg = \<lparr>cfg_Workers = 1, cfg_WorkBaseDir = ''/tmp/oj'', cfg_GlobalTimeoutSec = 60,
       cfg_GlobalTimeout = 0\<rparr>,
     je_compiler = NewCompiler [\<lparr>lc_Language = LangCPP17, lc_SourceFile = ''main.cpp'', lc_CompileCmd = [],
       lc_RunCmd = [''./main''], lc_TimeLimitMultiplier = 1\<rparr>],
     je_download = (\<lambda>_ _. True), je_registry = node_registry, je_io = sample_io\<lparr>io_files := (\<lambda>_. Some ''7'')\<rparr>, je_uuid = ''u1'',
     je_mkdir_ok = True, je_removeall_ok = True, je_prepare = (\<lambda>_. Done ()),
     je_session = (\<lambda>_. sample_session ExecOK ''7''), je_ensure = (\<lambda>_. Done []),
     je_ctx_err = (\<lambda>_. False), je_ctx_at_publish = False, je_publish = (\<lambda>expired _. \<not> expired),
     je_now = 2000, je_nodeID = ''node-1''\<rparr>"

definition idle_judger :: judger_state where
  "idle_judger = \<lparr>js_published = [], js_dirs = [], js_sessions = 0\<rparr>"

theorem judge_one_result_witness:
  "\<exists>r. js_published (snd (handleMessage sample_judger (Encoded sample_task) idle_judger)) = [r] \<and>
     reports sample_task r"
proof -
  have "je_removeall_ok sample_judger" "\<forall>r. je_publish sample_judger False r"
    by (simp_all add: sample_judger_def)
  then obtain new where "js_published (snd (handleMessage sample_judger (Encoded sample_task) idle_judger)) = new"
    "length new = 1" "\<forall>r \<in> set new. reports sample_task r"
    using judge_one_result [of "Encoded sample_task" sample_task sample_judger idle_judger]
    by (auto simp: idle_judger_def)
  then show ?thesis by (cases new) auto
qed

text \<open>
  C21: a published verdict \<open>Accepted\<close> is never the result of a partial run. It lists every test case
  of the task, each of them accepted, even though judging stops early when the task's deadline
  passes: the shortened result is then refused by the publisher, whose calls fail once their
  context has expired.
\<close>

theorem accepted_result_backed:
  assumes "decode msg = Some task" and "deadline_respected env" and "je_registry env = node_registry"
    and "js_published (snd (handleMessage env msg st)) = js_published st @ new" and "r \<in> set new"
  shows "backed task r"
  using assms by (rule accepted_backed)

theorem accepted_result_backed_witness:
  "map rm_Status (js_published (snd (handleMessage sample_judger (Encoded sample_task) idle_judger))) =
     [StatusAccepted] \<and>
   list_all (backed sample_task)
     (js_published (snd (handleMessage sample_judger (Encoded sample_task) idle_judger)))"
proof
  show "map rm_Status (js_published (snd (handleMessage sample_judger (Encoded sample_task) idle_judger))) =
     [StatusAccepted]"
    by (simp add: handleMessage_def runStateMachine_def session_stages_def judging_stage_def Compile_def
        sample_judger_def sample_task_def sample_request_def idle_judger_def NewCompiler_def
        Orchestrator_Get_def node_registry_def Orchestrator_Register_def NewOrchestratorRegistry_def
        Standard_RunTestCase_def run_contestant_def sample_session_def sample_io_def tokensEqual_iff
        aggregate_def priority_def publishResult_def base_result_def Let_def)
  have "deadline_respected sample_judger" "je_registry sample_judger = node_registry"
    by (simp_all add: deadline_respected_def sample_judger_def)
  then show "list_all (backed sample_task)
      (js_published (snd (handleMessage sample_judger (Encoded sample_task) idle_judger)))"
    using accepted_result_backed [of "Encoded sample_task" sample_task sample_judger idle_judger]
    by (simp add: idle_judger_def list_all_iff)
qed

end
