(* ===== verification/Testcase_Cache.thy ===== *)
theory Testcase_Cache
  imports Judger
begin

text \<open>
  Package \<open>judger\<close>, file \<open>testcase_cache.go\<close>: the judger node's cache of extracted test-case
  directories, with ETag validation, coalesced refreshes, LRU eviction, start-up pruning and zip
  extraction.

  The list elements of \<open>container/list\<close> are numbered, so \<open>index\<close> maps a problem to an element the
  way the code's map of pointers does. The disk is a map from directories to the contents of their
  \<open>.etag\<close> file (empty when the file is missing). \<open>evictIfNeeded\<close> deletes directories in goroutines of
  their own; a deletion that has been started but not carried out is in \<open>tc_removing\<close>.
\<close>

section \<open>State\<close>

definition etagTTL :: int where "etagTTL = 5 * minute_ns"
definition maxZipEntryBytes :: nat where "maxZipEntryBytes = 512 * 1024 * 1024"
definition defaultMaxEntries :: int where "defaultMaxEntries = 200"

definition TestcaseZipKey :: "ID \<Rightarrow> string" where
  "TestcaseZipKey problemID = ''testcases/'' @ show_int problemID @ ''/data.zip''"

definition testcaseLocalDir :: "string \<Rightarrow> ID \<Rightarrow> string" where
  "testcaseLocalDir baseDir problemID = path_Join baseDir (show_int problemID)"

record tc_entry =
  te_problemID :: ID
  te_localDir :: string
  te_etag :: string
  te_validatedAt :: time

record tc_cache =
  tc_baseDir :: string
  tc_maxEntries :: int
  tc_lru :: "(nat \<times> tc_entry) list"
  tc_index :: "ID \<rightharpoonup> nat"
  tc_inProgress :: "ID list"
  tc_slots :: "ID \<rightharpoonup> error + string"
  tc_next :: nat
  tc_disk :: "string \<rightharpoonup> string"
  tc_removing :: "string list"

definition NewTestcaseCache :: "string \<Rightarrow> int \<Rightarrow> (string \<rightharpoonup> string) \<Rightarrow> tc_cache" where
  "NewTestcaseCache baseDir maxEntries disk =
     \<lparr>tc_baseDir = baseDir, tc_maxEntries = (if maxEntries \<le> 0 then defaultMaxEntries else maxEntries),
      tc_lru = [], tc_index = Map.empty, tc_inProgress = [], tc_slots = Map.empty,
      tc_next = 0, tc_disk = disk, tc_removing = []\<rparr>"

definition readETagFile :: "(string \<rightharpoonup> string) \<Rightarrow> string \<Rightarrow> string" where
  "readETagFile disk dir = (case disk dir of None \<Rightarrow> [] | Some b \<Rightarrow> TrimSpace b)"

definition MoveToFront :: "nat \<Rightarrow> (nat \<times> tc_entry) list \<Rightarrow> (nat \<times> tc_entry) list" where
  "MoveToFront k l = filter (\<lambda>x. fst x = k) l @ filter (\<lambda>x. fst x \<noteq> k) l"

definition upd_elem :: "nat \<Rightarrow> (tc_entry \<Rightarrow> tc_entry) \<Rightarrow> (nat \<times> tc_entry) list \<Rightarrow> (nat \<times> tc_entry) list" where
  "upd_elem k f l = map (\<lambda>x. if fst x = k then (k, f (snd x)) else x) l"

section \<open>Eviction\<close>

function evictIfNeeded :: "tc_cache \<Rightarrow> tc_cache" where
  "evictIfNeeded c =
     (if int (length (tc_lru c)) > tc_maxEntries c \<and> tc_lru c \<noteq> [] then
        let e = snd (last (tc_lru c))
        in evictIfNeeded (c\<lparr>tc_lru := butlast (tc_lru c), tc_index := (tc_index c)(te_problemID e := None),
                            tc_removing := tc_removing c @ [te_localDir e]\<rparr>)
      else c)"
  by pat_completeness auto
termination
  by (relation "measure (\<lambda>c. length (tc_lru c))") auto

declare evictIfNeeded.simps [simp del]

definition promoteEntry :: "time \<Rightarrow> ID \<Rightarrow> string \<Rightarrow> tc_cache \<Rightarrow> tc_cache" where
  "promoteEntry now problemID localDir c =
     (let etag = readETagFile (tc_disk c) localDir
      in case tc_index c problemID of
           Some k \<Rightarrow> c\<lparr>tc_lru := MoveToFront k (upd_elem k
                         (\<lambda>e. e\<lparr>te_etag := etag, te_validatedAt := now\<rparr>) (tc_lru c))\<rparr>
         | None \<Rightarrow> evictIfNeeded (c\<lparr>
             tc_lru := (tc_next c, \<lparr>te_problemID = problemID, te_localDir = localDir, te_etag = etag,
                          te_validatedAt = now\<rparr>) # tc_lru c,
             tc_index := (tc_index c)(problemID \<mapsto> tc_next c),
             tc_next := tc_next c + 1\<rparr>))"

section \<open>Zip extraction\<close>

record zip_file =
  zf_Name :: string
  zf_IsDir :: bool
  zf_size :: nat
  zf_mkdir_ok :: bool
  zf_open_ok :: bool
  zf_create_ok :: bool
  zf_copy_ok :: bool

definition extractZipEntry :: "zip_file \<Rightarrow> error option \<times> bool" where
  "extractZipEntry f =
     (if \<not> zf_open_ok f then (Some ''open zip entry'', False)
      else if \<not> zf_create_ok f then (Some ''create'', False)
      else if \<not> zf_copy_ok f then (Some ''extract'', True)
      else if min (zf_size f) maxZipEntryBytes = maxZipEntryBytes then (Some ''zip entry exceeds limit'', True)
      else (None, True))"

text \<open>Returns the error, if any, and the paths at which files were created.\<close>

fun extract_loop :: "string \<Rightarrow> zip_file list \<Rightarrow> error option \<times> string list" where
  "extract_loop destDir [] = (None, [])"
| "extract_loop destDir (f # fs) =
     (if zf_IsDir f then extract_loop destDir fs
      else
        let destPath = path_Join (path_Clean destDir) (zf_Name f)
        in if \<not> HasPrefix destPath destDir then (Some ''zip slip rejected'', [])
           else if \<not> zf_mkdir_ok f then (Some ''mkdir'', [])
           else case extractZipEntry f of
                  (Some e, created) \<Rightarrow> (Some e, if created then [destPath] else [])
                | (None, _) \<Rightarrow> apsnd ((#) destPath) (extract_loop destDir fs))"

definition extractZip :: "zip_file list option \<Rightarrow> string \<Rightarrow> error option \<times> string list" where
  "extractZip archive destDir =
     (case archive of
        None \<Rightarrow> (Some ''open zip'', [])
      | Some files \<Rightarrow> extract_loop (path_Clean destDir @ ''/'') files)"

section \<open>Refresh\<close>

datatype stat_result = StatETag string | StatNotFound | StatError

record tc_env =
  tv_now :: time
  tv_stat :: "string \<Rightarrow> stat_result"
  tv_mkdir_base_ok :: bool
  tv_get_ok :: bool
  tv_mkdir_stage_ok :: bool
  tv_zip :: "zip_file list option"
  tv_write_etag_ok :: bool
  tv_rename_ok :: bool

definition downloadAndExtract :: "tc_env \<Rightarrow> string \<Rightarrow> string \<Rightarrow> tc_cache \<Rightarrow> error option \<times> tc_cache" where
  "downloadAndExtract env localDir etag c =
     (let tmpDir = localDir @ ''.tmp''; disk = tc_disk c
      in if \<not> tv_mkdir_base_ok env then (Some ''mkdir testcase base dir'', c)
         else if \<not> tv_get_ok env then (Some ''download testcase zip'', c)
         else if \<not> tv_mkdir_stage_ok env then (Some ''mkdir staging dir'', c\<lparr>tc_disk := disk(tmpDir := None)\<rparr>)
         else if fst (extractZip (tv_zip env) tmpDir) \<noteq> None then
           (Some ''extract testcase zip'', c\<lparr>tc_disk := disk(tmpDir := None)\<rparr>)
         else if \<not> tv_write_etag_ok env then (Some ''write .etag file'', c\<lparr>tc_disk := disk(tmpDir := None)\<rparr>)
         else if \<not> tv_rename_ok env then
           (Some ''rename staging dir'', c\<lparr>tc_disk := disk(localDir := None, tmpDir := None)\<rparr>)
         else (None, c\<lparr>tc_disk := disk(tmpDir := None, localDir \<mapsto> etag)\<rparr>))"

definition refresh :: "tc_env \<Rightarrow> ID \<Rightarrow> tc_cache \<Rightarrow> (error + string) \<times> tc_cache" where
  "refresh env problemID c =
     (let localDir = testcaseLocalDir (tc_baseDir c) problemID
      in case tv_stat env (TestcaseZipKey problemID) of
           StatNotFound \<Rightarrow> (Inl ''no testcase zip for problem'', c)
         | StatError \<Rightarrow> (Inl ''stat testcase zip'', c)
         | StatETag remoteETag \<Rightarrow>
             let localETag = readETagFile (tc_disk c) localDir
             in if localETag \<noteq> [] \<and> localETag = remoteETag then
                  (Inr localDir,
                   case tc_index c problemID of
                     None \<Rightarrow> c
                   | Some k \<Rightarrow> c\<lparr>tc_lru := MoveToFront k (upd_elem k (\<lambda>e. e\<lparr>te_validatedAt := tv_now env\<rparr>) (tc_lru c))\<rparr>)
                else
                  (case downloadAndExtract env localDir remoteETag c of
                     (Some err, c) \<Rightarrow> (Inl err, c)
                   | (None, c) \<Rightarrow> (Inr localDir, c)))"

section \<open>EnsureTestcases\<close>

text \<open>
  A call to \<open>EnsureTestcases\<close> holds the mutex twice: once to look the problem up, and once, if it
  became the downloader, to store the outcome. The first part returns the directory, joins a
  refresh in progress, or starts one.
\<close>

datatype ensure_start = Hit string | Wait | Download

definition ensure_begin :: "time \<Rightarrow> ID \<Rightarrow> tc_cache \<Rightarrow> ensure_start \<times> tc_cache" where
  "ensure_begin now problemID c =
     (let miss = (if problemID \<in> set (tc_inProgress c) then (Wait, c)
                  else (Download, c\<lparr>tc_inProgress := problemID # tc_inProgress c\<rparr>))
      in case tc_index c problemID of
           None \<Rightarrow> miss
         | Some k \<Rightarrow>
             (case map_of (tc_lru c) k of
                None \<Rightarrow> miss
              | Some e \<Rightarrow> if time_Sub now (te_validatedAt e) < etagTTL
                          then (Hit (te_localDir e), c\<lparr>tc_lru := MoveToFront k (tc_lru c)\<rparr>) else miss))"

definition ensure_refresh :: "tc_env \<Rightarrow> ID \<Rightarrow> tc_cache \<Rightarrow> tc_cache" where
  "ensure_refresh env problemID c =
     (case refresh env problemID c of
        (res, c) \<Rightarrow> c\<lparr>tc_slots := (tc_slots c)(problemID \<mapsto> res)\<rparr>)"

definition ensure_store :: "time \<Rightarrow> ID \<Rightarrow> error + string \<Rightarrow> tc_cache \<Rightarrow> tc_cache" where
  "ensure_store now problemID res c =
     (let c = c\<lparr>tc_inProgress := remove1 problemID (tc_inProgress c),
                tc_slots := (tc_slots c)(problemID := None)\<rparr>
      in case res of
           Inl _ \<Rightarrow> c
         | Inr dir \<Rightarrow> promoteEntry now problemID dir c)"

text \<open>
  A call that runs without interference; \<open>None\<close> when it blocks on the refresh of another caller.
\<close>

definition EnsureTestcases :: "tc_env \<Rightarrow> ID \<Rightarrow> tc_cache \<Rightarrow> ((error + string) \<times> tc_cache) option" where
  "EnsureTestcases env problemID c =
     (case ensure_begin (tv_now env) problemID c of
        (Hit dir, c) \<Rightarrow> Some (Inr dir, c)
      | (Wait, c) \<Rightarrow> None
      | (Download, c) \<Rightarrow>
          (case refresh env problemID c of
             (res, c) \<Rightarrow> Some (res, ensure_store (tv_now env) problemID res c)))"

section \<open>Pruning at start-up\<close>

record dir_entry =
  de_Name :: string
  de_IsDir :: bool
  de_ModTime :: "time option"

fun prune_dirs :: "string \<Rightarrow> dir_entry list \<Rightarrow> (ID \<times> time \<times> string) list" where
  "prune_dirs base [] = []"
| "prune_dirs base (de # des) =
     (if \<not> de_IsDir de \<or> HasPrefix (de_Name de) ''.'' then prune_dirs base des
      else case parse_int (de_Name de) of
             None \<Rightarrow> prune_dirs base des
           | Some pid \<Rightarrow>
               (case de_ModTime de of
                  None \<Rightarrow> prune_dirs base des
                | Some t \<Rightarrow> (pid, t, path_Join base (de_Name de)) # prune_dirs base des))"

fun prune_loop :: "(ID \<times> time \<times> string) list \<Rightarrow> tc_cache \<Rightarrow> tc_cache" where
  "prune_loop [] c = c"
| "prune_loop ((pid, t, path) # ds) c =
     prune_loop ds (c\<lparr>
       tc_lru := tc_lru c @ [(tc_next c, \<lparr>te_problemID = pid, te_localDir = path,
                    te_etag = readETagFile (tc_disk c) path, te_validatedAt = 0\<rparr>)],
       tc_index := (tc_index c)(pid \<mapsto> tc_next c),
       tc_next := tc_next c + 1\<rparr>)"

definition Prune :: "dir_entry list option \<Rightarrow> tc_cache \<Rightarrow> tc_cache" where
  "Prune listing c =
     (case listing of
        None \<Rightarrow> c
      | Some entries \<Rightarrow>
          evictIfNeeded (prune_loop
            (sort_slice (\<lambda>a b. After (fst (snd a)) (fst (snd b))) (prune_dirs (tc_baseDir c) entries)) c))"

section \<open>Interleavings\<close>

text \<open>
  The directories the cache itself creates have the decimal form of the problem number as their
  name. A node starts on a fresh cache, possibly after pruning such directories.
\<close>

definition canonical_listing :: "dir_entry list \<Rightarrow> bool" where
  "canonical_listing entries \<longleftrightarrow> distinct (map de_Name entries) \<and>
     list_all (\<lambda>de. case parse_int (de_Name de) of None \<Rightarrow> True | Some pid \<Rightarrow> de_Name de = show_int pid) entries"

definition remove_dir :: "string \<Rightarrow> tc_cache \<Rightarrow> tc_cache" where
  "remove_dir dir c = c\<lparr>tc_removing := remove1 dir (tc_removing c), tc_disk := (tc_disk c)(dir := None)\<rparr>"

inductive tc_step :: "tc_cache \<Rightarrow> tc_cache \<Rightarrow> bool" where
  lookup: "tc_step c (snd (ensure_begin now pid c))"
| refreshed: "pid \<in> set (tc_inProgress c) \<Longrightarrow> tc_slots c pid = None \<Longrightarrow> tc_step c (ensure_refresh env pid c)"
| stored: "tc_slots c pid = Some res \<Longrightarrow> tc_step c (ensure_store now pid res c)"
| removed: "dir \<in> set (tc_removing c) \<Longrightarrow> tc_step c (remove_dir dir c)"

inductive tc_reachable :: "string \<Rightarrow> int \<Rightarrow> tc_cache \<Rightarrow> bool" for base maxEntries where
  fresh: "tc_reachable base maxEntries (NewTestcaseCache base maxEntries disk)"
| pruned: "canonical_listing entries \<Longrightarrow>
    tc_reachable base maxEntries (Prune (Some entries) (NewTestcaseCache base maxEntries disk))"
| step: "tc_reachable base maxEntries c \<Longrightarrow> tc_step c c' \<Longrightarrow> tc_reachable base maxEntries c'"

section \<open>The LRU list and its index\<close>

definition elem_keys :: "(nat \<times> tc_entry) list \<Rightarrow> (nat \<times> ID) set" where
  "elem_keys l = (\<lambda>x. (fst x, te_problemID (snd x))) ` set l"

definition index_ok :: "(ID \<rightharpoonup> nat) \<Rightarrow> (nat \<times> tc_entry) list \<Rightarrow> bool" where
  "index_ok idx l \<longleftrightarrow> distinct (map fst l) \<and> (\<forall>pid k. idx pid = Some k \<longleftrightarrow> (k, pid) \<in> elem_keys l)"

definition cache_inv :: "string \<Rightarrow> int \<Rightarrow> tc_cache \<Rightarrow> bool" where
  "cache_inv base m c \<longleftrightarrow> tc_baseDir c = base \<and> tc_maxEntries c = m \<and> 0 < m \<and>
     index_ok (tc_index c) (tc_lru c) \<and> (\<forall>x \<in> set (tc_lru c). fst x < tc_next c) \<and>
     (\<forall>x \<in> set (tc_lru c). te_localDir (snd x) = testcaseLocalDir base (te_problemID (snd x))) \<and>
     int (length (tc_lru c)) \<le> m \<and> distinct (tc_inProgress c) \<and> dom (tc_slots c) \<subseteq> set (tc_inProgress c) \<and>
     (\<forall>pid dir. tc_slots c pid = Some (Inr dir) \<longrightarrow> dir = testcaseLocalDir base pid)"

lemma MoveToFront_perm: "mset (MoveToFront k l) = mset l"
  by (simp add: MoveToFront_def)

lemma MoveToFront_facts [simp]:
  "set (MoveToFront k l) = set l" "length (MoveToFront k l) = length l"
  "distinct (map fst (MoveToFront k l)) = distinct (map fst l)"
proof -
  show "set (MoveToFront k l) = set l" "length (MoveToFront k l) = length l"
    using MoveToFront_perm [of k l] by (metis set_mset_mset, metis size_mset)
  show "distinct (map fst (MoveToFront k l)) = distinct (map fst l)"
    using MoveToFront_perm [of k l] by (metis mset_eq_imp_distinct_iff mset_map)
qed

lemma elem_keys_MoveToFront [simp]: "elem_keys (MoveToFront k l) = elem_keys l"
  by (simp add: elem_keys_def)

lemma upd_elem_facts:
  assumes "\<And>e. te_problemID (f e) = te_problemID e" and "\<And>e. te_localDir (f e) = te_localDir e"
  shows "elem_keys (upd_elem k f l) = elem_keys l" "map fst (upd_elem k f l) = map fst l"
    "length (upd_elem k f l) = length l"
    "\<forall>x \<in> set (upd_elem k f l). \<exists>y \<in> set l. fst x = fst y \<and> te_localDir (snd x) = te_localDir (snd y) \<and>
       te_problemID (snd x) = te_problemID (snd y)"
proof -
  show "elem_keys (upd_elem k f l) = elem_keys l"
    unfolding elem_keys_def upd_elem_def set_map image_image
    by (rule image_cong) (simp_all add: assms(1))
  show "map fst (upd_elem k f l) = map fst l" "length (upd_elem k f l) = length l"
    by (simp_all add: upd_elem_def)
  show "\<forall>x \<in> set (upd_elem k f l). \<exists>y \<in> set l. fst x = fst y \<and> te_localDir (snd x) = te_localDir (snd y) \<and>
       te_problemID (snd x) = te_problemID (snd y)"
  proof
    fix x assume "x \<in> set (upd_elem k f l)"
    then obtain y where "y \<in> set l" "x = (if fst y = k then (k, f (snd y)) else y)"
      unfolding upd_elem_def set_map by blast
    then show "\<exists>y \<in> set l. fst x = fst y \<and> te_localDir (snd x) = te_localDir (snd y) \<and>
       te_problemID (snd x) = te_problemID (snd y)"
      using assms by (intro bexI [of _ y]) auto
  qed
qed

lemma index_ok_unique:
  assumes "index_ok idx l" and "x \<in> set l" and "y \<in> set l" and "te_problemID (snd x) = te_problemID (snd y)"
  shows "x = y"
proof -
  have "idx (te_problemID (snd x)) = Some (fst x)" "idx (te_problemID (snd x)) = Some (fst y)"
    using assms by (auto simp: index_ok_def elem_keys_def image_iff)
  then show ?thesis
    using assms(1-3) by (auto simp: index_ok_def distinct_map inj_on_def)
qed

lemma index_ok_butlast:
  assumes "index_ok idx l" and "l \<noteq> []"
  shows "index_ok (idx(te_problemID (snd (last l)) := None)) (butlast l)"
proof -
  let ?x = "last l"
  have l: "l = butlast l @ [?x]" using assms(2) by simp
  have dist: "distinct (map fst (butlast l))"
    using assms(1) by (metis distinct_butlast index_ok_def map_butlast)
  have out: "te_problemID (snd y) \<noteq> te_problemID (snd ?x)" if "y \<in> set (butlast l)" for y
  proof
    assume "te_problemID (snd y) = te_problemID (snd ?x)"
    then have "y = ?x"
      using index_ok_unique [OF assms(1)] that assms(2) by (simp add: in_set_butlastD)
    moreover have "fst ?x \<notin> fst ` set (butlast l)"
      using assms(1) l unfolding index_ok_def by (metis distinct_append list.set_map map_append disjoint_iff
          image_eqI last_in_set list.set_intros(1) list.simps(9))
    ultimately show False using that by auto
  qed
  have "elem_keys l = insert (fst ?x, te_problemID (snd ?x)) (elem_keys (butlast l))"
    by (subst l) (simp add: elem_keys_def)
  moreover have "(k, te_problemID (snd ?x)) \<notin> elem_keys (butlast l)" for k
    using out by (fastforce simp: elem_keys_def)
  ultimately show ?thesis
    using assms(1) dist unfolding index_ok_def by auto
qed

lemma evict_spec:
  assumes "index_ok (tc_index c) (tc_lru c)" and "0 < tc_maxEntries c"
  defines "c' \<equiv> evictIfNeeded c"
  shows "index_ok (tc_index c') (tc_lru c')" and "tc_lru c' = take (nat (tc_maxEntries c)) (tc_lru c)"
    and "tc_baseDir c' = tc_baseDir c" "tc_maxEntries c' = tc_maxEntries c" "tc_next c' = tc_next c"
    "tc_inProgress c' = tc_inProgress c" "tc_disk c' = tc_disk c" "tc_slots c' = tc_slots c"
    and "tc_removing c' = tc_removing c @ map (\<lambda>x. te_localDir (snd x)) (rev (drop (nat (tc_maxEntries c)) (tc_lru c)))"
proof -
  have "index_ok (tc_index (evictIfNeeded c)) (tc_lru (evictIfNeeded c)) \<and>
    tc_lru (evictIfNeeded c) = take (nat (tc_maxEntries c)) (tc_lru c) \<and>
    tc_baseDir (evictIfNeeded c) = tc_baseDir c \<and> tc_maxEntries (evictIfNeeded c) = tc_maxEntries c \<and>
    tc_next (evictIfNeeded c) = tc_next c \<and> tc_inProgress (evictIfNeeded c) = tc_inProgress c \<and>
    tc_disk (evictIfNeeded c) = tc_disk c \<and> tc_slots (evictIfNeeded c) = tc_slots c \<and>
    tc_removing (evictIfNeeded c) = tc_removing c @
      map (\<lambda>x. te_localDir (snd x)) (rev (drop (nat (tc_maxEntries c)) (tc_lru c)))"
    using assms(1,2)
  proof (induction c rule: evictIfNeeded.induct)
    case (1 c)
    show ?case
    proof (cases "int (length (tc_lru c)) > tc_maxEntries c \<and> tc_lru c \<noteq> []")
      case True
      let ?n = "nat (tc_maxEntries c)" and ?l = "tc_lru c"
      let ?c = "c\<lparr>tc_lru := butlast ?l, tc_index := (tc_index c)(te_problemID (snd (last ?l)) := None),
          tc_removing := tc_removing c @ [te_localDir (snd (last ?l))]\<rparr>"
      have l: "?l = butlast ?l @ [last ?l]" using True by simp
      have n: "?n \<le> length (butlast ?l)" using True "1.prems"(2) by (simp, linarith)
      have tk: "take ?n (butlast ?l) = take ?n ?l" by (subst (2) l) (use n in simp)
      have dr: "drop ?n ?l = drop ?n (butlast ?l) @ [last ?l]" by (subst l) (use n in simp)
      have step: "evictIfNeeded c = evictIfNeeded ?c"
        by (subst evictIfNeeded.simps) (simp add: True Let_def)
      have io: "index_ok (tc_index ?c) (tc_lru ?c)"
        using index_ok_butlast [OF "1.prems"(1)] True by simp
      show ?thesis
        unfolding step using "1.IH" [OF True refl] io "1.prems"(2) tk dr by (auto simp: fun_upd_def)
    next
      case False
      then have "evictIfNeeded c = c" by (subst evictIfNeeded.simps) (rule if_not_P)
      moreover have "length (tc_lru c) \<le> nat (tc_maxEntries c)" using False "1.prems"(2) by (cases "tc_lru c") auto
      ultimately show ?thesis using "1.prems" by simp
    qed
  qed
  then show "index_ok (tc_index c') (tc_lru c')" "tc_lru c' = take (nat (tc_maxEntries c)) (tc_lru c)"
    "tc_baseDir c' = tc_baseDir c" "tc_maxEntries c' = tc_maxEntries c" "tc_next c' = tc_next c"
    "tc_inProgress c' = tc_inProgress c" "tc_disk c' = tc_disk c" "tc_slots c' = tc_slots c"
    "tc_removing c' = tc_removing c @ map (\<lambda>x. te_localDir (snd x)) (rev (drop (nat (tc_maxEntries c)) (tc_lru c)))"
    unfolding c'_def by blast+
qed

section \<open>The invariant holds in every interleaving\<close>

lemma cache_inv_front:
  assumes "cache_inv base m c" and "\<And>e. te_problemID (f e) = te_problemID e" and "\<And>e. te_localDir (f e) = te_localDir e"
  shows "cache_inv base m (c\<lparr>tc_lru := MoveToFront k (upd_elem k f (tc_lru c))\<rparr>)"
proof -
  note upd = upd_elem_facts [OF assms(2,3), of k "tc_lru c"]
  show ?thesis
    using assms(1) upd unfolding cache_inv_def index_ok_def by fastforce
qed

lemma cache_inv_disk:
  "cache_inv base m c \<Longrightarrow> cache_inv base m (c\<lparr>tc_disk := d\<rparr>)"
  "cache_inv base m c \<Longrightarrow> cache_inv base m (c\<lparr>tc_removing := r, tc_disk := d\<rparr>)"
  "cache_inv base m c \<Longrightarrow> cache_inv base m (c\<lparr>tc_inProgress := remove1 pid (tc_inProgress c),
     tc_slots := (tc_slots c)(pid := None)\<rparr>)"
  by (auto simp: cache_inv_def)

lemma index_ok_push:
  assumes "cache_inv base m c" and "tc_index c pid = None" and "te_problemID e = pid"
  shows "index_ok ((tc_index c)(pid \<mapsto> tc_next c)) ((tc_next c, e) # tc_lru c)"
proof -
  have inv: "index_ok (tc_index c) (tc_lru c)" "\<forall>x \<in> set (tc_lru c). fst x < tc_next c"
    using assms(1) by (simp_all add: cache_inv_def)
  have "(k, pid) \<notin> elem_keys (tc_lru c)" for k
    using inv(1) assms(2) unfolding index_ok_def by (metis option.distinct(1))
  moreover have "(tc_next c, p) \<notin> elem_keys (tc_lru c)" for p
    using inv(2) by (auto simp: elem_keys_def)
  moreover have "elem_keys ((tc_next c, e) # tc_lru c) = insert (tc_next c, pid) (elem_keys (tc_lru c))"
    using assms(3) by (simp add: elem_keys_def)
  ultimately show ?thesis
    using inv unfolding index_ok_def by auto
qed

lemma cache_inv_promote:
  assumes "cache_inv base m c"
  shows "cache_inv base m (promoteEntry now pid (testcaseLocalDir base pid) c)"
proof (cases "tc_index c pid")
  case (Some k)
  then show ?thesis using assms by (simp add: promoteEntry_def cache_inv_front)
next
  case None
  let ?dir = "testcaseLocalDir base pid"
  let ?e = "\<lparr>te_problemID = pid, te_localDir = ?dir, te_etag = readETagFile (tc_disk c) ?dir, te_validatedAt = now\<rparr>"
  let ?c = "c\<lparr>tc_lru := (tc_next c, ?e) # tc_lru c, tc_index := (tc_index c)(pid \<mapsto> tc_next c), tc_next := tc_next c + 1\<rparr>"
  have io: "index_ok (tc_index ?c) (tc_lru ?c)"
    using index_ok_push [OF assms None, of ?e] by simp
  have m: "0 < tc_maxEntries ?c" using assms by (simp add: cache_inv_def)
  note ev = evict_spec [OF io m]
  have "promoteEntry now pid ?dir c = evictIfNeeded ?c" using None by (simp add: promoteEntry_def Let_def)
  moreover have "\<forall>x \<in> set (tc_lru (evictIfNeeded ?c)). x \<in> set (tc_lru ?c)"
    unfolding ev(2) by (meson in_set_takeD)
  ultimately show ?thesis
    using ev assms unfolding cache_inv_def by (auto simp: less_Suc_eq)
qed

lemma refresh_result:
  assumes "refresh env pid c = (res, c')"
  shows "case res of Inl _ \<Rightarrow> True | Inr dir \<Rightarrow> dir = testcaseLocalDir (tc_baseDir c) pid"
  using assms by (auto simp: refresh_def Let_def split: stat_result.splits if_splits prod.splits option.splits)

lemma cache_inv_download:
  "cache_inv base m c \<Longrightarrow> cache_inv base m (snd (downloadAndExtract env dir etag c))"
  by (simp add: downloadAndExtract_def Let_def cache_inv_disk)

lemma cache_inv_refresh:
  assumes "cache_inv base m c"
  shows "cache_inv base m (snd (refresh env pid c))"
  using assms cache_inv_download [OF assms]
  by (auto simp: refresh_def Let_def cache_inv_front split: stat_result.split option.split prod.split)
     (metis snd_conv)+

lemma refresh_frame:
  "tc_inProgress (snd (refresh env pid c)) = tc_inProgress c" "tc_slots (snd (refresh env pid c)) = tc_slots c"
  "tc_index (snd (refresh env pid c)) = tc_index c" "tc_removing (snd (refresh env pid c)) = tc_removing c"
  by (auto simp: refresh_def downloadAndExtract_def Let_def split: stat_result.split option.split)

lemma cache_inv_step:
  assumes "tc_step c c'" and "cache_inv base m c"
  shows "cache_inv base m c'"
  using assms
proof (cases rule: tc_step.cases)
  case (lookup now pid)
  have "cache_inv base m (c\<lparr>tc_lru := MoveToFront k (tc_lru c)\<rparr>)" for k
    using assms(2) by (simp add: cache_inv_def index_ok_def)
  moreover have "cache_inv base m (c\<lparr>tc_inProgress := pid # tc_inProgress c\<rparr>)" if "pid \<notin> set (tc_inProgress c)"
    using assms(2) that by (auto simp: cache_inv_def)
  ultimately show ?thesis
    using assms(2) lookup by (auto simp: ensure_begin_def Let_def split: option.split)
next
  case (refreshed pid env)
  obtain res c1 where r: "refresh env pid c = (res, c1)" by fastforce
  have c1: "cache_inv base m c1" using cache_inv_refresh [OF assms(2), of env pid] r by simp
  moreover have "pid \<in> set (tc_inProgress c1)" using refreshed(2) refresh_frame [of env pid c] r by simp
  moreover have "dir = testcaseLocalDir base pid" if "res = Inr dir" for dir
    using refresh_result [OF r] assms(2) that by (simp add: cache_inv_def)
  ultimately show ?thesis
    using refreshed(1) by (auto simp: ensure_refresh_def r cache_inv_def)
next
  case (stored pid res now)
  note clear = cache_inv_disk(3) [OF assms(2), of pid]
  show ?thesis
  proof (cases res)
    case (Inl e)
    then show ?thesis using stored clear by (simp add: ensure_store_def Let_def)
  next
    case (Inr dir)
    then have "dir = testcaseLocalDir base pid" using stored(2) assms(2) by (simp add: cache_inv_def)
    then show ?thesis using stored(1) Inr cache_inv_promote [OF clear] by (simp add: ensure_store_def Let_def)
  qed
next
  case (removed dir)
  then show ?thesis using assms(2) by (simp add: remove_dir_def cache_inv_disk)
qed

lemma prune_dirs_canonical:
  assumes "list_all (\<lambda>de. case parse_int (de_Name de) of None \<Rightarrow> True | Some pid \<Rightarrow> de_Name de = show_int pid) entries"
    and "x \<in> set (prune_dirs base entries)"
  shows "snd (snd x) = testcaseLocalDir base (fst x) \<and> show_int (fst x) \<in> de_Name ` set entries"
  using assms
  by (induction base entries rule: prune_dirs.induct)
     (auto simp: testcaseLocalDir_def split: if_splits option.splits)

lemma prune_dirs_distinct:
  assumes "canonical_listing entries"
  shows "distinct (map fst (prune_dirs base entries))"
  using assms unfolding canonical_listing_def
proof (induction base entries rule: prune_dirs.induct)
  case (2 base de des)
  have "pid \<notin> fst ` set (prune_dirs base des)" if "parse_int (de_Name de) = Some pid" for pid
    using prune_dirs_canonical [of des _ base] 2 that by fastforce
  then show ?case using 2 by (auto split: option.split)
qed simp

lemma prune_loop_index:
  assumes "index_ok (tc_index c) (tc_lru c)" and "\<forall>x \<in> set (tc_lru c). fst x < tc_next c"
    and "\<forall>x \<in> set (tc_lru c). te_localDir (snd x) = testcaseLocalDir base (te_problemID (snd x))"
    and "distinct (map fst ds)" and "\<forall>d \<in> set ds. tc_index c (fst d) = None"
    and "\<forall>d \<in> set ds. snd (snd d) = testcaseLocalDir base (fst d)"
  shows "index_ok (tc_index (prune_loop ds c)) (tc_lru (prune_loop ds c)) \<and>
    (\<forall>x \<in> set (tc_lru (prune_loop ds c)). fst x < tc_next (prune_loop ds c)) \<and>
    (\<forall>x \<in> set (tc_lru (prune_loop ds c)). te_localDir (snd x) = testcaseLocalDir base (te_problemID (snd x)))"
  using assms
proof (induction ds c rule: prune_loop.induct)
  case (2 pid t path ds c)
  let ?c = "c\<lparr>tc_lru := tc_lru c @ [(tc_next c, \<lparr>te_problemID = pid, te_localDir = path,
                    te_etag = readETagFile (tc_disk c) path, te_validatedAt = 0\<rparr>)],
       tc_index := (tc_index c)(pid \<mapsto> tc_next c), tc_next := tc_next c + 1\<rparr>"
  have "(k, pid) \<notin> elem_keys (tc_lru c)" for k
    using "2.prems"(1,5) unfolding index_ok_def by (metis fst_conv list.set_intros(1) option.distinct(1))
  moreover have "(tc_next c, q) \<notin> elem_keys (tc_lru c)" for q
    using "2.prems"(2) by (auto simp: elem_keys_def)
  moreover have "elem_keys (tc_lru ?c) = insert (tc_next c, pid) (elem_keys (tc_lru c))"
    by (simp add: elem_keys_def)
  ultimately have io: "index_ok (tc_index ?c) (tc_lru ?c)"
    using "2.prems"(1,2) unfolding index_ok_def by auto
  show ?case
    unfolding prune_loop.simps
  proof (rule "2.IH" [OF io])
    show "\<forall>x\<in>set (tc_lru ?c). fst x < tc_next ?c" using "2.prems"(2) by (auto simp: less_Suc_eq)
    show "\<forall>x\<in>set (tc_lru ?c). te_localDir (snd x) = testcaseLocalDir base (te_problemID (snd x))"
      using "2.prems"(3,6) by auto
    show "distinct (map fst ds)" using "2.prems"(4) by simp
    show "\<forall>d\<in>set ds. tc_index ?c (fst d) = None" using "2.prems"(4,5) by auto
    show "\<forall>d\<in>set ds. snd (snd d) = testcaseLocalDir base (fst d)" using "2.prems"(6) by simp
  qed
qed simp

lemma prune_loop_frame:
  "tc_baseDir (prune_loop ds c) = tc_baseDir c \<and> tc_maxEntries (prune_loop ds c) = tc_maxEntries c \<and>
   tc_inProgress (prune_loop ds c) = tc_inProgress c \<and> tc_slots (prune_loop ds c) = tc_slots c"
  by (induction ds c rule: prune_loop.induct) simp_all

lemma cache_inv_Prune:
  assumes "canonical_listing entries"
  shows "cache_inv base (if maxEntries \<le> 0 then defaultMaxEntries else maxEntries)
    (Prune (Some entries) (NewTestcaseCache base maxEntries disk))"
proof -
  let ?c = "NewTestcaseCache base maxEntries disk"
  let ?ds = "sort_slice (\<lambda>a b. After (fst (snd a)) (fst (snd b))) (prune_dirs base entries)"
  let ?p = "prune_loop ?ds ?c"
  have c: "tc_baseDir ?c = base" "tc_lru ?c = []" "tc_index ?c = Map.empty"
    "tc_inProgress ?c = []" "tc_slots ?c = Map.empty" "0 < tc_maxEntries ?c"
    "tc_maxEntries ?c = (if maxEntries \<le> 0 then defaultMaxEntries else maxEntries)"
    by (simp_all add: NewTestcaseCache_def defaultMaxEntries_def)
  have dist: "distinct (map fst ?ds)" using prune_dirs_distinct [OF assms] by simp
  have paths: "\<forall>d \<in> set ?ds. snd (snd d) = testcaseLocalDir base (fst d)"
    using assms prune_dirs_canonical [of entries _ base] unfolding canonical_listing_def by simp
  have p: "index_ok (tc_index ?p) (tc_lru ?p)" "\<forall>x \<in> set (tc_lru ?p). fst x < tc_next ?p"
    "\<forall>x \<in> set (tc_lru ?p). te_localDir (snd x) = testcaseLocalDir base (te_problemID (snd x))"
    using prune_loop_index [of ?c base ?ds] dist paths by (simp_all add: c index_ok_def elem_keys_def)
  note fr = prune_loop_frame [of ?ds ?c]
  have m: "0 < tc_maxEntries ?p" using fr c by simp
  note ev = evict_spec [OF p(1) m]
  have "\<forall>x \<in> set (tc_lru (evictIfNeeded ?p)). x \<in> set (tc_lru ?p)"
    unfolding ev(2) by (meson in_set_takeD)
  moreover have "Prune (Some entries) ?c = evictIfNeeded ?p" by (simp add: Prune_def c)
  ultimately show ?thesis
    using ev p fr c by (auto simp: cache_inv_def)
qed

lemma cache_inv_reachable:
  "tc_reachable base maxEntries c \<Longrightarrow>
   cache_inv base (if maxEntries \<le> 0 then defaultMaxEntries else maxEntries) c"
proof (induction rule: tc_reachable.induct)
  case (fresh disk)
  then show ?case
    by (simp add: cache_inv_def NewTestcaseCache_def index_ok_def elem_keys_def defaultMaxEntries_def)
next
  case (pruned entries disk)
  then show ?case by (rule cache_inv_Prune)
next
  case (step c c')
  then show ?case using cache_inv_step by blast
qed

section \<open>What a caller gets\<close>

lemma ensure_begin_Download:
  "ensure_begin now pid c = (Download, c0) \<Longrightarrow>
   pid \<notin> set (tc_inProgress c) \<and> c0 = c\<lparr>tc_inProgress := pid # tc_inProgress c\<rparr>"
  by (auto simp: ensure_begin_def Let_def split: option.splits if_splits)

lemma refresh_fresh:
  assumes "refresh env pid c = (Inr dir, c')"
  shows "\<exists>etag. tv_stat env (TestcaseZipKey pid) = StatETag etag \<and> readETagFile (tc_disk c') dir = TrimSpace etag"
  using assms TrimSpace_idem
  by (auto simp: refresh_def downloadAndExtract_def Let_def readETagFile_def
      split: stat_result.splits if_splits option.splits)

lemma refresh_failed:
  assumes "refresh env pid c = (Inl e, c')" and "tv_rename_ok env" and "d \<noteq> testcaseLocalDir (tc_baseDir c) pid @ ''.tmp''"
  shows "tc_disk c' d = tc_disk c d"
  using assms
  by (auto simp: refresh_def downloadAndExtract_def Let_def split: stat_result.splits if_splits option.splits)

lemma MoveToFront_head:
  assumes "distinct (map fst l)" and "(k, e) \<in> set l"
  shows "\<exists>r. MoveToFront k l = (k, e) # r"
proof -
  obtain a b where l: "l = a @ (k, e) # b" using assms(2) by (meson split_list)
  have none: "filter (\<lambda>x. fst x = k) xs = []" if "k \<notin> fst ` set xs" for xs :: "(nat \<times> tc_entry) list"
    using that by (induction xs) auto
  have "k \<notin> fst ` set a" and "k \<notin> fst ` set b" using assms(1) by (auto simp: l)
  then have "filter (\<lambda>x. fst x = k) l = [(k, e)]" by (simp add: l none)
  then show ?thesis by (simp add: MoveToFront_def)
qed

lemma promote_head:
  assumes "cache_inv base m c" and "dir = testcaseLocalDir base pid"
  shows "\<exists>k r. tc_lru (promoteEntry now pid dir c) =
    (k, \<lparr>te_problemID = pid, te_localDir = dir, te_etag = readETagFile (tc_disk c) dir, te_validatedAt = now\<rparr>) # r"
proof (cases "tc_index c pid")
  case None
  let ?e = "\<lparr>te_problemID = pid, te_localDir = dir, te_etag = readETagFile (tc_disk c) dir, te_validatedAt = now\<rparr>"
  let ?c = "c\<lparr>tc_lru := (tc_next c, ?e) # tc_lru c, tc_index := (tc_index c)(pid \<mapsto> tc_next c), tc_next := tc_next c + 1\<rparr>"
  have "index_ok (tc_index ?c) (tc_lru ?c)" and m: "0 < tc_maxEntries ?c"
    using index_ok_push [of base m c pid ?e] assms(1) None by (auto simp: cache_inv_def)
  then have "tc_lru (evictIfNeeded ?c) = take (nat (tc_maxEntries c)) ((tc_next c, ?e) # tc_lru c)"
    using evict_spec(2) by fastforce
  moreover have "promoteEntry now pid dir c = evictIfNeeded ?c" using None by (simp add: promoteEntry_def Let_def)
  ultimately show ?thesis using m by (cases "nat (tc_maxEntries c)") auto
next
  case (Some k)
  let ?f = "\<lambda>e. e\<lparr>te_etag := readETagFile (tc_disk c) dir, te_validatedAt := now\<rparr>"
  have io: "index_ok (tc_index c) (tc_lru c)" using assms(1) by (simp add: cache_inv_def)
  then obtain e where e: "(k, e) \<in> set (tc_lru c)" "te_problemID e = pid"
    using Some unfolding index_ok_def elem_keys_def by force
  then have dir: "te_localDir e = dir" using assms by (force simp: cache_inv_def)
  have "(k, ?f e) \<in> set (upd_elem k ?f (tc_lru c))" using e(1) unfolding upd_elem_def by force
  moreover have "distinct (map fst (upd_elem k ?f (tc_lru c)))"
    using io upd_elem_facts(2) [of ?f k "tc_lru c"] by (simp add: index_ok_def)
  ultimately obtain r where "MoveToFront k (upd_elem k ?f (tc_lru c)) = (k, ?f e) # r"
    using MoveToFront_head by meson
  then have "tc_lru (promoteEntry now pid dir c) = (k, ?f e) # r"
    using Some by (simp add: promoteEntry_def Let_def)
  moreover have "?f e = \<lparr>te_problemID = pid, te_localDir = dir, te_etag = readETagFile (tc_disk c) dir, te_validatedAt = now\<rparr>"
    using e(2) dir by (cases e) simp
  ultimately show ?thesis by auto
qed

lemma promote_disk:
  assumes "cache_inv base m c"
  shows "tc_disk (promoteEntry now pid dir c) = tc_disk c"
proof (cases "tc_index c pid")
  case None
  let ?e = "\<lparr>te_problemID = pid, te_localDir = dir, te_etag = readETagFile (tc_disk c) dir, te_validatedAt = now\<rparr>"
  have "index_ok ((tc_index c)(pid \<mapsto> tc_next c)) ((tc_next c, ?e) # tc_lru c)"
    by (rule index_ok_push [OF assms None]) simp
  then show ?thesis
    using evict_spec(7) assms None by (simp add: promoteEntry_def Let_def cache_inv_def)
qed (simp add: promoteEntry_def)

section \<open>Properties\<close>

lemma extract_loop_below:
  assumes "IsAbs d" and "p \<in> set (snd (extract_loop (path_Clean d @ ''/'') files))"
  shows "\<exists>t. p = path_Clean d @ ''/'' @ t \<and> list_all good_part (split_slash t)"
  using assms
proof (induction "path_Clean d @ ''/''" files rule: extract_loop.induct)
  case (2 f fs)
  let ?q = "path_Join (path_Clean (path_Clean d @ ''/'')) (zf_Name f)"
  have clean: "\<exists>r. IsAbs r \<and> ?q = path_Clean r"
    by (rule path_Join_abs) (simp add: IsAbs_Clean IsAbs_append "2.prems"(1))
  then have below: "\<exists>t. ?q = path_Clean d @ ''/'' @ t \<and> list_all good_part (split_slash t)"
    if "HasPrefix ?q (path_Clean d @ ''/'')"
    using clean_below [OF "2.prems"(1)] that by metis
  show ?case
    using 2 below by (auto simp: Let_def split: if_splits prod.splits option.splits)
qed simp

text \<open>
  C29: Zip-slip protection. Whatever the entry names in the archive are, every file that extraction
  into an absolute directory creates lies strictly below the cleaned directory: its path is that
  directory, a slash and a relative path without empty, \<open>.\<close> or \<open>..\<close> components.
\<close>

theorem extractZip_stays_below:
  assumes "IsAbs destDir" and "p \<in> set (snd (extractZip archive destDir))"
  shows "\<exists>t. p = path_Clean destDir @ ''/'' @ t \<and>
    list_all (\<lambda>c. c \<noteq> [] \<and> c \<noteq> ''.'' \<and> c \<noteq> ''..'') (split_slash t)"
proof -
  obtain files where "p \<in> set (snd (extract_loop (path_Clean destDir @ ''/'') files))"
    using assms(2) by (auto simp: extractZip_def split: option.splits)
  then obtain t where "p = path_Clean destDir @ ''/'' @ t" and "list_all good_part (split_slash t)"
    using extract_loop_below [OF assms(1)] by blast
  then show ?thesis by (auto simp: list_all_iff good_part_def)
qed

definition sample_zip :: "string \<Rightarrow> zip_file" where
  "sample_zip name = \<lparr>zf_Name = name, zf_IsDir = False, zf_size = 4, zf_mkdir_ok = True, zf_open_ok = True,
     zf_create_ok = True, zf_copy_ok = True\<rparr>"

theorem extractZip_stays_below_witness:
  "\<exists>t. ''/t/1/a'' = path_Clean ''/t/1'' @ ''/'' @ t \<and>
    list_all (\<lambda>c. c \<noteq> [] \<and> c \<noteq> ''.'' \<and> c \<noteq> ''..'') (split_slash t)"
  by (rule extractZip_stays_below [of "''/t/1''" "''/t/1/a''" "Some [sample_zip ''x/../a'']"])
     (simp_all add: sample_zip_def extractZip_def extractZipEntry_def path_Clean_def path_Join_def IsAbs_def
        HasPrefix_def maxZipEntryBytes_def)

text \<open>
  C27: Cache invariant. In every interleaving of lookups, refreshes, stores and background
  deletions, starting from a new cache or from one that pruned the directories it finds, the index
  maps a problem to a list element exactly when that element holds the problem, no problem has two
  elements, every entry names the problem's own directory, the list is never longer than the
  configured maximum, and each problem is refreshed by at most one caller at a time.
\<close>

theorem tc_cache_invariant:
  assumes "tc_reachable base maxEntries c"
  shows "(\<forall>pid k. tc_index c pid = Some k \<longleftrightarrow> (\<exists>e. (k, e) \<in> set (tc_lru c) \<and> te_problemID e = pid)) \<and>
    distinct (map (\<lambda>x. te_problemID (snd x)) (tc_lru c)) \<and>
    (\<forall>x \<in> set (tc_lru c). te_localDir (snd x) = testcaseLocalDir base (te_problemID (snd x))) \<and>
    int (length (tc_lru c)) \<le> (if maxEntries \<le> 0 then defaultMaxEntries else maxEntries) \<and>
    distinct (tc_inProgress c)"
proof (intro conjI)
  have io: "index_ok (tc_index c) (tc_lru c)"
    using cache_inv_reachable [OF assms] unfolding cache_inv_def by blast
  then show "\<forall>pid k. tc_index c pid = Some k \<longleftrightarrow> (\<exists>e. (k, e) \<in> set (tc_lru c) \<and> te_problemID e = pid)"
    unfolding index_ok_def elem_keys_def by force
  have "inj_on (\<lambda>x. te_problemID (snd x)) (set (tc_lru c))"
    by (rule inj_onI) (rule index_ok_unique [OF io])
  moreover have "distinct (tc_lru c)" using io by (simp add: index_ok_def distinct_map)
  ultimately show "distinct (map (\<lambda>x. te_problemID (snd x)) (tc_lru c))" by (simp add: distinct_map)
qed (use cache_inv_reachable [OF assms] in \<open>simp_all add: cache_inv_def\<close>)

definition sample_env :: "time \<Rightarrow> tc_env" where
  "sample_env t = \<lparr>tv_now = t, tv_stat = (\<lambda>_. StatETag ''e''), tv_mkdir_base_ok = True, tv_get_ok = True,
     tv_mkdir_stage_ok = True, tv_zip = Some [], tv_write_etag_ok = True, tv_rename_ok = True\<rparr>"



text \<open>An uninterrupted call is one of the interleavings.\<close>

lemma reachable_EnsureTestcases:
  assumes "tc_reachable base maxEntries c" and "EnsureTestcases env pid c = Some (res, c')"
  shows "tc_reachable base maxEntries c'"
proof -
  obtain st c0 where b: "ensure_begin (tv_now env) pid c = (st, c0)" by fastforce
  have c0: "tc_reachable base maxEntries c0"
    using tc_reachable.step [OF assms(1) tc_step.lookup, of "tv_now env" pid] b by simp
  show ?thesis
  proof (cases st)
    case Download
    obtain c1 where r: "refresh env pid c0 = (res, c1)" and c': "c' = ensure_store (tv_now env) pid res c1"
      using assms(2) b Download by (auto simp: EnsureTestcases_def split: prod.splits)
    have beg: "pid \<notin> set (tc_inProgress c)" "c0 = c\<lparr>tc_inProgress := pid # tc_inProgress c\<rparr>"
      using ensure_begin_Download b Download by blast+
    then have mem: "pid \<in> set (tc_inProgress c0)" by simp
    have "dom (tc_slots c) \<subseteq> set (tc_inProgress c)"
      using cache_inv_reachable [OF assms(1)] by (simp add: cache_inv_def)
    then have none: "tc_slots c0 pid = None" using beg by (auto simp: domIff)
    let ?c1 = "c1\<lparr>tc_slots := (tc_slots c1)(pid \<mapsto> res)\<rparr>"
    have "tc_reachable base maxEntries ?c1"
      using tc_reachable.step [OF c0 tc_step.refreshed [OF mem none, of env]] by (simp add: ensure_refresh_def r)
    then have "tc_reachable base maxEntries (ensure_store (tv_now env) pid res ?c1)"
      by (rule tc_reachable.step) (rule tc_step.stored, simp)
    moreover have "ensure_store (tv_now env) pid res ?c1 = c'"
      by (simp add: c' ensure_store_def)
    ultimately show ?thesis by simp
  qed (use assms(2) b c0 in \<open>auto simp: EnsureTestcases_def\<close>)
qed

text \<open>A node with room for one problem, on which problems 1, 2 and 1 again are judged in turn.\<close>

definition race_cache :: "ID \<Rightarrow> nat \<Rightarrow> (string \<rightharpoonup> string) \<Rightarrow> string list \<Rightarrow> tc_cache" where
  "race_cache pid n disk rm =
     \<lparr>tc_baseDir = ''/t'', tc_maxEntries = 1,
      tc_lru = [(n, \<lparr>te_problemID = pid, te_localDir = testcaseLocalDir ''/t'' pid, te_etag = ''e'', te_validatedAt = 7\<rparr>)],
      tc_index = [pid \<mapsto> n], tc_inProgress = [], tc_slots = Map.empty, tc_next = n + 1, tc_disk = disk,
      tc_removing = rm\<rparr>"

lemma race_dirs:
  "testcaseLocalDir ''/t'' 1 = ''/t/1''" "testcaseLocalDir ''/t'' 2 = ''/t/2''"
proof -
  have "show_nat 1 = ''1''" by (subst show_nat.simps) (simp add: digit_char_def, code_simp)
  moreover have "show_nat 2 = ''2''" by (subst show_nat.simps) (simp add: digit_char_def, code_simp)
  ultimately show "testcaseLocalDir ''/t'' 1 = ''/t/1''" "testcaseLocalDir ''/t'' 2 = ''/t/2''"
    by (simp_all add: testcaseLocalDir_def path_Join_def path_Clean_def IsAbs_def HasPrefix_def show_int_def)
qed

lemma trim_e: "TrimSpace ''e'' = ''e''"
proof -
  have "space_len ''e'' = 0" "trailing_space_len ''e'' = 0"
    by (simp_all add: trailing_space_len_def ascii_space_def)
  then show ?thesis by (subst TrimSpace_def, subst trim_right.simps) (simp add: skip_space_id)
qed

lemma evict_second:
  "tc_maxEntries c = 1 \<Longrightarrow> tc_lru c = [x, y] \<Longrightarrow>
   evictIfNeeded c = c\<lparr>tc_lru := [x], tc_index := (tc_index c)(te_problemID (snd y) := None),
     tc_removing := tc_removing c @ [te_localDir (snd y)]\<rparr>"
  by (subst evictIfNeeded.simps, simp, subst evictIfNeeded.simps, simp add: Let_def)

lemma evict_first: "tc_maxEntries c = 1 \<Longrightarrow> tc_lru c = [x] \<Longrightarrow> evictIfNeeded c = c"
  by (subst evictIfNeeded.simps) simp

lemma race_next:
  assumes "disk dir = None \<or> disk dir = Some ''e''" and "dir = testcaseLocalDir ''/t'' q" and "p \<noteq> q"
  shows "EnsureTestcases (sample_env 7) q (race_cache p n disk rm) =
    Some (Inr dir, race_cache q (n + 1) (if disk dir = None then disk(dir @ ''.tmp'' := None, dir \<mapsto> ''e'') else disk)
      (rm @ [testcaseLocalDir ''/t'' p]))"
  using assms
  by (auto simp: EnsureTestcases_def ensure_begin_def refresh_def downloadAndExtract_def sample_env_def race_cache_def
      readETagFile_def extractZip_def ensure_store_def promoteEntry_def evict_second trim_e Let_def fun_eq_iff)

lemma race_first:
  "EnsureTestcases (sample_env 7) 1 (NewTestcaseCache ''/t'' 1 Map.empty) =
   Some (Inr ''/t/1'', race_cache 1 0 [''/t/1'' \<mapsto> ''e''] [])"
  by (auto simp: EnsureTestcases_def ensure_begin_def refresh_def downloadAndExtract_def sample_env_def race_cache_def
      readETagFile_def extractZip_def ensure_store_def promoteEntry_def evict_first trim_e Let_def fun_eq_iff
      race_dirs NewTestcaseCache_def)

theorem tc_cache_invariant_witness:
  "\<exists>e. (0, e) \<in> set (tc_lru (race_cache 1 0 [''/t/1'' \<mapsto> ''e''] [])) \<and> te_problemID e = 1"
proof -
  let ?c = "race_cache 1 0 [''/t/1'' \<mapsto> ''e''] []"
  have "tc_reachable ''/t'' 1 ?c" using reachable_EnsureTestcases [OF tc_reachable.fresh race_first] .
  moreover have "tc_index ?c 1 = Some 0" by (simp add: race_cache_def)
  ultimately show ?thesis using tc_cache_invariant by blast
qed

text \<open>
  C30: Background eviction can delete a live entry. There is a reachable state in which a lookup
  within the validity window answers with a directory that does not exist: the entry was evicted,
  validated again against the directory that was still there, and only then deleted by the
  eviction's goroutine.
\<close>

theorem eviction_deletes_live_entry:
  "\<exists>c dir. tc_reachable ''/t'' 1 c \<and> fst (ensure_begin 8 1 c) = Hit dir \<and> tc_disk c dir = None"
proof -
  define d1 d2 where d: "d1 = testcaseLocalDir ''/t'' 1" "d2 = testcaseLocalDir ''/t'' 2"
  have ne: "d1 \<noteq> d2" "d1 \<noteq> d2 @ ''.tmp''" by (simp_all add: d race_dirs)
  let ?disk = "[d1 \<mapsto> ''e'']"
  let ?disk2 = "?disk(d2 @ ''.tmp'' := None, d2 \<mapsto> ''e'')"
  let ?c3 = "race_cache 1 2 ?disk2 [d1, d2]"
  have "tc_reachable ''/t'' 1 (race_cache 1 0 ?disk [])"
    using reachable_EnsureTestcases [OF tc_reachable.fresh race_first] by (simp add: d race_dirs)
  moreover have "EnsureTestcases (sample_env 7) 2 (race_cache 1 0 ?disk []) = Some (Inr d2, race_cache 2 1 ?disk2 [d1])"
    using race_next [of ?disk d2 2 1 0 "[]"] ne by (simp add: d)
  ultimately have "tc_reachable ''/t'' 1 (race_cache 2 1 ?disk2 [d1])"
    by (rule reachable_EnsureTestcases)
  moreover have "EnsureTestcases (sample_env 7) 1 (race_cache 2 1 ?disk2 [d1]) = Some (Inr d1, ?c3)"
    using race_next [of ?disk2 d1 1 2 1 "[d1]"] ne by (simp add: d numeral_2_eq_2)
  ultimately have "tc_reachable ''/t'' 1 ?c3" by (rule reachable_EnsureTestcases)
  then have "tc_reachable ''/t'' 1 (remove_dir d1 ?c3)"
    by (rule tc_reachable.step) (rule tc_step.removed, simp add: race_cache_def)
  moreover have "fst (ensure_begin 8 1 (remove_dir d1 ?c3)) = Hit d1"
    by (simp add: ensure_begin_def remove_dir_def race_cache_def d time_Sub_def etagTTL_def minute_ns_def
        second_ns_def)
  moreover have "tc_disk (remove_dir d1 ?c3) d1 = None" by (simp add: remove_dir_def)
  ultimately show ?thesis by blast
qed

end
