(* ===== verification/Database.thy ===== *)
theory Database
  imports Ranking Go_Strings
begin

text \<open>
  Package \<open>infra/postgres\<close>: the repositories, over the tables of \<open>migrations/001_init.sql\<close>.

  A table is the list of its rows in insertion order, so a query is a list function that reads like
  its SQL text. A statement that violates a constraint of the schema fails and changes nothing;
  transactions are atomic. A column \<open>BIGSERIAL\<close> takes its value from a counter that is never
  decreased. \<open>NOW()\<close> is an argument. Failures of the connection are the concern of the callers:
  a call that fails that way leaves the tables alone.
\<close>

section \<open>Tables\<close>

record user =
  u_ID :: ID
  u_Username :: string
  u_Email :: "string option"
  u_PasswordHash :: string
  u_Role :: UserRole
  u_Organization :: string
  u_CreatedAt :: time
  u_UpdatedAt :: time

record problem =
  p_ID :: ID
  p_Title :: string
  p_Statement :: string
  p_TimeLimitMs :: int
  p_MemLimitKB :: int
  p_JudgeType :: JudgeType
  p_JudgeConfig :: "judge_config payload"
  p_AllowedLangs :: "Language list option"
  p_IsPublic :: bool
  p_AuthorID :: ID
  p_CreatedAt :: time
  p_UpdatedAt :: time

record test_case_row =
  tr_ProblemID :: ID
  tr_case :: judge_test_case

record db =
  db_users :: "user list"
  db_problems :: "problem list"
  db_test_cases :: "test_case_row list"
  db_contests :: "contest list"
  db_contest_problems :: "contest_problem list"
  db_participants :: "contest_participant list"
  db_submissions :: "submission list"
  db_seq :: ID

datatype db_error = DBNotFound | DBUniqueViolation | DBForeignKeyViolation | DBInvalid
  | ErrEmailTaken | ErrEmailAlreadyBound

type_synonym 'a dbres = "db_error + 'a"

definition has_user :: "db \<Rightarrow> ID \<Rightarrow> bool" where
  "has_user d i \<longleftrightarrow> i \<in> u_ID ` set (db_users d)"

definition has_problem :: "db \<Rightarrow> ID \<Rightarrow> bool" where
  "has_problem d i \<longleftrightarrow> i \<in> p_ID ` set (db_problems d)"

definition has_contest :: "db \<Rightarrow> ID \<Rightarrow> bool" where
  "has_contest d i \<longleftrightarrow> i \<in> c_ID ` set (db_contests d)"

text \<open>\<open>LIMIT n OFFSET m\<close>; negative values are errors.\<close>

definition paginate :: "int \<Rightarrow> int \<Rightarrow> 'a list \<Rightarrow> 'a list dbres" where
  "paginate limit offset xs =
     (if limit < 0 \<or> offset < 0 then Inl DBInvalid else Inr (take (nat limit) (drop (nat offset) xs)))"

section \<open>Users\<close>

definition UserRepo_Create :: "time \<Rightarrow> user \<Rightarrow> db \<Rightarrow> user dbres \<times> db" where
  "UserRepo_Create now u d =
     (if u_Username u \<in> u_Username ` set (db_users d) \<or>
         u_Email u \<noteq> None \<and> u_Email u \<in> u_Email ` set (db_users d)
      then (Inl DBUniqueViolation, d)
      else let u = u\<lparr>u_ID := db_seq d, u_CreatedAt := now, u_UpdatedAt := now\<rparr>
           in (Inr u, d\<lparr>db_users := db_users d @ [u], db_seq := db_seq d + 1\<rparr>))"

definition GetByUsername :: "string \<Rightarrow> db \<Rightarrow> user option" where
  "GetByUsername username d = find (\<lambda>u. u_Username u = username) (db_users d)"

definition email_is :: "string \<Rightarrow> user \<Rightarrow> bool" where
  "email_is email u = (case u_Email u of None \<Rightarrow> False | Some e \<Rightarrow> ToLower e = ToLower email)"

definition GetByLogin :: "string \<Rightarrow> db \<Rightarrow> user option" where
  "GetByLogin identifier d = find (\<lambda>u. u_Username u = identifier \<or> email_is identifier u) (db_users d)"

definition GetByEmail :: "string \<Rightarrow> db \<Rightarrow> user option" where
  "GetByEmail email d = find (email_is email) (db_users d)"

definition UserRepo_GetByID :: "ID \<Rightarrow> db \<Rightarrow> user option" where
  "UserRepo_GetByID i d = find (\<lambda>u. u_ID u = i) (db_users d)"

definition BindEmail :: "time \<Rightarrow> ID \<Rightarrow> string \<Rightarrow> db \<Rightarrow> unit dbres \<times> db" where
  "BindEmail now i email d =
     (let hit = (\<lambda>u. u_ID u = i \<and> u_Email u = None)
      in if \<not> list_ex hit (db_users d) then (Inl ErrEmailAlreadyBound, d)
         else if Some email \<in> u_Email ` set (db_users d) then (Inl ErrEmailTaken, d)
         else (Inr (), d\<lparr>db_users := map (\<lambda>u. if hit u then u\<lparr>u_Email := Some email, u_UpdatedAt := now\<rparr> else u)
                                      (db_users d)\<rparr>))"

definition UpdateProfile :: "time \<Rightarrow> ID \<Rightarrow> string \<Rightarrow> db \<Rightarrow> unit dbres \<times> db" where
  "UpdateProfile now i organization d =
     (if \<not> has_user d i then (Inl DBNotFound, d)
      else (Inr (), d\<lparr>db_users := map (\<lambda>u. if u_ID u = i then u\<lparr>u_Organization := organization, u_UpdatedAt := now\<rparr> else u)
                                   (db_users d)\<rparr>))"

definition UpdatePassword :: "time \<Rightarrow> ID \<Rightarrow> string \<Rightarrow> db \<Rightarrow> unit dbres \<times> db" where
  "UpdatePassword now i hash d =
     (if \<not> has_user d i then (Inl DBNotFound, d)
      else (Inr (), d\<lparr>db_users := map (\<lambda>u. if u_ID u = i then u\<lparr>u_PasswordHash := hash, u_UpdatedAt := now\<rparr> else u)
                                   (db_users d)\<rparr>))"

section \<open>Problems and test cases\<close>

definition empty_judge_config :: judge_config where
  "empty_judge_config = \<lparr>jc_CheckerPath = [], jc_CheckerArgs = [], jc_InteractorPath = [], jc_CommProcessCount = 0,
     jc_CommChannels = [], jc_GraderPath = []\<rparr>"

definition GetProblemByID :: "ID \<Rightarrow> db \<Rightarrow> problem option dbres" where
  "GetProblemByID i d =
     (case find (\<lambda>p. p_ID p = i) (db_problems d) of
        None \<Rightarrow> Inr None
      | Some p \<Rightarrow> if decode (p_JudgeConfig p) = None then Inl DBInvalid else Inr (Some p))"

definition GetJudgeConfig :: "ID \<Rightarrow> db \<Rightarrow> judge_config dbres" where
  "GetJudgeConfig i d =
     (case find (\<lambda>p. p_ID p = i) (db_problems d) of
        None \<Rightarrow> Inl DBNotFound
      | Some p \<Rightarrow> (case decode (p_JudgeConfig p) of None \<Rightarrow> Inl DBInvalid | Some cfg \<Rightarrow> Inr cfg))"

definition GetJudgeMeta :: "ID \<Rightarrow> db \<Rightarrow> problem_judge_meta dbres" where
  "GetJudgeMeta i d =
     (case find (\<lambda>p. p_ID p = i) (db_problems d) of
        None \<Rightarrow> Inl DBNotFound
      | Some p \<Rightarrow> Inr \<lparr>pjm_JudgeType = p_JudgeType p, pjm_TimeLimitMs = p_TimeLimitMs p, pjm_MemLimitKB = p_MemLimitKB p\<rparr>)"

definition case_less :: "judge_test_case \<Rightarrow> judge_test_case \<Rightarrow> bool" where
  "case_less a b \<longleftrightarrow> jtc_GroupID a < jtc_GroupID b \<or> jtc_GroupID a = jtc_GroupID b \<and> jtc_Ordinal a < jtc_Ordinal b"

definition GetTestCases :: "ID \<Rightarrow> db \<Rightarrow> judge_test_case list" where
  "GetTestCases i d = sort_slice case_less (map tr_case (filter (\<lambda>r. tr_ProblemID r = i) (db_test_cases d)))"

text \<open>
  The unique key of \<open>test_cases\<close> is (problem, group, ordinal); ordinals and scores are 32-bit columns.
\<close>

definition int4 :: "int \<Rightarrow> bool" where
  "int4 x \<longleftrightarrow> - (2 ^ 31) \<le> x \<and> x < 2 ^ 31"

fun insert_cases :: "ID \<Rightarrow> judge_test_case list \<Rightarrow> test_case_row list \<Rightarrow> ID \<Rightarrow> (test_case_row list \<times> ID) dbres" where
  "insert_cases i [] rows seq = Inr (rows, seq)"
| "insert_cases i (tc # tcs) rows seq =
     (if \<not> int4 (jtc_Ordinal tc) \<or> \<not> int4 (jtc_Score tc) then Inl DBInvalid
      else if list_ex (\<lambda>r. tr_ProblemID r = i \<and> jtc_GroupID (tr_case r) = jtc_GroupID tc \<and>
                      jtc_Ordinal (tr_case r) = jtc_Ordinal tc) rows then Inl DBUniqueViolation
      else insert_cases i tcs (rows @ [\<lparr>tr_ProblemID = i, tr_case = tc\<lparr>jtc_TestCaseID := seq\<rparr>\<rparr>]) (seq + 1))"

definition ReplaceTestCases :: "ID \<Rightarrow> judge_test_case list \<Rightarrow> db \<Rightarrow> unit dbres \<times> db" where
  "ReplaceTestCases i cases d =
     (let kept = filter (\<lambda>r. tr_ProblemID r \<noteq> i) (db_test_cases d);
          totalScore = sum_list (map jtc_Score cases)
      in if cases \<noteq> [] \<and> \<not> has_problem d i then (Inl DBForeignKeyViolation, d)
         else case insert_cases i cases kept (db_seq d) of
                Inl e \<Rightarrow> (Inl e, d)
              | Inr (rows, seq) \<Rightarrow>
                  if \<not> int4 totalScore \<and> list_ex (\<lambda>cp. cp_ProblemID cp = i) (db_contest_problems d)
                  then (Inl DBInvalid, d)
                  else (Inr (), d\<lparr>db_test_cases := rows, db_seq := seq,
                     db_contest_problems := map (\<lambda>cp. if cp_ProblemID cp = i
                        then cp\<lparr>cp_MaxScore := totalScore\<rparr> else cp) (db_contest_problems d)\<rparr>))"

definition contests_with :: "ID \<Rightarrow> db \<Rightarrow> contest list" where
  "contests_with i d =
     concat (map (\<lambda>cp. filter (\<lambda>c. c_ID c = cp_ContestID cp) (db_contests d))
       (filter (\<lambda>cp. cp_ProblemID cp = i) (db_contest_problems d)))"

definition is_participant :: "db \<Rightarrow> ID \<Rightarrow> ID \<Rightarrow> bool" where
  "is_participant d cid uid \<longleftrightarrow>
     list_ex (\<lambda>cp. cpt_ContestID cp = cid \<and> cpt_UserID cp = uid) (db_participants d)"

definition ListProblems :: "time \<Rightarrow> bool \<Rightarrow> int \<Rightarrow> int \<Rightarrow> db \<Rightarrow> (problem list \<times> int) dbres" where
  "ListProblems now onlyPublic limit offset d =
     (let visible = (\<lambda>p. \<not> onlyPublic \<or> p_IsPublic p \<or> list_ex (\<lambda>c. c_EndTime c < now) (contests_with (p_ID p) d));
          rows = filter visible (db_problems d)
      in case paginate limit offset (sort_slice (\<lambda>a b. p_ID a > p_ID b) rows) of
           Inl e \<Rightarrow> Inl e
         | Inr page \<Rightarrow> Inr (map (\<lambda>p. p\<lparr>p_Statement := [], p_JudgeConfig := Encoded empty_judge_config,
                                          p_AllowedLangs := None\<rparr>) page, int (length rows)))"

definition CanNonAdminView :: "time \<Rightarrow> ID \<Rightarrow> ID \<Rightarrow> bool \<Rightarrow> db \<Rightarrow> bool" where
  "CanNonAdminView now problemID userID authed d \<longleftrightarrow>
     list_ex (\<lambda>c. c_EndTime c < now \<or>
                  c_StartTime c \<le> now \<and> now \<le> c_EndTime c \<and>
                  (c_IsPublic c \<or> authed \<and> is_participant d (c_ID c) userID)) (contests_with problemID d)"

definition CreateProblem :: "time \<Rightarrow> problem \<Rightarrow> db \<Rightarrow> problem dbres \<times> db" where
  "CreateProblem now p d =
     (if \<not> has_user d (p_AuthorID p) then (Inl DBForeignKeyViolation, d)
      else let p = p\<lparr>p_ID := db_seq d, p_CreatedAt := now, p_UpdatedAt := now,
                     p_AllowedLangs := (if p_AllowedLangs p = Some [] then None else p_AllowedLangs p)\<rparr>
           in (Inr p, d\<lparr>db_problems := db_problems d @ [p], db_seq := db_seq d + 1\<rparr>))"

definition UpdateProblem :: "time \<Rightarrow> problem \<Rightarrow> db \<Rightarrow> unit dbres \<times> db" where
  "UpdateProblem now p d =
     (if \<not> has_problem d (p_ID p) then (Inl DBNotFound, d)
      else (Inr (), d\<lparr>db_problems := map (\<lambda>q. if p_ID q = p_ID p
              then q\<lparr>p_Title := p_Title p, p_Statement := p_Statement p, p_TimeLimitMs := p_TimeLimitMs p,
                     p_MemLimitKB := p_MemLimitKB p, p_JudgeType := p_JudgeType p, p_IsPublic := p_IsPublic p,
                     p_UpdatedAt := now\<rparr> else q) (db_problems d)\<rparr>))"

definition DeleteProblem :: "ID \<Rightarrow> db \<Rightarrow> unit dbres \<times> db" where
  "DeleteProblem i d =
     (if \<not> has_problem d i then (Inl DBNotFound, d)
      else (Inr (), d\<lparr>db_submissions := filter (\<lambda>s. sub_ProblemID s \<noteq> i) (db_submissions d),
                     db_problems := filter (\<lambda>p. p_ID p \<noteq> i) (db_problems d),
                     db_test_cases := filter (\<lambda>r. tr_ProblemID r \<noteq> i) (db_test_cases d),
                     db_contest_problems := filter (\<lambda>cp. cp_ProblemID cp \<noteq> i) (db_contest_problems d)\<rparr>))"

section \<open>Contests\<close>

definition scanContest :: "time \<Rightarrow> contest \<Rightarrow> contest" where
  "scanContest now c = c\<lparr>c_Settings := Map.empty, c_Status := EffectiveStatus c now\<rparr>"

definition ContestRepo_GetByID :: "time \<Rightarrow> ID \<Rightarrow> db \<Rightarrow> contest option" where
  "ContestRepo_GetByID now i d = map_option (scanContest now) (find (\<lambda>c. c_ID c = i) (db_contests d))"

definition ContestRepo_List :: "time \<Rightarrow> bool \<Rightarrow> int \<Rightarrow> int \<Rightarrow> db \<Rightarrow> (contest list \<times> int) dbres" where
  "ContestRepo_List now onlyPublic limit offset d =
     (let rows = filter (\<lambda>c. \<not> onlyPublic \<or> c_IsPublic c) (db_contests d)
      in case paginate limit offset (sort_slice (\<lambda>a b. c_StartTime a > c_StartTime b) rows) of
           Inl e \<Rightarrow> Inl e
         | Inr page \<Rightarrow> Inr (map (scanContest now) page, int (length rows)))"

definition ListByParticipant :: "time \<Rightarrow> ID \<Rightarrow> db \<Rightarrow> contest list" where
  "ListByParticipant now uid d =
     map (scanContest now) (sort_slice (\<lambda>a b. c_StartTime a > c_StartTime b)
       (concat (map (\<lambda>cp. filter (\<lambda>c. c_ID c = cpt_ContestID cp) (db_contests d))
          (filter (\<lambda>cp. cpt_UserID cp = uid) (db_participants d)))))"

record contest_problem_summary =
  cps_ProblemID :: ID
  cps_Label :: string
  cps_Title :: string
  cps_MaxScore :: int
  cps_Ordinal :: int
  cps_TimeLimitMs :: int
  cps_MemLimitKB :: int

definition GetProblems :: "ID \<Rightarrow> db \<Rightarrow> contest_problem_summary list" where
  "GetProblems cid d =
     concat (map (\<lambda>cp. map (\<lambda>p. \<lparr>cps_ProblemID = cp_ProblemID cp, cps_Label = cp_Label cp, cps_Title = p_Title p,
           cps_MaxScore = cp_MaxScore cp, cps_Ordinal = cp_Ordinal cp, cps_TimeLimitMs = p_TimeLimitMs p,
           cps_MemLimitKB = p_MemLimitKB p\<rparr>) (filter (\<lambda>p. p_ID p = cp_ProblemID cp) (db_problems d)))
       (sort_slice (\<lambda>a b. cp_Ordinal a < cp_Ordinal b) (filter (\<lambda>cp. cp_ContestID cp = cid) (db_contest_problems d))))"

definition next_ordinal :: "ID \<Rightarrow> int \<Rightarrow> db \<Rightarrow> int" where
  "next_ordinal cid ordinal d =
     (if ordinal \<le> 0 then
        (case map cp_Ordinal (filter (\<lambda>cp. cp_ContestID cp = cid) (db_contest_problems d)) of
           [] \<Rightarrow> 1
         | o1 # os \<Rightarrow> foldl max o1 os + 1)
      else ordinal)"

definition link_problem :: "ID \<Rightarrow> ID \<Rightarrow> string \<Rightarrow> int \<Rightarrow> int \<Rightarrow> db \<Rightarrow> unit dbres \<times> db" where
  "link_problem cid pid label maxScore ordinal d =
     (if list_ex (\<lambda>cp. cp_ContestID cp = cid \<and> cp_ProblemID cp = pid) (db_contest_problems d)
      then (Inl DBUniqueViolation, d)
      else if \<not> has_contest d cid \<or> \<not> has_problem d pid then (Inl DBForeignKeyViolation, d)
      else (Inr (), d\<lparr>db_contest_problems := db_contest_problems d @
              [\<lparr>cp_ContestID = cid, cp_ProblemID = pid, cp_Label = label,
                cp_MaxScore = (if maxScore \<le> 0 then 100 else maxScore),
                cp_Ordinal = next_ordinal cid ordinal d\<rparr>]\<rparr>))"

definition ContestRepo_AddProblem :: "ID \<Rightarrow> ID \<Rightarrow> string \<Rightarrow> int \<Rightarrow> int \<Rightarrow> db \<Rightarrow> unit dbres \<times> db" where
  "ContestRepo_AddProblem cid pid label maxScore ordinal d = link_problem cid pid label maxScore ordinal d"

definition CreateContestProblem ::
  "time \<Rightarrow> ID \<Rightarrow> problem \<Rightarrow> string \<Rightarrow> int \<Rightarrow> int \<Rightarrow> db \<Rightarrow> problem dbres \<times> db" where
  "CreateContestProblem now cid p label maxScore ordinal d =
     (if \<not> has_user d (p_AuthorID p) then (Inl DBForeignKeyViolation, d)
      else let p = p\<lparr>p_ID := db_seq d, p_JudgeConfig := Encoded empty_judge_config, p_AllowedLangs := None,
                     p_IsPublic := False, p_CreatedAt := now, p_UpdatedAt := now\<rparr>
           in case link_problem cid (p_ID p) label maxScore ordinal
                     (d\<lparr>db_problems := db_problems d @ [p], db_seq := db_seq d + 1\<rparr>) of
                (Inl e, _) \<Rightarrow> (Inl e, d)
              | (Inr _, d') \<Rightarrow> (Inr p, d'))"

definition ContestRepo_RemoveProblem :: "ID \<Rightarrow> ID \<Rightarrow> db \<Rightarrow> db" where
  "ContestRepo_RemoveProblem cid pid d =
     d\<lparr>db_contest_problems := filter (\<lambda>cp. \<not> (cp_ContestID cp = cid \<and> cp_ProblemID cp = pid)) (db_contest_problems d)\<rparr>"

record contest_team =
  ct_UserID :: ID
  ct_Username :: string
  ct_Organization :: string

definition ListContestTeams :: "ID \<Rightarrow> db \<Rightarrow> contest_team list" where
  "ListContestTeams cid d =
     map (\<lambda>u. \<lparr>ct_UserID = u_ID u, ct_Username = u_Username u, ct_Organization = u_Organization u\<rparr>)
       (sort_slice (\<lambda>a b. u_ID a < u_ID b)
          (filter (\<lambda>u. is_participant d cid (u_ID u) \<or>
                       list_ex (\<lambda>s. sub_ContestID s = Some cid \<and> sub_UserID s = u_ID u) (db_submissions d))
             (db_users d)))"

definition ContestRepo_Delete :: "ID \<Rightarrow> db \<Rightarrow> unit dbres \<times> db" where
  "ContestRepo_Delete i d =
     (if \<not> has_contest d i then (Inl DBNotFound, d)
      else (Inr (), d\<lparr>
              db_submissions := map (\<lambda>s. if sub_ContestID s = Some i then s\<lparr>sub_ContestID := None\<rparr> else s) (db_submissions d),
              db_contests := filter (\<lambda>c. c_ID c \<noteq> i) (db_contests d),
              db_contest_problems := filter (\<lambda>cp. cp_ContestID cp \<noteq> i) (db_contest_problems d),
              db_participants := filter (\<lambda>cp. cpt_ContestID cp \<noteq> i) (db_participants d)\<rparr>))"

definition may_submit :: "time \<Rightarrow> ID \<Rightarrow> contest \<Rightarrow> db \<Rightarrow> bool" where
  "may_submit now uid c d \<longleftrightarrow> c_StartTime c \<le> now \<and> now \<le> c_EndTime c \<and>
     (c_IsPublic c \<or> is_participant d (c_ID c) uid)"

definition ActiveContestForProblem :: "time \<Rightarrow> ID \<Rightarrow> ID \<Rightarrow> db \<Rightarrow> ID option" where
  "ActiveContestForProblem now problemID userID d =
     (case sort_slice (\<lambda>a b. c_StartTime a > c_StartTime b)
             (filter (\<lambda>c. may_submit now userID c d) (contests_with problemID d)) of
        [] \<Rightarrow> None
      | c # _ \<Rightarrow> Some (c_ID c))"

definition CanSubmitToContest :: "time \<Rightarrow> ID \<Rightarrow> ID \<Rightarrow> ID \<Rightarrow> db \<Rightarrow> bool" where
  "CanSubmitToContest now contestID problemID userID d \<longleftrightarrow>
     list_ex (\<lambda>c. c_ID c = contestID \<and> may_submit now userID c d) (contests_with problemID d)"

definition ContestRepo_Register :: "time \<Rightarrow> ID \<Rightarrow> ID \<Rightarrow> db \<Rightarrow> unit dbres \<times> db" where
  "ContestRepo_Register now cid uid d =
     (if is_participant d cid uid then (Inr (), d)
      else if \<not> has_contest d cid \<or> \<not> has_user d uid then (Inl DBForeignKeyViolation, d)
      else (Inr (), d\<lparr>db_participants := db_participants d @
              [\<lparr>cpt_ContestID = cid, cpt_UserID = uid, cpt_TeamID = None, cpt_RegisteredAt = now\<rparr>]\<rparr>))"

definition IsRegistered :: "ID \<Rightarrow> ID \<Rightarrow> db \<Rightarrow> bool" where
  "IsRegistered cid uid d = is_participant d cid uid"

definition ContestRepo_Create :: "time \<Rightarrow> contest \<Rightarrow> db \<Rightarrow> contest dbres \<times> db" where
  "ContestRepo_Create now c d =
     (if \<not> has_user d (c_OrganizerID c) then (Inl DBForeignKeyViolation, d)
      else let c = c\<lparr>c_ID := db_seq d, c_CreatedAt := now, c_UpdatedAt := now\<rparr>
           in (Inr c, d\<lparr>db_contests := db_contests d @ [c], db_seq := db_seq d + 1\<rparr>))"

section \<open>Loaders of the ranking service\<close>

definition ContestMetaLoader :: "db \<Rightarrow> ID \<Rightarrow> error + contest_meta" where
  "ContestMetaLoader d cid =
     (case find (\<lambda>c. c_ID c = cid) (db_contests d) of
        None \<Rightarrow> Inl ''contest not found''
      | Some c \<Rightarrow> Inr \<lparr>cm_ContestType = c_ContestType c, cm_Settings = c_Settings c, cm_StartTime = c_StartTime c,
                        cm_FreezeTime = c_FreezeTime c, cm_EndTime = c_EndTime c\<rparr>)"

definition ContestProblemsLoader :: "db \<Rightarrow> ID \<Rightarrow> error + problem_label list" where
  "ContestProblemsLoader d cid =
     Inr (map (\<lambda>cp. \<lparr>pl_ProblemID = cp_ProblemID cp, pl_Label = cp_Label cp\<rparr>)
       (sort_slice (\<lambda>a b. cp_Ordinal a < cp_Ordinal b) (filter (\<lambda>cp. cp_ContestID cp = cid) (db_contest_problems d))))"

definition UsernamesLoader :: "db \<Rightarrow> ID list \<Rightarrow> error + (ID \<rightharpoonup> user_info)" where
  "UsernamesLoader d userIDs =
     Inr (map_of (map (\<lambda>u. (u_ID u, \<lparr>ui_Username = u_Username u, ui_Organization = u_Organization u\<rparr>))
       (filter (\<lambda>u. u_ID u \<in> set userIDs) (db_users d))))"

section \<open>Submissions\<close>

definition SubmissionRepo_Create :: "time \<Rightarrow> submission \<Rightarrow> db \<Rightarrow> submission dbres \<times> db" where
  "SubmissionRepo_Create now s d =
     (if \<not> has_user d (sub_UserID s) \<or> \<not> has_problem d (sub_ProblemID s) \<or>
         (case sub_ContestID s of None \<Rightarrow> False | Some cid \<Rightarrow> \<not> has_contest d cid)
      then (Inl DBForeignKeyViolation, d)
      else let s = s\<lparr>sub_ID := db_seq d, sub_CreatedAt := now, sub_UpdatedAt := now\<rparr>
           in (Inr s, d\<lparr>db_submissions := db_submissions d @ [s\<lparr>sub_ContestType := None\<rparr>], db_seq := db_seq d + 1\<rparr>))"

definition SubmissionRepo_GetByID :: "ID \<Rightarrow> db \<Rightarrow> submission option" where
  "SubmissionRepo_GetByID i d = find (\<lambda>s. sub_ID s = i) (db_submissions d)"

record submission_filter =
  sf_UserID :: "ID option"
  sf_ProblemID :: "ID option"
  sf_ContestID :: "ID option"
  sf_Status :: "SubmissionStatus option"

record submission_list_item =
  sli_ID :: ID
  sli_UserID :: ID
  sli_Username :: string
  sli_ProblemID :: ID
  sli_ProblemTitle :: string
  sli_ContestID :: "ID option"
  sli_Language :: Language
  sli_Status :: SubmissionStatus
  sli_Score :: int
  sli_TimeUsedMs :: int
  sli_MemUsedKB :: int
  sli_CreatedAt :: time

definition filter_matches :: "submission_filter \<Rightarrow> submission \<Rightarrow> bool" where
  "filter_matches f s \<longleftrightarrow>
     (case sf_UserID f of None \<Rightarrow> True | Some u \<Rightarrow> sub_UserID s = u) \<and>
     (case sf_ProblemID f of None \<Rightarrow> True | Some p \<Rightarrow> sub_ProblemID s = p) \<and>
     (case sf_ContestID f of None \<Rightarrow> True | Some c \<Rightarrow> sub_ContestID s = Some c) \<and>
     (case sf_Status f of None \<Rightarrow> True | Some st \<Rightarrow> sub_Status s = st)"

definition list_items :: "db \<Rightarrow> submission \<Rightarrow> submission_list_item list" where
  "list_items d s =
     concat (map (\<lambda>u. map (\<lambda>p. \<lparr>sli_ID = sub_ID s, sli_UserID = sub_UserID s, sli_Username = u_Username u,
          sli_ProblemID = sub_ProblemID s, sli_ProblemTitle = p_Title p, sli_ContestID = sub_ContestID s,
          sli_Language = sub_Language s, sli_Status = sub_Status s, sli_Score = sub_Score s,
          sli_TimeUsedMs = sub_TimeUsedMs s, sli_MemUsedKB = sub_MemUsedKB s, sli_CreatedAt = sub_CreatedAt s\<rparr>)
        (filter (\<lambda>p. p_ID p = sub_ProblemID s) (db_problems d)))
      (filter (\<lambda>u. u_ID u = sub_UserID s) (db_users d)))"

definition ListAll ::
  "submission_filter \<Rightarrow> int \<Rightarrow> int \<Rightarrow> db \<Rightarrow> (submission_list_item list \<times> int) dbres" where
  "ListAll f limit offset d =
     (let rows = filter (filter_matches f) (db_submissions d)
      in case paginate limit offset
                (concat (map (list_items d) (sort_slice (\<lambda>a b. sub_ID a > sub_ID b) rows))) of
           Inl e \<Rightarrow> Inl e
         | Inr page \<Rightarrow> Inr (page, int (length rows)))"

record feed_submission =
  fs_ID :: ID
  fs_UserID :: ID
  fs_ProblemID :: ID
  fs_Status :: SubmissionStatus
  fs_CreatedAt :: time

definition ListForFeed :: "ID \<Rightarrow> db \<Rightarrow> feed_submission list" where
  "ListForFeed cid d =
     map (\<lambda>s. \<lparr>fs_ID = sub_ID s, fs_UserID = sub_UserID s, fs_ProblemID = sub_ProblemID s, fs_Status = sub_Status s,
              fs_CreatedAt = sub_CreatedAt s\<rparr>)
       (sort_slice (\<lambda>a b. sub_CreatedAt a < sub_CreatedAt b \<or> sub_CreatedAt a = sub_CreatedAt b \<and> sub_ID a < sub_ID b)
          (filter (\<lambda>s. sub_ContestID s = Some cid) (db_submissions d)))"

text \<open>Columns that a query does not select have their zero value.\<close>

definition pending_row :: "submission \<Rightarrow> submission" where
  "pending_row s = s\<lparr>sub_ContestType := None, sub_Score := 0, sub_TimeUsedMs := 0, sub_MemUsedKB := 0,
     sub_CompileLog := [], sub_JudgeMessage := [], sub_TestCaseResults := [], sub_JudgeNodeID := [],
     sub_UpdatedAt := 0\<rparr>"

definition ListPendingByContest :: "ID \<Rightarrow> db \<Rightarrow> submission list" where
  "ListPendingByContest cid d =
     map pending_row (sort_slice (\<lambda>a b. sub_ID a < sub_ID b)
       (filter (\<lambda>s. sub_ContestID s = Some cid \<and> sub_Status s = StatusPending) (db_submissions d)))"

definition MarkSuperseded :: "time \<Rightarrow> ID list \<Rightarrow> db \<Rightarrow> db" where
  "MarkSuperseded now ids d =
     (if ids = [] then d
      else d\<lparr>db_submissions := map (\<lambda>s. if sub_ID s \<in> set ids \<and> sub_Status s = StatusPending
                then s\<lparr>sub_Status := StatusSuperseded, sub_UpdatedAt := now\<rparr> else s) (db_submissions d)\<rparr>)"

record user_stats =
  us_Total :: int
  us_Accepted :: int
  us_Solved :: int

definition UserStats :: "ID \<Rightarrow> db \<Rightarrow> user_stats" where
  "UserStats uid d =
     (let rows = filter (\<lambda>s. sub_UserID s = uid) (db_submissions d);
          ac = filter (\<lambda>s. sub_Status s = StatusAccepted) rows
      in \<lparr>us_Total = int (length rows), us_Accepted = int (length ac),
          us_Solved = int (length (remdups (map sub_ProblemID ac)))\<rparr>)"

definition SubmissionRepo_Update :: "time \<Rightarrow> submission \<Rightarrow> db \<Rightarrow> unit dbres \<times> db" where
  "SubmissionRepo_Update now s d =
     (if sub_ID s \<notin> sub_ID ` set (db_submissions d) then (Inl DBNotFound, d)
      else (Inr (), d\<lparr>db_submissions := map (\<lambda>r. if sub_ID r = sub_ID s
              then r\<lparr>sub_Status := sub_Status s, sub_Score := sub_Score s, sub_TimeUsedMs := sub_TimeUsedMs s,
                     sub_MemUsedKB := sub_MemUsedKB s, sub_CompileLog := sub_CompileLog s,
                     sub_JudgeMessage := sub_JudgeMessage s, sub_TestCaseResults := sub_TestCaseResults s,
                     sub_JudgeNodeID := sub_JudgeNodeID s, sub_UpdatedAt := now\<rparr> else r) (db_submissions d)\<rparr>))"

section \<open>Schema integrity\<close>

definition emails_ok :: "user list \<Rightarrow> bool" where
  "emails_ok us \<longleftrightarrow> (\<forall>u \<in> set us. \<forall>v \<in> set us. u_Email u = u_Email v \<longrightarrow> u_Email u = None \<or> u_ID u = u_ID v)"

definition keys_ok :: "db \<Rightarrow> bool" where
  "keys_ok d \<longleftrightarrow> distinct (map u_ID (db_users d)) \<and> distinct (map u_Username (db_users d)) \<and>
     emails_ok (db_users d) \<and> distinct (map p_ID (db_problems d)) \<and>
     distinct (map c_ID (db_contests d)) \<and> distinct (map sub_ID (db_submissions d)) \<and>
     distinct (map (\<lambda>cp. (cp_ContestID cp, cp_ProblemID cp)) (db_contest_problems d)) \<and>
     distinct (map (\<lambda>cp. (cpt_ContestID cp, cpt_UserID cp)) (db_participants d))"

definition fresh_ok :: "db \<Rightarrow> bool" where
  "fresh_ok d \<longleftrightarrow> list_all (\<lambda>u. u_ID u < db_seq d) (db_users d) \<and> list_all (\<lambda>p. p_ID p < db_seq d) (db_problems d) \<and>
     list_all (\<lambda>c. c_ID c < db_seq d) (db_contests d) \<and> list_all (\<lambda>s. sub_ID s < db_seq d) (db_submissions d)"

definition refs_ok :: "db \<Rightarrow> bool" where
  "refs_ok d \<longleftrightarrow> list_all (\<lambda>p. has_user d (p_AuthorID p)) (db_problems d) \<and>
     list_all (\<lambda>r. has_problem d (tr_ProblemID r)) (db_test_cases d) \<and>
     list_all (\<lambda>c. has_user d (c_OrganizerID c)) (db_contests d) \<and>
     list_all (\<lambda>cp. has_contest d (cp_ContestID cp) \<and> has_problem d (cp_ProblemID cp)) (db_contest_problems d) \<and>
     list_all (\<lambda>cp. has_contest d (cpt_ContestID cp) \<and> has_user d (cpt_UserID cp)) (db_participants d) \<and>
     list_all (\<lambda>s. has_user d (sub_UserID s) \<and> has_problem d (sub_ProblemID s) \<and>
        sub_ContestID s \<in> insert None (Some ` c_ID ` set (db_contests d))) (db_submissions d)"

definition db_ok :: "db \<Rightarrow> bool" where
  "db_ok d \<longleftrightarrow> keys_ok d \<and> fresh_ok d \<and> refs_ok d"

definition empty_db :: db where
  "empty_db = \<lparr>db_users = [], db_problems = [], db_test_cases = [], db_contests = [], db_contest_problems = [],
     db_participants = [], db_submissions = [], db_seq = 1\<rparr>"

inductive db_step :: "db \<Rightarrow> db \<Rightarrow> bool" where
  create_user: "db_step d (snd (UserRepo_Create now u d))"
| bind_email: "db_step d (snd (BindEmail now i email d))"
| update_profile: "db_step d (snd (UpdateProfile now i organization d))"
| update_password: "db_step d (snd (UpdatePassword now i hash d))"
| replace_cases: "db_step d (snd (ReplaceTestCases i cases d))"
| create_problem: "db_step d (snd (CreateProblem now p d))"
| update_problem: "db_step d (snd (UpdateProblem now p d))"
| delete_problem: "db_step d (snd (DeleteProblem i d))"
| create_contest: "db_step d (snd (ContestRepo_Create now c d))"
| delete_contest: "db_step d (snd (ContestRepo_Delete i d))"
| add_problem: "db_step d (snd (ContestRepo_AddProblem cid pid label maxScore ordinal d))"
| create_contest_problem: "db_step d (snd (CreateContestProblem now cid p label maxScore ordinal d))"
| remove_problem: "db_step d (ContestRepo_RemoveProblem cid pid d)"
| register: "db_step d (snd (ContestRepo_Register now cid uid d))"
| create_submission: "db_step d (snd (SubmissionRepo_Create now s d))"
| mark_superseded: "db_step d (MarkSuperseded now ids d)"
| update_submission: "db_step d (snd (SubmissionRepo_Update now s d))"

inductive db_reachable :: "db \<Rightarrow> bool" where
  empty: "db_reachable empty_db"
| step: "db_reachable d \<Longrightarrow> db_step d d' \<Longrightarrow> db_reachable d'"

lemmas db_has = has_user_def has_problem_def has_contest_def
lemmas db_ok_defs = db_ok_def keys_ok_def fresh_ok_def refs_ok_def db_has list_all_iff

lemma map_upd_same:
  "(\<And>x. x \<in> set xs \<Longrightarrow> g (f x) = g x) \<Longrightarrow> map g (map f xs) = map g xs"
  by simp

lemma distinct_map_filter_key: "distinct (map f xs) \<Longrightarrow> distinct (map f (filter P xs))"
  by (simp add: distinct_map_filter)

lemma has_user_upd [simp]:
  assumes "\<And>u. u_ID (f u) = u_ID u"
  shows "has_user (d\<lparr>db_users := map f (db_users d)\<rparr>) i = has_user d i"
  using assms by (auto simp: has_user_def image_image)

lemma db_ok_users_map:
  assumes "db_ok d" and "\<And>u. u_ID (f u) = u_ID u" and "\<And>u. u_Username (f u) = u_Username u"
    and "emails_ok (map f (db_users d))"
  shows "db_ok (d\<lparr>db_users := map f (db_users d)\<rparr>)"
proof -
  have "map u_ID (map f (db_users d)) = map u_ID (db_users d)"
    "map u_Username (map f (db_users d)) = map u_Username (db_users d)" using assms(2,3) by simp_all
  moreover have "u_ID ` f ` set (db_users d) = u_ID ` set (db_users d)" using assms(2) by (simp add: image_image)
  ultimately show ?thesis
    using assms unfolding db_ok_def keys_ok_def fresh_ok_def refs_ok_def db_has
    by (simp add: list_all_iff del: map_map)
qed

lemma emails_ok_map:
  "db_ok d \<Longrightarrow> (\<And>u. u_ID (f u) = u_ID u) \<Longrightarrow> (\<And>u. u_Email (f u) = u_Email u) \<Longrightarrow> emails_ok (map f (db_users d))"
  by (simp add: db_ok_def keys_ok_def emails_ok_def)

lemma db_ok_submissions_map:
  assumes "db_ok d" and "\<And>s. sub_ID (f s) = sub_ID s" and "\<And>s. sub_UserID (f s) = sub_UserID s"
    and "\<And>s. sub_ProblemID (f s) = sub_ProblemID s" and "\<And>s. sub_ContestID (f s) = sub_ContestID s"
  shows "db_ok (d\<lparr>db_submissions := map f (db_submissions d)\<rparr>)"
proof -
  have "map sub_ID (map f (db_submissions d)) = map sub_ID (db_submissions d)" using assms(2) by simp
  then show ?thesis
    using assms unfolding db_ok_def keys_ok_def fresh_ok_def refs_ok_def db_has
    by (simp add: list_all_iff del: map_map)
qed

lemma not_fresh: "list_all (\<lambda>x. f x < (n :: int)) xs \<Longrightarrow> n \<notin> f ` set xs"
  by (auto simp: list_all_iff)

lemma db_ok_contest_problems:
  assumes "db_ok d" and "set rows \<subseteq> set (db_contest_problems d)"
    and "distinct (map (\<lambda>cp. (cp_ContestID cp, cp_ProblemID cp)) rows)"
  shows "db_ok (d\<lparr>db_contest_problems := rows\<rparr>)"
  using assms unfolding db_ok_defs by auto

lemma insert_cases_problem:
  "insert_cases i tcs rows seq = Inr (rows', seq') \<Longrightarrow>
   seq \<le> seq' \<and> set (map tr_ProblemID rows') \<subseteq> set (map tr_ProblemID rows) \<union> (if tcs = [] then {} else {i})"
  by (induction i tcs rows seq rule: insert_cases.induct) (auto split: if_splits)

lemma db_ok_bind_email:
  assumes "db_ok d"
  shows "db_ok (snd (BindEmail now i email d))"
proof -
  let ?hit = "\<lambda>u. u_ID u = i \<and> u_Email u = None"
  let ?f = "\<lambda>u. if ?hit u then u\<lparr>u_Email := Some email, u_UpdatedAt := now\<rparr> else u"
  have "db_ok (d\<lparr>db_users := map ?f (db_users d)\<rparr>)" if "Some email \<notin> u_Email ` set (db_users d)"
  proof (rule db_ok_users_map [OF assms])
    have old: "emails_ok (db_users d)" using assms by (simp add: db_ok_def keys_ok_def)
    show "emails_ok (map ?f (db_users d))"
      unfolding emails_ok_def
    proof (intro ballI impI)
      fix x y assume "x \<in> set (map ?f (db_users d))" "y \<in> set (map ?f (db_users d))" and eq: "u_Email x = u_Email y"
      then obtain u v where uv: "u \<in> set (db_users d)" "x = ?f u" "v \<in> set (db_users d)" "y = ?f v"
        unfolding set_map by blast
      have new: "u_Email w \<noteq> Some email" if "w \<in> set (db_users d)" for w
        using that \<open>Some email \<notin> u_Email ` set (db_users d)\<close> by force
      show "u_Email x = None \<or> u_ID x = u_ID y"
        using old uv eq new [of u] new [of v] unfolding emails_ok_def by (auto split: if_splits)
    qed
  qed simp_all
  then show ?thesis using assms by (simp add: BindEmail_def Let_def)
qed

lemma db_ok_create_user:
  assumes "db_ok d"
  shows "db_ok (snd (UserRepo_Create now u d))"
proof -
  let ?u = "u\<lparr>u_ID := db_seq d, u_CreatedAt := now, u_UpdatedAt := now\<rparr>"
  let ?d = "d\<lparr>db_users := db_users d @ [?u], db_seq := db_seq d + 1\<rparr>"
  have "db_ok ?d" if new: "u_Username u \<notin> u_Username ` set (db_users d)"
    "u_Email u = None \<or> u_Email u \<notin> u_Email ` set (db_users d)"
  proof -
    have "emails_ok (db_users d @ [?u])"
      using assms new(2) unfolding db_ok_def keys_ok_def emails_ok_def by (auto simp: image_iff)
    moreover have "db_seq d \<notin> u_ID ` set (db_users d)"
      using assms by (auto simp: db_ok_def fresh_ok_def list_all_iff)
    ultimately have "keys_ok ?d" using assms new(1) by (simp add: db_ok_def keys_ok_def)
    moreover have "fresh_ok ?d" using assms by (auto simp: db_ok_def fresh_ok_def list_all_iff)
    moreover have "refs_ok ?d" using assms by (auto simp: db_ok_def refs_ok_def db_has list_all_iff)
    ultimately show ?thesis by (simp add: db_ok_def)
  qed
  then show ?thesis using assms by (auto simp: UserRepo_Create_def Let_def)
qed

lemma db_ok_replace_cases:
  assumes "db_ok d"
  shows "db_ok (snd (ReplaceTestCases i cases d))"
proof (cases "insert_cases i cases (filter (\<lambda>r. tr_ProblemID r \<noteq> i) (db_test_cases d)) (db_seq d)")
  case (Inl e)
  then show ?thesis using assms by (simp add: ReplaceTestCases_def Let_def)
next
  case (Inr x)
  obtain rows seq where x: "x = (rows, seq)" by fastforce
  let ?f = "\<lambda>cp. if cp_ProblemID cp = i then cp\<lparr>cp_MaxScore := sum_list (map jtc_Score cases)\<rparr> else cp"
  have keys: "(\<lambda>cp. (cp_ContestID cp, cp_ProblemID cp)) (?f cp) = (\<lambda>cp. (cp_ContestID cp, cp_ProblemID cp)) cp" for cp
    by simp
  have mkeys: "map (\<lambda>cp. (cp_ContestID cp, cp_ProblemID cp)) (map ?f (db_contest_problems d)) =
    map (\<lambda>cp. (cp_ContestID cp, cp_ProblemID cp)) (db_contest_problems d)"
    by (rule map_upd_same) (rule keys)
  note ic = insert_cases_problem [OF Inr [unfolded x]]
  have "db_ok (d\<lparr>db_test_cases := rows, db_seq := seq, db_contest_problems := map ?f (db_contest_problems d)\<rparr>)"
    if "cases \<noteq> [] \<longrightarrow> has_problem d i"
    using assms ic that mkeys unfolding db_ok_defs
    by (auto simp del: map_map split: if_splits)
  then show ?thesis using assms Inr x by (auto simp: ReplaceTestCases_def Let_def)
qed

lemma db_ok_create_problem: "db_ok d \<Longrightarrow> db_ok (snd (CreateProblem now p d))"
  by (auto simp: CreateProblem_def Let_def db_ok_defs image_iff)

lemma db_ok_problems_map:
  assumes "db_ok d" and "\<And>p. p_ID (f p) = p_ID p" and "\<And>p. p_AuthorID (f p) = p_AuthorID p"
  shows "db_ok (d\<lparr>db_problems := map f (db_problems d)\<rparr>)"
proof -
  have "map p_ID (map f (db_problems d)) = map p_ID (db_problems d)" using assms(2) by simp
  moreover have "p_ID ` f ` set (db_problems d) = p_ID ` set (db_problems d)" using assms(2) by (simp add: image_image)
  ultimately show ?thesis
    using assms unfolding db_ok_def keys_ok_def fresh_ok_def refs_ok_def db_has
    by (simp add: list_all_iff del: map_map)
qed

lemma db_ok_update_problem: "db_ok d \<Longrightarrow> db_ok (snd (UpdateProblem now p d))"
  by (auto simp: UpdateProblem_def intro!: db_ok_problems_map)

lemma db_ok_delete_problem: "db_ok d \<Longrightarrow> db_ok (snd (DeleteProblem i d))"
  by (auto simp: DeleteProblem_def db_ok_defs distinct_map_filter_key filter_map o_def)

lemma db_ok_create_contest: "db_ok d \<Longrightarrow> db_ok (snd (ContestRepo_Create now c d))"
  by (auto simp: ContestRepo_Create_def Let_def db_ok_defs image_iff)

lemma detach_ids:
  "map sub_ID (map (\<lambda>s. if sub_ContestID s = Some i then s\<lparr>sub_ContestID := None\<rparr> else s) xs) = map sub_ID xs"
  by (rule map_upd_same) simp

lemma db_ok_delete_contest:
  assumes "db_ok d"
  shows "db_ok (snd (ContestRepo_Delete i d))"
proof -
  let ?d = "d\<lparr>db_submissions := map (\<lambda>s. if sub_ContestID s = Some i then s\<lparr>sub_ContestID := None\<rparr> else s) (db_submissions d),
      db_contests := filter (\<lambda>c. c_ID c \<noteq> i) (db_contests d),
      db_contest_problems := filter (\<lambda>cp. cp_ContestID cp \<noteq> i) (db_contest_problems d),
      db_participants := filter (\<lambda>cp. cpt_ContestID cp \<noteq> i) (db_participants d)\<rparr>"
  have "keys_ok ?d"
    using assms by (simp add: db_ok_def keys_ok_def distinct_map_filter_key detach_ids del: map_map)
  moreover have "fresh_ok ?d" using assms by (auto simp: db_ok_def fresh_ok_def list_all_iff)
  moreover have "refs_ok ?d" using assms by (auto simp: db_ok_def refs_ok_def db_has list_all_iff)
  ultimately show ?thesis using assms by (simp add: ContestRepo_Delete_def db_ok_def)
qed

lemma db_ok_link: "db_ok d \<Longrightarrow> db_ok (snd (link_problem cid pid label maxScore ordinal d))"
  by (auto simp: link_problem_def db_ok_defs list_ex_iff)

lemma db_ok_create_contest_problem:
  assumes "db_ok d"
  shows "db_ok (snd (CreateContestProblem now cid p label maxScore ordinal d))"
proof -
  let ?p = "p\<lparr>p_ID := db_seq d, p_JudgeConfig := Encoded empty_judge_config, p_AllowedLangs := None,
      p_IsPublic := False, p_CreatedAt := now, p_UpdatedAt := now\<rparr>"
  have "db_ok (d\<lparr>db_problems := db_problems d @ [?p], db_seq := db_seq d + 1\<rparr>)" if "has_user d (p_AuthorID p)"
    using assms that by (auto simp: db_ok_defs image_iff)
  then show ?thesis
    using assms db_ok_link [of "d\<lparr>db_problems := db_problems d @ [?p], db_seq := db_seq d + 1\<rparr>"
        cid "db_seq d" label maxScore ordinal]
    by (simp add: CreateContestProblem_def Let_def split: prod.split sum.split) (metis snd_conv)
qed

lemma db_ok_register: "db_ok d \<Longrightarrow> db_ok (snd (ContestRepo_Register now cid uid d))"
  by (auto simp: ContestRepo_Register_def db_ok_defs is_participant_def list_ex_iff)

lemma db_ok_create_submission: "db_ok d \<Longrightarrow> db_ok (snd (SubmissionRepo_Create now s d))"
  by (auto simp: SubmissionRepo_Create_def Let_def db_ok_defs image_iff split: option.splits)

lemmas db_ok_writes = db_ok_create_user db_ok_bind_email db_ok_replace_cases db_ok_create_problem db_ok_update_problem
  db_ok_delete_problem db_ok_create_contest db_ok_delete_contest db_ok_create_contest_problem db_ok_register
  db_ok_create_submission

lemma db_ok_step: "db_step d d' \<Longrightarrow> db_ok d \<Longrightarrow> db_ok d'"
proof (induction rule: db_step.induct)
  case (update_profile d now i organization)
  then show ?case by (auto simp: UpdateProfile_def intro!: db_ok_users_map emails_ok_map)
next
  case (update_password d now i hash)
  then show ?case by (auto simp: UpdatePassword_def intro!: db_ok_users_map emails_ok_map)
next
  case (remove_problem d cid pid)
  then show ?case
    unfolding ContestRepo_RemoveProblem_def
    by (intro db_ok_contest_problems distinct_map_filter_key) (auto simp: db_ok_def keys_ok_def)
next
  case (mark_superseded d now ids)
  then show ?case by (auto simp: MarkSuperseded_def intro!: db_ok_submissions_map)
next
  case (update_submission d now s)
  then show ?case by (auto simp: SubmissionRepo_Update_def intro!: db_ok_submissions_map)
next
  case (add_problem d cid pid label maxScore ordinal)
  then show ?case by (simp add: ContestRepo_AddProblem_def db_ok_link)
qed (auto intro: db_ok_writes)

lemma db_ok_reachable: "db_reachable d \<Longrightarrow> db_ok d"
proof (induction rule: db_reachable.induct)
  case empty
  then show ?case by (simp add: empty_db_def db_ok_defs emails_ok_def)
qed (blast intro: db_ok_step)

section \<open>Properties\<close>


definition sample_user :: "string \<Rightarrow> user" where
  "sample_user name = \<lparr>u_ID = 0, u_Username = name, u_Email = None, u_PasswordHash = ''h'', u_Role = RoleContestant,
     u_Organization = [], u_CreatedAt = 0, u_UpdatedAt = 0\<rparr>"

definition sample_problem :: problem where
  "sample_problem = \<lparr>p_ID = 0, p_Title = ''sum'', p_Statement = [], p_TimeLimitMs = 1000, p_MemLimitKB = 65536,
     p_JudgeType = JudgeStandard, p_JudgeConfig = Encoded empty_judge_config, p_AllowedLangs = None,
     p_IsPublic = False, p_AuthorID = 1, p_CreatedAt = 0, p_UpdatedAt = 0\<rparr>"

text \<open>User 1, contest 2 owned by that user, with problem 3.\<close>

definition sample_db :: db where
  "sample_db =
     snd (ContestRepo_AddProblem 2 3 ''A'' 0 0 (snd (CreateProblem 10 sample_problem
       (snd (ContestRepo_Create 10 (sample_contest\<lparr>c_OrganizerID := 1\<rparr>)
         (snd (UserRepo_Create 10 (sample_user ''ann'') empty_db)))))))"

lemma sample_db_reachable: "db_reachable sample_db"
  unfolding sample_db_def
  by (intro db_reachable.step [OF _ db_step.add_problem] db_reachable.step [OF _ db_step.create_problem]
      db_reachable.step [OF _ db_step.create_contest] db_reachable.step [OF _ db_step.create_user] db_reachable.empty)

lemma sample_db_tables:
  "map u_ID (db_users sample_db) = [1]" "map c_ID (db_contests sample_db) = [2]"
  "map p_ID (db_problems sample_db) = [3]" "map cp_ProblemID (db_contest_problems sample_db) = [3]"
  by (simp_all add: sample_db_def ContestRepo_AddProblem_def link_problem_def CreateProblem_def ContestRepo_Create_def
      UserRepo_Create_def empty_db_def sample_user_def sample_contest_def sample_problem_def db_has Let_def)


end
