(* ===== verification/Http.thy ===== *)
theory Http
  imports Database
begin

text \<open>
  The HTTP layer the handlers share: package \<open>api/middleware\<close> (token authentication and role
  checks), the replies a handler can give, and the parsing of path and query parameters.

  A handler gets the values the middleware stored in the gin context. Validation of a token is the
  JWT library's work, so the parser is an argument: it yields the claims of a valid token. A request
  body is a payload; binding it checks the \<open>binding\<close> tags.
\<close>

section \<open>Replies and contexts\<close>

datatype 'b reply = Error nat string | Reply nat 'b

fun reply_status :: "'b reply \<Rightarrow> nat" where
  "reply_status (Error n _) = n"
| "reply_status (Reply n _) = n"

record gin_ctx =
  gc_user_id :: "ID option"
  gc_user_role :: "UserRole option"

definition no_auth :: gin_ctx where
  "no_auth = \<lparr>gc_user_id = None, gc_user_role = None\<rparr>"

record claims =
  cl_UserID :: ID
  cl_Role :: UserRole

type_synonym token_parser = "string \<Rightarrow> claims option"

section \<open>Middleware\<close>

definition with_claims :: "claims \<Rightarrow> gin_ctx \<Rightarrow> gin_ctx" where
  "with_claims cl c = c\<lparr>gc_user_id := Some (cl_UserID cl), gc_user_role := Some (cl_Role cl)\<rparr>"

definition Auth :: "token_parser \<Rightarrow> string \<Rightarrow> (gin_ctx \<Rightarrow> 'b reply \<times> 's) \<Rightarrow> 's \<Rightarrow> gin_ctx \<Rightarrow> 'b reply \<times> 's" where
  "Auth parse header next st c =
     (if \<not> HasPrefix header ''Bearer '' then (Error 401 ''missing bearer token'', st)
      else case parse (drop 7 header) of
             None \<Rightarrow> (Error 401 ''invalid token'', st)
           | Some cl \<Rightarrow> next (with_claims cl c))"

definition OptionalAuth :: "token_parser \<Rightarrow> string \<Rightarrow> (gin_ctx \<Rightarrow> 'b reply \<times> 's) \<Rightarrow> gin_ctx \<Rightarrow> 'b reply \<times> 's" where
  "OptionalAuth parse header next c =
     (if \<not> HasPrefix header ''Bearer '' then next c
      else case parse (drop 7 header) of
             None \<Rightarrow> next c
           | Some cl \<Rightarrow> next (with_claims cl c))"

text \<open>A role that is missing from the context is the empty string.\<close>

definition role_or_empty :: "gin_ctx \<Rightarrow> UserRole" where
  "role_or_empty c = (case gc_user_role c of None \<Rightarrow> RoleOther [] | Some r \<Rightarrow> r)"

definition RequireRole :: "UserRole list \<Rightarrow> (gin_ctx \<Rightarrow> 'b reply \<times> 's) \<Rightarrow> 's \<Rightarrow> gin_ctx \<Rightarrow> 'b reply \<times> 's" where
  "RequireRole roles next st c =
     (if role_or_empty c \<in> set roles then next c else (Error 403 ''insufficient permissions'', st))"

definition UserIDFromCtx :: "gin_ctx \<Rightarrow> ID \<times> bool" where
  "UserIDFromCtx c = (case gc_user_id c of None \<Rightarrow> (0, False) | Some i \<Rightarrow> (i, True))"

definition RoleFromCtx :: "gin_ctx \<Rightarrow> UserRole \<times> bool" where
  "RoleFromCtx c = (case gc_user_role c of None \<Rightarrow> (RoleOther [], False) | Some r \<Rightarrow> (r, True))"

definition is_admin :: "gin_ctx \<Rightarrow> bool" where
  "is_admin c \<longleftrightarrow> fst (RoleFromCtx c) = RoleAdmin"

lemma is_admin_iff: "is_admin c \<longleftrightarrow> gc_user_role c = Some RoleAdmin"
  by (simp add: is_admin_def RoleFromCtx_def split: option.split)

section \<open>Parameters\<close>

definition parse_id :: "string \<Rightarrow> ID option" where
  "parse_id s = (case parse_int s of None \<Rightarrow> None | Some i \<Rightarrow> if i \<le> 0 then None else Some i)"

definition parseContestID :: "string \<Rightarrow> ID option" where
  "parseContestID s = parse_id s"

definition mustUserID :: "gin_ctx \<Rightarrow> ID option" where
  "mustUserID c = (case gc_user_id c of None \<Rightarrow> None | Some i \<Rightarrow> if i = 0 then None else Some i)"

text \<open>
  \<open>strconv.Atoi\<close> as the handlers use it, with the error ignored: 0 on a syntax error, the nearest
  bound of the range when the number is too large.
\<close>

definition atoi_lenient :: "string \<Rightarrow> int" where
  "atoi_lenient s =
     (case parse_int s of
        Some i \<Rightarrow> i
      | None \<Rightarrow>
          (let digits = (case s of [] \<Rightarrow> [] | c # r \<Rightarrow> if c = CHR ''-'' \<or> c = CHR ''+'' then r else s)
           in if digits \<noteq> [] \<and> list_all is_digit digits
              then (if hd s = CHR ''-'' then - (2 ^ 63) else 2 ^ 63 - 1) else 0))"

definition parsePageSize :: "string \<Rightarrow> string \<Rightarrow> int \<times> int" where
  "parsePageSize pageQ sizeQ =
     (let p = atoi_lenient pageQ; n = atoi_lenient sizeQ
      in (if p < 1 then 1 else p, if n < 1 \<or> n > 100 then 20 else n))"

definition page_offset :: "int \<Rightarrow> int \<Rightarrow> int" where
  "page_offset page n = wrap64 ((page - 1) * n)"

text \<open>The number of runes in a valid UTF-8 string: its bytes less the continuation bytes.\<close>

definition rune_count :: "string \<Rightarrow> nat" where
  "rune_count s = length (filter (\<lambda>c. \<not> (128 \<le> (of_char c :: nat) \<and> (of_char c :: nat) < 192)) s)"

lemma parsePageSize_range:
  "parsePageSize p n = (page, k) \<Longrightarrow> 1 \<le> page \<and> 1 \<le> k \<and> k \<le> 100"
  by (auto simp: parsePageSize_def Let_def split: if_splits)

end
