(* ===== verification/Admin.thy ===== *)
theory Admin
  imports Http
begin

text \<open>
  Package \<open>api/handler\<close>, file \<open>admin.go\<close>: revealing a contest's board and uploading a problem's test data. The archive's entry names
  decide the test cases, the full mark is divided among them, the archive goes to the object store
  and the rows to the database.

  Reading the archive's directory is the zip library's work, so the list of entries is part of the
  environment.
\<close>

section \<open>Entries and scores\<close>

record zip_entry =
  ze_Name :: string
  ze_IsDir :: bool

datatype upload_warning = IgnoredEntry string | MissingOut int | MissingIn int

text \<open>The number of a name that matches \<open>^(\d+)\.ext$\<close>.\<close>

definition match_case :: "string \<Rightarrow> string \<Rightarrow> int option" where
  "match_case ext name =
     (let n = length name - length ext; digits = take n name
      in if length ext < length name \<and> drop n name = ext \<and> list_all is_digit digits
         then Some (atoi_lenient digits) else None)"

fun scan_entries ::
  "zip_entry list \<Rightarrow> (int \<times> string) list \<Rightarrow> (int \<times> string) list \<Rightarrow> string list \<Rightarrow> upload_warning list \<Rightarrow>
   (int \<times> string) list \<times> (int \<times> string) list \<times> string list \<times> upload_warning list" where
  "scan_entries [] ins outs files warns = (ins, outs, files, warns)"
| "scan_entries (zf # zfs) ins outs files warns =
     (if ze_IsDir zf then scan_entries zfs ins outs files warns
      else
        let name = ze_Name zf; files = files @ [name]
        in case match_case ''.in'' name of
             Some n \<Rightarrow> scan_entries zfs (AList.update n name ins) outs files warns
           | None \<Rightarrow>
               (case match_case ''.out'' name of
                  Some n \<Rightarrow> scan_entries zfs ins (AList.update n name outs) files warns
                | None \<Rightarrow> scan_entries zfs ins outs files (warns @ [IgnoredEntry name])))"

definition out_path :: "(int \<times> string) list \<Rightarrow> int \<Rightarrow> string" where
  "out_path outs n = (case map_of outs n of None \<Rightarrow> [] | Some s \<Rightarrow> s)"

fun build_cases :: "int \<Rightarrow> int \<Rightarrow> (int \<times> string) list \<Rightarrow> (int \<times> string) list \<Rightarrow> int list \<Rightarrow> judge_test_case list" where
  "build_cases base rem ins outs [] = []"
| "build_cases base rem ins outs (n # ns) =
     \<lparr>jtc_TestCaseID = 0, jtc_GroupID = 1, jtc_Ordinal = n, jtc_InputPath = the (map_of ins n),
      jtc_OutputPath = out_path outs n, jtc_Score = (if ns = [] then base + rem else base)\<rparr>
     # build_cases base rem ins outs ns"

text \<open>The last loop ranges over a map; \<open>rng\<close> is the order in which Go does so.\<close>

definition parseTestcaseEntries ::
  "(int list \<Rightarrow> int list) \<Rightarrow> zip_entry list \<Rightarrow> int \<Rightarrow>
   error + judge_test_case list \<times> string list \<times> upload_warning list" where
  "parseTestcaseEntries rng entries totalScore =
     (case scan_entries entries [] [] [] [] of
        (ins, outs, files, warns) \<Rightarrow>
          if ins = [] then Inl ''no N.in entries found at zip root''
          else
            let nums = sort (map fst ins);
                base = go_quot totalScore (int (length nums));
                rem = totalScore - base * int (length nums)
            in Inr (build_cases base rem ins outs nums, files,
                 warns @ map MissingOut (filter (\<lambda>n. out_path outs n = []) nums)
                       @ map MissingIn (filter (\<lambda>n. map_of ins n = None) (rng (map fst outs)))))"

section \<open>The handler\<close>

record upload_env =
  ue_body_bytes :: int
  ue_file :: "(string \<times> string) option"
  ue_total_score :: string
  ue_open_ok :: bool
  ue_seek_ok :: bool
  ue_reseek_ok :: bool
  ue_range :: "int list \<Rightarrow> int list"
  ue_entries :: "string \<Rightarrow> zip_entry list option"
  ue_put_ok :: bool
  ue_db_ok :: bool

record upload_state =
  us_db :: db
  us_zips :: "string \<rightharpoonup> string"

datatype upload_body = Uploaded string int "string list" int int "upload_warning list"

definition maxUploadBytes :: int where "maxUploadBytes = 500 * 1024 * 1024"

definition zipMagic :: string where "zipMagic = [CHR ''P'', CHR ''K'', CHR 0x03, CHR 0x04]"

definition file_ext :: "string \<Rightarrow> string" where
  "file_ext name =
     (let base = takeWhile (\<lambda>c. c \<noteq> CHR ''/'') (rev name)
      in if CHR ''.'' \<in> set base then rev (takeWhile (\<lambda>c. c \<noteq> CHR ''.'') base @ ''.'') else [])"

definition read_total :: "string \<Rightarrow> int option" where
  "read_total v =
     (if v = [] then Some 100
      else case parse_int v of None \<Rightarrow> None | Some n \<Rightarrow> if n < 1 then None else Some n)"

definition zip_key :: "ID \<Rightarrow> string" where
  "zip_key problemID = ''testcases/'' @ show_int problemID @ ''/data.zip''"

definition UploadTestcases :: "upload_env \<Rightarrow> string \<Rightarrow> upload_state \<Rightarrow> upload_body reply \<times> upload_state" where
  "UploadTestcases env idParam st =
     (case parse_id idParam of
        None \<Rightarrow> (Error 400 ''invalid problem id'', st)
      | Some problemID \<Rightarrow>
          (case ue_file env of
             None \<Rightarrow> (Error 400 ''field file is required'', st)
           | Some (filename, content) \<Rightarrow>
               if maxUploadBytes < ue_body_bytes env then (Error 400 ''field file is required'', st)
               else case read_total (ue_total_score env) of
                 None \<Rightarrow> (Error 400 ''total_score must be a positive integer'', st)
               | Some totalScore \<Rightarrow>
                   if ToLower (file_ext filename) \<noteq> ''.zip'' then (Error 400 ''uploaded file must have a .zip extension'', st)
                   else if \<not> ue_open_ok env then (Error 500 ''cannot open uploaded file'', st)
                   else if take 4 content \<noteq> zipMagic then (Error 400 ''file is not a valid ZIP archive'', st)
                   else if \<not> ue_seek_ok env then (Error 500 ''seek error'', st)
                   else case ue_entries env content of
                     None \<Rightarrow> (Error 400 ''cannot parse zip'', st)
                   | Some entries \<Rightarrow>
                       (case parseTestcaseEntries (ue_range env) entries totalScore of
                          Inl e \<Rightarrow> (Error 400 e, st)
                        | Inr (cases, files, warns) \<Rightarrow>
                            if \<not> ue_reseek_ok env then (Error 500 ''seek error'', st)
                            else if \<not> ue_put_ok env then (Error 500 ''storage upload failed'', st)
                            else
                              let st = st\<lparr>us_zips := (us_zips st)(zip_key problemID \<mapsto> content)\<rparr>
                              in if \<not> ue_db_ok env then (Error 500 ''registering test cases failed'', st)
                                 else case ReplaceTestCases problemID cases (us_db st) of
                                        (Inl _, _) \<Rightarrow> (Error 500 ''registering test cases failed'', st)
                                      | (Inr _, d) \<Rightarrow>
                                          (Reply 201 (Uploaded (zip_key problemID) (int (length content)) files
                                             (int (length cases)) totalScore warns), st\<lparr>us_db := d\<rparr>))))"

datatype reveal_body = Revealed ID

definition AdminHandler_RevealContest ::
  "ranking_env \<Rightarrow> string \<Rightarrow> ranking_state \<Rightarrow> reveal_body reply \<times> ranking_state" where
  "AdminHandler_RevealContest env idParam st =
     (case parseContestID idParam of
        None \<Rightarrow> (Error 400 ''invalid contest_id'', st)
      | Some contestID \<Rightarrow>
          (case RevealContest env contestID st of
             (Some _, st) \<Rightarrow> (Error 500 ''internal error'', st)
           | (None, st) \<Rightarrow> (Reply 200 (Revealed contestID), st)))"

section \<open>Lemmas\<close>

lemma scan_keys_distinct:
  "scan_entries zfs ins outs files warns = (ins', outs', files', warns') \<Longrightarrow> distinct (map fst ins) \<Longrightarrow>
   distinct (map fst ins')"
  by (induction zfs ins outs files warns rule: scan_entries.induct)
     (auto simp: Let_def distinct_update split: if_splits option.splits)

definition entry_ok :: "string \<Rightarrow> string list \<Rightarrow> (int \<times> string) list \<Rightarrow> bool" where
  "entry_ok ext files m \<longleftrightarrow> (\<forall>(n, s) \<in> set m. match_case ext s = Some n \<and> s \<in> set files)"

lemma entry_ok_Nil [simp]: "entry_ok ext files []"
  by (simp add: entry_ok_def)

lemma entry_ok_file: "entry_ok ext files m \<Longrightarrow> entry_ok ext (files @ [name]) m"
  by (auto simp: entry_ok_def)

lemma entry_ok_update:
  "entry_ok ext files m \<Longrightarrow> match_case ext name = Some n \<Longrightarrow> entry_ok ext (files @ [name]) (AList.update n name m)"
  using set_AList_update [of n name m] by (auto simp: entry_ok_def)

lemma scan_names:
  "scan_entries zfs ins outs files warns = (ins', outs', files', warns') \<Longrightarrow>
   entry_ok ''.in'' files ins \<Longrightarrow> entry_ok ''.in'' files' ins'"
  by (induction zfs ins outs files warns rule: scan_entries.induct)
     (simp_all add: Let_def entry_ok_file entry_ok_update split: if_splits option.splits)

lemma build_ordinals: "map jtc_Ordinal (build_cases base rem ins outs ns) = ns"
  by (induction ns) auto

lemma build_groups: "list_all (\<lambda>c. jtc_GroupID c = 1) (build_cases base rem ins outs ns)"
  by (induction ns) auto

lemma build_inputs:
  "entry_ok ''.in'' files ins \<Longrightarrow> set ns \<subseteq> fst ` set ins \<Longrightarrow>
   list_all (\<lambda>c. match_case ''.in'' (jtc_InputPath c) = Some (jtc_Ordinal c) \<and> jtc_InputPath c \<in> set files)
     (build_cases base rem ins outs ns)"
proof (induction ns)
  case (Cons n ns)
  then obtain s where "map_of ins n = Some s" by (metis list.set_intros(1) map_of_eq_None_iff not_None_eq subsetD)
  then show ?case using Cons by (force simp: entry_ok_def dest: map_of_SomeD)
qed simp

lemma build_sum:
  "ns \<noteq> [] \<Longrightarrow> sum_list (map jtc_Score (build_cases base rem ins outs ns)) = base * int (length ns) + rem"
proof (induction ns)
  case (Cons n ns)
  then show ?case by (cases "ns = []") (simp_all add: algebra_simps)
qed simp

lemma build_nonneg: "0 \<le> base \<Longrightarrow> 0 \<le> rem \<Longrightarrow> list_all (\<lambda>c. 0 \<le> jtc_Score c) (build_cases base rem ins outs ns)"
  by (induction ns) auto

lemma go_quot_nonneg:
  assumes "0 \<le> a" and "0 < b"
  shows "go_quot a b = a div b" "0 \<le> go_quot a b" "0 \<le> a - go_quot a b * b"
proof -
  show q: "go_quot a b = a div b" using assms by (cases "a = 0") (simp_all add: go_quot_def)
  show "0 \<le> go_quot a b" "0 \<le> a - go_quot a b * b"
    unfolding q using assms by (simp_all add: pos_imp_zdiv_nonneg_iff minus_div_mult_eq_mod)
qed

lemma parse_facts:
  assumes "parseTestcaseEntries rng entries totalScore = Inr (cases, files, warns)" and "0 \<le> totalScore"
  shows "sum_list (map jtc_Score cases) = totalScore"
    and "list_all (\<lambda>c. match_case ''.in'' (jtc_InputPath c) = Some (jtc_Ordinal c) \<and> jtc_InputPath c \<in> set files) cases"
    and "list_all (\<lambda>c. 0 \<le> jtc_Score c) cases"
    and "sorted_wrt (<) (map jtc_Ordinal cases)" and "list_all (\<lambda>c. jtc_GroupID c = 1) cases" and "cases \<noteq> []"
proof -
  obtain ins outs fs ws where scan: "scan_entries entries [] [] [] [] = (ins, outs, fs, ws)" by (metis prod_cases4)
  let ?nums = "sort (map fst ins)"
  let ?base = "go_quot totalScore (int (length ?nums))"
  let ?rem = "totalScore - ?base * int (length ?nums)"
  have ne: "ins \<noteq> []" and cases: "cases = build_cases ?base ?rem ins outs ?nums" and files: "files = fs"
    using assms(1) by (auto simp: parseTestcaseEntries_def scan Let_def split: if_splits)
  have nums: "?nums \<noteq> []" using ne by (metis length_0_conv length_map length_sort)
  then have pos: "0 < int (length ?nums)" by (simp only: of_nat_0_less_iff length_greater_0_conv not_False_eq_True)
  note q = go_quot_nonneg [OF assms(2) pos]
  show "sum_list (map jtc_Score cases) = totalScore" unfolding cases build_sum [OF nums] by simp
  have "entry_ok ''.in'' files ins" unfolding files by (rule scan_names [OF scan entry_ok_Nil])
  then show "list_all (\<lambda>c. match_case ''.in'' (jtc_InputPath c) = Some (jtc_Ordinal c) \<and> jtc_InputPath c \<in> set files) cases"
    unfolding cases by (rule build_inputs) simp
  show "list_all (\<lambda>c. 0 \<le> jtc_Score c) cases" unfolding cases by (rule build_nonneg [OF q(2,3)])
  have "distinct (map fst ins)" using scan_keys_distinct [OF scan] by simp
  then show "sorted_wrt (<) (map jtc_Ordinal cases)" unfolding cases build_ordinals by (simp add: strict_sorted_iff)
  show "list_all (\<lambda>c. jtc_GroupID c = 1) cases" unfolding cases by (rule build_groups)
  show "cases \<noteq> []" using nums unfolding cases by (metis build_ordinals list.map_disc_iff)
qed

section \<open>Effect on the database\<close>

lemma insert_cases_rows:
  "insert_cases i tcs rows seq = Inr (rows', seq') \<Longrightarrow>
   \<exists>ids. length ids = length tcs \<and>
     rows' = rows @ map2 (\<lambda>k tc. \<lparr>tr_ProblemID = i, tr_case = tc\<lparr>jtc_TestCaseID := k\<rparr>\<rparr>) ids tcs"
proof (induction i tcs rows seq rule: insert_cases.induct)
  case (2 i tc tcs rows seq)
  then obtain ids where "length ids = length tcs"
    "rows' = (rows @ [\<lparr>tr_ProblemID = i, tr_case = tc\<lparr>jtc_TestCaseID := seq\<rparr>\<rparr>]) @
       map2 (\<lambda>k tc. \<lparr>tr_ProblemID = i, tr_case = tc\<lparr>jtc_TestCaseID := k\<rparr>\<rparr>) ids tcs"
    by (auto split: if_splits)
  then show ?case by (intro exI [of _ "seq # ids"]) simp
qed simp

text \<open>Cases in one group with increasing ordinals are already in the order the query returns.\<close>

lemma sort_slice_sorted:
  "sorted_wrt lt xs \<Longrightarrow> (\<And>a b. lt a b \<Longrightarrow> \<not> lt b a) \<Longrightarrow> sort_slice lt xs = xs"
proof (induction xs)
  case (Cons x xs)
  then show ?case by (cases xs) auto
qed simp

lemma replaced_cases:
  assumes "ReplaceTestCases i cases d = (Inr (), d')" and "sorted_wrt (<) (map jtc_Ordinal cases)"
    and "list_all (\<lambda>c. jtc_GroupID c = 1) cases"
  shows "map (\<lambda>c. c\<lparr>jtc_TestCaseID := 0\<rparr>) (GetTestCases i d') = map (\<lambda>c. c\<lparr>jtc_TestCaseID := 0\<rparr>) cases"
    and "j \<noteq> i \<Longrightarrow> GetTestCases j d' = GetTestCases j d"
    and "cp \<in> set (db_contest_problems d') \<Longrightarrow> cp_ProblemID cp = i \<Longrightarrow>
         cp_MaxScore cp = sum_list (map jtc_Score cases)"
proof -
  let ?kept = "filter (\<lambda>r. tr_ProblemID r \<noteq> i) (db_test_cases d)"
  obtain rows seq where ins: "insert_cases i cases ?kept (db_seq d) = Inr (rows, seq)"
    and d': "db_test_cases d' = rows" "db_contest_problems d' = map (\<lambda>cp. if cp_ProblemID cp = i
       then cp\<lparr>cp_MaxScore := sum_list (map jtc_Score cases)\<rparr> else cp) (db_contest_problems d)"
    using assms(1) by (auto simp: ReplaceTestCases_def Let_def split: if_splits sum.splits)
  obtain ids where ids: "length ids = length cases"
    and rows: "rows = ?kept @ map2 (\<lambda>k tc. \<lparr>tr_ProblemID = i, tr_case = tc\<lparr>jtc_TestCaseID := k\<rparr>\<rparr>) ids cases"
    using insert_cases_rows [OF ins] by blast
  let ?new = "map2 (\<lambda>k tc. tc\<lparr>jtc_TestCaseID := k\<rparr>) ids cases"
  have of_i: "map tr_case (filter (\<lambda>r. tr_ProblemID r = i) rows) = ?new"
    unfolding rows by (simp add: filter_empty_conv comp_def case_prod_beta)
  have "sorted_wrt (\<lambda>a b. jtc_Ordinal a < jtc_Ordinal b) cases"
    using assms(2) by (simp add: sorted_wrt_map)
  then have "sorted_wrt case_less ?new"
    using ids assms(3) by (auto simp: sorted_wrt_iff_nth_less case_less_def list_all_length)
  then have "GetTestCases i d' = ?new"
    unfolding GetTestCases_def d'(1) of_i by (rule sort_slice_sorted) (auto simp: case_less_def)
  then show "map (\<lambda>c. c\<lparr>jtc_TestCaseID := 0\<rparr>) (GetTestCases i d') = map (\<lambda>c. c\<lparr>jtc_TestCaseID := 0\<rparr>) cases"
    using ids by (auto intro!: nth_equalityI)
  show "GetTestCases j d' = GetTestCases j d" if "j \<noteq> i"
  proof -
    have "filter (\<lambda>r. tr_ProblemID r = j) rows = filter (\<lambda>r. tr_ProblemID r = j) (db_test_cases d)"
    proof -
      have "filter (\<lambda>r. tr_ProblemID r = j) ?kept = filter (\<lambda>r. tr_ProblemID r = j) (db_test_cases d)"
        using that by (auto intro!: filter_cong)
      moreover have "filter (\<lambda>r. tr_ProblemID r = j)
          (map2 (\<lambda>k tc. \<lparr>tr_ProblemID = i, tr_case = tc\<lparr>jtc_TestCaseID := k\<rparr>\<rparr>) ids cases) = []"
        using that by (auto simp: filter_empty_conv)
      ultimately show ?thesis unfolding rows by (simp only: filter_append append_Nil2)
    qed
    then show ?thesis by (simp add: GetTestCases_def d')
  qed
  show "cp \<in> set (db_contest_problems d') \<Longrightarrow> cp_ProblemID cp = i \<Longrightarrow>
    cp_MaxScore cp = sum_list (map jtc_Score cases)"
  proof -
    let ?f = "\<lambda>cp. if cp_ProblemID cp = i then cp\<lparr>cp_MaxScore := sum_list (map jtc_Score cases)\<rparr> else cp"
    assume "cp \<in> set (db_contest_problems d')" and i: "cp_ProblemID cp = i"
    then have "cp \<in> ?f ` set (db_contest_problems d)" by (simp only: d'(2) list.set_map)
    then obtain cp0 where "cp = ?f cp0" by (rule imageE)
    then show ?thesis using i by (cases "cp_ProblemID cp0 = i") simp_all
  qed
qed

lemma same_up_to_ids:
  assumes "map (\<lambda>c. c\<lparr>jtc_TestCaseID := 0\<rparr>) xs = map (\<lambda>c. c\<lparr>jtc_TestCaseID := 0\<rparr>) ys"
    and "\<And>c. f (c\<lparr>jtc_TestCaseID := 0\<rparr>) = f c"
  shows "map f xs = map f ys"
proof -
  have "map f (map (\<lambda>c. c\<lparr>jtc_TestCaseID := 0\<rparr>) xs) = map f (map (\<lambda>c. c\<lparr>jtc_TestCaseID := 0\<rparr>) ys)"
    using assms(1) by (rule arg_cong)
  then show ?thesis by (simp add: comp_def assms(2))
qed

lemma UploadTestcases_created:
  assumes "UploadTestcases env idParam st = (Reply code (Uploaded key sz files n totalScore warns), st')"
  shows "\<exists>pid name content cases entries. parse_id idParam = Some pid \<and> ue_file env = Some (name, content) \<and>
    1 \<le> totalScore \<and> ue_entries env content = Some entries \<and>
    parseTestcaseEntries (ue_range env) entries totalScore = Inr (cases, files, warns) \<and>
    ReplaceTestCases pid cases (us_db st) = (Inr (), us_db st') \<and> n = int (length cases) \<and> key = zip_key pid \<and>
    sz = int (length content) \<and> us_zips st' = (us_zips st)(zip_key pid \<mapsto> content)"
  using assms unfolding UploadTestcases_def
  by (auto simp: Let_def read_total_def split: option.splits prod.splits if_splits sum.splits)

lemma UploadTestcases_refused:
  "UploadTestcases env idParam st = (Error code msg, st') \<Longrightarrow> us_db st' = us_db st"
  unfolding UploadTestcases_def
  by (auto simp: Let_def split: option.splits prod.splits if_splits sum.splits)

section \<open>What an upload leaves behind\<close>


definition upload_env0 :: upload_env where
  "upload_env0 = \<lparr>ue_body_bytes = 200, ue_file = Some (''data.ZIP'', zipMagic @ ''x''), ue_total_score = ''101'',
     ue_open_ok = True, ue_seek_ok = True, ue_reseek_ok = True, ue_range = (\<lambda>ks. ks),
     ue_entries = (\<lambda>_. Some (map (\<lambda>s. \<lparr>ze_Name = s, ze_IsDir = False\<rparr>) [''2.in'', ''1.in'', ''1.out'', ''notes''])),
     ue_put_ok = True, ue_db_ok = True\<rparr>"

definition upload_state0 :: upload_state where
  "upload_state0 = \<lparr>us_db = sample_db, us_zips = Map.empty\<rparr>"

definition upload_reply0 :: "upload_body reply" where
  "upload_reply0 = Reply 201 (Uploaded ''testcases/3/data.zip'' 5 [''2.in'', ''1.in'', ''1.out'', ''notes''] 2 101
     [IgnoredEntry ''notes'', MissingOut 2])"

lemma upload0: "fst (UploadTestcases upload_env0 ''3'' upload_state0) = upload_reply0"
  by code_simp


end
