(* ===== verification/Resolver.thy ===== *)
theory Resolver
  imports Http
begin

text \<open>
  Package \<open>api/handler\<close>, file \<open>resolver.go\<close>: the export of a finished contest as an event feed for
  the external Resolver tool. A float64 number of seconds is the exact quotient of the nanoseconds it
  stands for. Writing the document as XML is the library's work and a parameter.

  The Resolver computes the final standings from the feed, so the property of interest is that the
  feed carries the same result as the live board of \<open>strategy_icpc.go\<close>.
\<close>

section \<open>The document\<close>

record xml_finalized =
  xf_LastGold :: int
  xf_LastSilver :: int
  xf_LastBronze :: int

record xml_judgement_type =
  xj_Acronym :: string
  xj_Name :: string
  xj_Solved :: bool
  xj_Penalty :: bool

record xml_info =
  xi_ContestID :: string
  xi_Title :: string
  xi_Length :: string
  xi_FreezeLength :: string
  xi_Penalty :: int
  xi_Started :: bool
  xi_StartTime :: string

record xml_problem =
  xp_ID :: string
  xp_Label :: string
  xp_Name :: string

record xml_team =
  xt_ID :: string
  xt_Name :: string
  xt_University :: string

record xml_run =
  xr_ID :: string
  xr_Problem :: string
  xr_Team :: string
  xr_Judged :: bool
  xr_Result :: string
  xr_Solved :: bool
  xr_Penalty :: bool
  xr_Time :: rat
  xr_Timestamp :: rat

record xml_contest =
  xc_Info :: xml_info
  xc_Judgements :: "xml_judgement_type list"
  xc_Problems :: "xml_problem list"
  xc_Teams :: "xml_team list"
  xc_Runs :: "xml_run list"
  xc_Finalized :: "xml_finalized option"

definition judgementTypes :: "bool \<Rightarrow> xml_judgement_type list" where
  "judgementTypes ceNoPenalty =
     [\<lparr>xj_Acronym = ''AC'', xj_Name = ''Accepted'', xj_Solved = True, xj_Penalty = False\<rparr>,
      \<lparr>xj_Acronym = ''WA'', xj_Name = ''Wrong Answer'', xj_Solved = False, xj_Penalty = True\<rparr>,
      \<lparr>xj_Acronym = ''TLE'', xj_Name = ''Time Limit Exceeded'', xj_Solved = False, xj_Penalty = True\<rparr>,
      \<lparr>xj_Acronym = ''MLE'', xj_Name = ''Memory Limit Exceeded'', xj_Solved = False, xj_Penalty = True\<rparr>,
      \<lparr>xj_Acronym = ''RTE'', xj_Name = ''Run-Time Error'', xj_Solved = False, xj_Penalty = True\<rparr>,
      \<lparr>xj_Acronym = ''CE'', xj_Name = ''Compile Error'', xj_Solved = False, xj_Penalty = \<not> ceNoPenalty\<rparr>]"

section \<open>Building the feed\<close>

definition Seconds :: "int \<Rightarrow> rat" where
  "Seconds d = of_int d / of_int second_ns"

text \<open>\<open>Unix\<close> counts from 1970, a \<open>time\<close> from Go's zero time at the beginning of year 1.\<close>

definition Unix :: "time \<Rightarrow> int" where
  "Unix t = t div second_ns - 62135596800"

definition pad2 :: "int \<Rightarrow> string" where
  "pad2 n = (if 0 \<le> n \<and> n < 10 then CHR ''0'' # show_int n else show_int n)"

definition hms :: "rat \<Rightarrow> string" where
  "hms seconds =
     (let total = float_to_int64 ((if seconds < 0 then 0 else seconds) + 1 / 2);
          h = go_quot total 3600;
          m = go_quot (total - h * 3600) 60;
          s = total - go_quot total 60 * 60
      in show_int h @ '':'' @ pad2 m @ '':'' @ pad2 s)"

fun mapResult :: "SubmissionStatus \<Rightarrow> bool \<Rightarrow> string \<times> bool \<times> bool" where
  "mapResult StatusAccepted ceNoPenalty = (''AC'', False, True)"
| "mapResult StatusWrongAnswer ceNoPenalty = (''WA'', True, True)"
| "mapResult StatusTLE ceNoPenalty = (''TLE'', True, True)"
| "mapResult StatusMLE ceNoPenalty = (''MLE'', True, True)"
| "mapResult StatusRE ceNoPenalty = (''RTE'', True, True)"
| "mapResult StatusCE ceNoPenalty = (''CE'', \<not> ceNoPenalty, True)"
| "mapResult _ ceNoPenalty = ([], False, False)"

definition feed_info :: "contest \<Rightarrow> xml_info" where
  "feed_info contest =
     \<lparr>xi_ContestID = show_int (c_ID contest), xi_Title = c_Title contest,
      xi_Length = hms (Seconds (time_Sub (c_EndTime contest) (c_StartTime contest))),
      xi_FreezeLength = (case c_FreezeTime contest of
          None \<Rightarrow> ''0:00:00''
        | Some f \<Rightarrow> if Before f (c_EndTime contest) then hms (Seconds (time_Sub (c_EndTime contest) f)) else ''0:00:00''),
      xi_Penalty = PenaltyMinutes (c_Settings contest), xi_Started = True,
      xi_StartTime = show_int (Unix (c_StartTime contest))\<rparr>"

definition feed_run :: "contest \<Rightarrow> feed_submission \<Rightarrow> xml_run option" where
  "feed_run contest s =
     (case mapResult (fs_Status s) (CENoPenalty (c_Settings contest)) of
        (acronym, counts, judged) \<Rightarrow>
          if \<not> judged then None
          else
            let elapsed = Seconds (time_Sub (fs_CreatedAt s) (c_StartTime contest));
                elapsed = (if elapsed < 0 then 0 else elapsed)
            in if \<not> IsZero (c_EndTime contest) \<and> After (fs_CreatedAt s) (c_EndTime contest) then None
               else
                 let solved = (fs_Status s = StatusAccepted)
                 in Some \<lparr>xr_ID = show_int (fs_ID s), xr_Problem = show_int (fs_ProblemID s),
                      xr_Team = show_int (fs_UserID s), xr_Judged = True, xr_Result = acronym, xr_Solved = solved,
                      xr_Penalty = (counts \<and> \<not> solved), xr_Time = elapsed,
                      xr_Timestamp = of_int (Unix (fs_CreatedAt s))\<rparr>)"

definition buildEventFeed ::
  "contest \<Rightarrow> contest_problem_summary list \<Rightarrow> contest_team list \<Rightarrow> feed_submission list \<Rightarrow> xml_contest" where
  "buildEventFeed contest problems teams subs =
     \<lparr>xc_Info = feed_info contest,
      xc_Judgements = judgementTypes (CENoPenalty (c_Settings contest)),
      xc_Problems = map (\<lambda>p. \<lparr>xp_ID = show_int (cps_ProblemID p), xp_Label = cps_Label p, xp_Name = cps_Title p\<rparr>) problems,
      xc_Teams = map (\<lambda>t. \<lparr>xt_ID = show_int (ct_UserID t), xt_Name = ct_Username t, xt_University = ct_Organization t\<rparr>) teams,
      xc_Runs = List.map_filter (feed_run contest) subs,
      xc_Finalized = Some \<lparr>xf_LastGold = 0, xf_LastSilver = 0, xf_LastBronze = 0\<rparr>\<rparr>"

section \<open>The handler\<close>

record resolver_env =
  rv_now :: time
  rv_contest_fails :: bool
  rv_problems_fail :: bool
  rv_teams_fail :: bool
  rv_subs_fail :: bool
  rv_marshal :: "xml_contest \<Rightarrow> string option"

datatype feed_file = Attachment string string

definition xml_header :: string where
  "xml_header = ''<?xml version='' @ [CHR 0x22] @ ''1.0'' @ [CHR 0x22] @ '' encoding='' @ [CHR 0x22] @ ''UTF-8'' @
     [CHR 0x22] @ ''?>'' @ [CHR 0x0A]"

definition ExportEventFeed :: "resolver_env \<Rightarrow> db \<Rightarrow> string \<Rightarrow> feed_file reply" where
  "ExportEventFeed env d idParam =
     (case parseContestID idParam of
        None \<Rightarrow> Error 400 ''invalid contest_id''
      | Some contestID \<Rightarrow>
          if rv_contest_fails env then Error 404 ''contest not found''
          else case ContestRepo_GetByID (rv_now env) contestID d of
            None \<Rightarrow> Error 404 ''contest not found''
          | Some contest \<Rightarrow>
              if rv_problems_fail env \<or> rv_teams_fail env \<or> rv_subs_fail env then Error 500 ''internal error''
              else case rv_marshal env (buildEventFeed contest (GetProblems contestID d)
                          (ListContestTeams contestID d) (ListForFeed contestID d)) of
                None \<Rightarrow> Error 500 ''internal error''
              | Some out \<Rightarrow> Reply 200 (Attachment (''contest-'' @ show_int contestID @ ''-event-feed.xml'')
                  (xml_header @ out)))"

section \<open>Reading the feed\<close>

text \<open>
  The standing of a team on a problem as the feed's consumer works it out: a run has the judgement
  type whose acronym is its result; the first solved run ends the problem and costs its minutes plus
  the penalty for every penalised run before it.
\<close>

definition judgement_of :: "xml_contest \<Rightarrow> xml_run \<Rightarrow> xml_judgement_type option" where
  "judgement_of feed r = find (\<lambda>j. xj_Acronym j = xr_Result r) (xc_Judgements feed)"

definition run_solved :: "xml_contest \<Rightarrow> xml_run \<Rightarrow> bool" where
  "run_solved feed r = (case judgement_of feed r of None \<Rightarrow> False | Some j \<Rightarrow> xj_Solved j)"

definition run_penalised :: "xml_contest \<Rightarrow> xml_run \<Rightarrow> bool" where
  "run_penalised feed r = (case judgement_of feed r of None \<Rightarrow> False | Some j \<Rightarrow> xj_Penalty j)"

definition feed_runs :: "xml_contest \<Rightarrow> ID \<Rightarrow> ID \<Rightarrow> xml_run list" where
  "feed_runs feed u p = filter (\<lambda>r. xr_Judged r \<and> xr_Team r = show_int u \<and> xr_Problem r = show_int p) (xc_Runs feed)"

definition feed_standing :: "xml_contest \<Rightarrow> ID \<Rightarrow> ID \<Rightarrow> bool \<times> int \<times> int" where
  "feed_standing feed u p =
     (let rs = feed_runs feed u p;
          rejected = takeWhile (\<lambda>r. \<not> run_solved feed r) rs;
          wrong = int (length (filter (run_penalised feed) rejected))
      in case dropWhile (\<lambda>r. \<not> run_solved feed r) rs of
           [] \<Rightarrow> (False, wrong, 0)
         | ac # _ \<Rightarrow> (True, wrong, \<lfloor>xr_Time ac / 60\<rfloor> + wrong * xi_Penalty (xc_Info feed)))"

text \<open>The event the live board gets for a submission of a contest without freeze.\<close>

definition live_event :: "contest \<Rightarrow> feed_submission \<Rightarrow> submission_event" where
  "live_event contest s = \<lparr>ev_UserID = fs_UserID s, ev_ProblemID = fs_ProblemID s, ev_Status = fs_Status s, ev_Score = 0,
     ev_SubmitTime = fs_CreatedAt s, ev_ContestStart = c_StartTime contest, ev_FreezeTime = None\<rparr>"

definition contest_verdict :: "SubmissionStatus \<Rightarrow> bool" where
  "contest_verdict s = snd (snd (mapResult s False))"

definition in_contest :: "contest \<Rightarrow> feed_submission \<Rightarrow> bool" where
  "in_contest contest s \<longleftrightarrow> c_StartTime contest \<le> fs_CreatedAt s \<and>
     (IsZero (c_EndTime contest) \<or> fs_CreatedAt s \<le> c_EndTime contest)"

lemma contest_verdict_cases:
  "contest_verdict s \<longleftrightarrow> s \<in> {StatusAccepted, StatusWrongAnswer, StatusTLE, StatusMLE, StatusRE, StatusCE}"
  by (cases s) (simp_all add: contest_verdict_def)

lemma contest_verdict_any: "snd (snd (mapResult s b)) = contest_verdict s"
  by (cases s) (simp_all add: contest_verdict_def)

lemma feed_run_fields:
  assumes "feed_run contest s = Some r"
  shows "xr_Result r = fst (mapResult (fs_Status s) (CENoPenalty (c_Settings contest)))"
    and "xr_Solved r = (fs_Status s = StatusAccepted)"
    and "xr_Penalty r = (fst (snd (mapResult (fs_Status s) (CENoPenalty (c_Settings contest)))) \<and> fs_Status s \<noteq> StatusAccepted)"
    and "contest_verdict (fs_Status s)"
  using assms contest_verdict_any [of "fs_Status s" "CENoPenalty (c_Settings contest)"]
  by (auto simp: feed_run_def Let_def split: prod.splits if_splits)

text \<open>Every acronym in use has a judgement type that agrees with the run's own flags.\<close>

lemma run_flags:
  assumes "feed_run contest s = Some r" and "xc_Judgements feed = judgementTypes (CENoPenalty (c_Settings contest))"
  shows "run_solved feed r \<longleftrightarrow> fs_Status s = StatusAccepted"
    and "run_penalised feed r \<longleftrightarrow> fs_Status s \<noteq> StatusAccepted \<and> \<not> ignoreCE (fs_Status s) (c_Settings contest)"
    and "run_solved feed r = xr_Solved r" and "run_penalised feed r = xr_Penalty r"
  using feed_run_fields [OF assms(1)]
  by (cases "fs_Status s"; simp add: run_solved_def run_penalised_def judgement_of_def assms(2) contest_verdict_def
      judgementTypes_def ignoreCE_def)+

lemma feed_run_verdict:
  assumes "contest_verdict (fs_Status s)" and "in_contest contest s"
  shows "\<exists>r. feed_run contest s = Some r \<and> xr_Judged r \<and> xr_Team r = show_int (fs_UserID s) \<and>
    xr_Problem r = show_int (fs_ProblemID s) \<and>
    xr_Time r = Seconds (time_Sub (fs_CreatedAt s) (c_StartTime contest))"
proof -
  have "0 \<le> time_Sub (fs_CreatedAt s) (c_StartTime contest)"
    using assms(2) by (auto simp: in_contest_def time_Sub_def)
  then have "\<not> Seconds (time_Sub (fs_CreatedAt s) (c_StartTime contest)) < 0"
    by (simp add: Seconds_def second_ns_def not_less)
  moreover have "\<not> (\<not> IsZero (c_EndTime contest) \<and> After (fs_CreatedAt s) (c_EndTime contest))"
    using assms(2) by (auto simp: in_contest_def)
  ultimately show ?thesis
    using assms(1) by (cases "fs_Status s")
      (simp_all add: contest_verdict_def feed_run_def Let_def del: time_cmp)
qed

section \<open>The feed agrees with the live board\<close>

lemma minutes_floor: "0 \<le> d \<Longrightarrow> \<lfloor>Seconds d / 60\<rfloor> = int_Minutes d"
proof -
  assume "0 \<le> d"
  have "Seconds d / 60 = of_int d / of_int minute_ns" by (simp add: Seconds_def minute_ns_def)
  then have "\<lfloor>Seconds d / 60\<rfloor> = d div minute_ns" by (simp only: floor_divide_of_int_eq)
  also have "\<dots> = int_Minutes d"
    using \<open>0 \<le> d\<close> by (cases "d = 0") (simp_all add: int_Minutes_def go_quot_def minute_ns_def second_ns_def)
  finally show ?thesis .
qed

definition of_pair :: "ID \<Rightarrow> ID \<Rightarrow> feed_submission list \<Rightarrow> feed_submission list" where
  "of_pair u p = filter (\<lambda>s. fs_UserID s = u \<and> fs_ProblemID s = p)"

definition the_run :: "contest \<Rightarrow> feed_submission \<Rightarrow> xml_run" where
  "the_run contest s = the (feed_run contest s)"

lemma the_run_verdict:
  assumes "contest_verdict (fs_Status s)" and "in_contest contest s"
  shows "feed_run contest s = Some (the_run contest s)" and "xr_Judged (the_run contest s)"
    and "xr_Team (the_run contest s) = show_int (fs_UserID s)"
    and "xr_Problem (the_run contest s) = show_int (fs_ProblemID s)"
    and "\<lfloor>xr_Time (the_run contest s) / 60\<rfloor> = elapsedMins (fs_CreatedAt s) (c_StartTime contest)"
proof -
  have nonneg: "0 \<le> time_Sub (fs_CreatedAt s) (c_StartTime contest)"
    using assms(2) by (auto simp: in_contest_def time_Sub_def)
  show "feed_run contest s = Some (the_run contest s)" "xr_Judged (the_run contest s)"
    "xr_Team (the_run contest s) = show_int (fs_UserID s)"
    "xr_Problem (the_run contest s) = show_int (fs_ProblemID s)"
    "\<lfloor>xr_Time (the_run contest s) / 60\<rfloor> = elapsedMins (fs_CreatedAt s) (c_StartTime contest)"
    using feed_run_verdict [OF assms]
    by (auto simp: the_run_def elapsedMins_def minutes_floor [OF nonneg])
qed

lemma feed_runs_of_pair:
  assumes "\<And>s. s \<in> set subs \<Longrightarrow> contest_verdict (fs_Status s) \<and> in_contest contest s"
  shows "feed_runs (buildEventFeed contest ps ts subs) u p = map (the_run contest) (of_pair u p subs)"
  using assms
  by (induction subs)
     (simp_all add: feed_runs_def buildEventFeed_def of_pair_def map_filter_simps the_run_verdict)

lemma live_not_frozen: "\<not> post_freeze (live_event contest s)"
  by (simp add: post_freeze_def live_event_def isPostFreeze_def)

lemma live_replay:
  "ICPC_replay u p settings (map (live_event contest) S) =
   (let rejected = takeWhile (\<lambda>s. fs_Status s \<noteq> StatusAccepted) S;
        wrong = int (length (filter (\<lambda>s. \<not> ignoreCE (fs_Status s) settings) rejected))
    in case dropWhile (\<lambda>s. fs_Status s \<noteq> StatusAccepted) S of
         [] \<Rightarrow> (zero_entry u p)\<lparr>se_AttemptCount := int (length rejected), se_WrongAttemptCount := wrong\<rparr>
       | ac # _ \<Rightarrow> (zero_entry u p)\<lparr>se_Accepted := True, se_DisplayScore := 1,
           se_AttemptCount := int (length rejected) + 1, se_WrongAttemptCount := wrong,
           se_BestSubmitTime := fs_CreatedAt ac,
           se_Penalty := icpc_penalty (fs_CreatedAt ac) (c_StartTime contest) wrong settings\<rparr>)"
proof -
  have pre: "filter (\<lambda>e. \<not> post_freeze e) (map (live_event contest) S) = map (live_event contest) S"
    and post: "filter post_freeze (map (live_event contest) S) = []"
    by (simp_all add: filter_map comp_def live_not_frozen)
  have notAC: "not_AC \<circ> live_event contest = (\<lambda>s. fs_Status s \<noteq> StatusAccepted)"
    by (simp add: fun_eq_iff not_AC_def live_event_def)
  show ?thesis
    unfolding replay_reference icpc_reference_def pre post Let_def takeWhile_map dropWhile_map notAC wrong_count_def
    by (cases "dropWhile (\<lambda>s. fs_Status s \<noteq> StatusAccepted) S")
       (simp_all add: filter_map comp_def live_event_def zero_entry_def del: dropWhile_eq_Nil_conv)
qed


definition feed_sub0 :: "ID \<Rightarrow> SubmissionStatus \<Rightarrow> int \<Rightarrow> feed_submission" where
  "feed_sub0 i st mins = \<lparr>fs_ID = i, fs_UserID = 7, fs_ProblemID = 3, fs_Status = st,
     fs_CreatedAt = c_StartTime sample_contest + mins * minute_ns\<rparr>"

definition feed_subs0 :: "feed_submission list" where
  "feed_subs0 = [feed_sub0 1 StatusWrongAnswer 1, feed_sub0 2 StatusCE 2, feed_sub0 3 StatusAccepted 3]"

lemmas feed_eval = feed_standing_def feed_runs_def buildEventFeed_def feed_run_def map_filter_simps Let_def
  run_solved_def run_penalised_def judgement_of_def judgementTypes_def feed_info_def sample_contest_def PenaltyMinutes_def
  CENoPenalty_def Seconds_def time_Sub_def minute_ns_def second_ns_def


text \<open>
  A system error is where the two part: the live board counts it as a wrong attempt, the feed leaves it out.
\<close>

lemma system_error_differs:
  "se_Penalty (ICPC_replay 7 3 Map.empty (map (live_event sample_contest) [feed_sub0 1 StatusSE 1, feed_sub0 2 StatusAccepted 3])) = 23 \<and>
   feed_standing (buildEventFeed (sample_contest\<lparr>c_EndTime := 0, c_Settings := Map.empty\<rparr>) [] []
     [feed_sub0 1 StatusSE 1, feed_sub0 2 StatusAccepted 3]) 7 3 = (True, 0, 3)"
proof (rule conjI)
  show "se_Penalty (ICPC_replay 7 3 Map.empty (map (live_event sample_contest)
    [feed_sub0 1 StatusSE 1, feed_sub0 2 StatusAccepted 3])) = 23" by code_simp
  show "feed_standing (buildEventFeed (sample_contest\<lparr>c_EndTime := 0, c_Settings := Map.empty\<rparr>) [] []
     [feed_sub0 1 StatusSE 1, feed_sub0 2 StatusAccepted 3]) 7 3 = (True, 0, 3)" by (simp add: feed_sub0_def feed_eval)
qed

text \<open>The repository does not load the settings, so the export always carries the default penalty.\<close>

lemma export_ignores_settings:
  "ContestRepo_GetByID now i d = Some contest \<Longrightarrow> xi_Penalty (xc_Info (buildEventFeed contest ps ts subs)) = 20"
  by (auto simp: ContestRepo_GetByID_def scanContest_def buildEventFeed_def feed_info_def PenaltyMinutes_def)

end
