(* ===== verification/Submission.thy ===== *)
theory Submission
  imports Http
begin

text \<open>
  Package \<open>api/handler\<close>, file \<open>submission.go\<close>: accepting submissions, handing them to the judge,
  holding them back in blind contests, the batch evaluation after such a contest, and what a viewer
  may see of a submission.

  The handlers' world is the database, the object store and the judge queue. Whether an external
  call fails is decided by \<open>se_fails\<close>; the three readings of the clock (the eligibility query, the
  insert, the handler itself) are separate fields.
\<close>

section \<open>State and environment\<close>

record task_message =
  tm_JudgeTask :: judge_task
  tm_EnqueuedAt :: time

record api_state =
  as_db :: db
  as_objects :: "string \<rightharpoonup> string"
  as_tasks :: "task_message list"

datatype api_call =
    CallCanSubmit | CallActiveContest | CallJudgeConfig ID | CallJudgeMeta ID | CallTestCases ID
  | CallPutSource | CallCreate | CallGetContest | CallPublish ID | CallListPending | CallMarkSuperseded
  | CallGetSubmission | CallGetSource

record sub_env =
  se_now :: time
  se_check_now :: time
  se_db_now :: time
  se_uuid :: string
  se_task_uuid :: "ID \<Rightarrow> string"
  se_fails :: "api_call \<Rightarrow> bool"

record submit_request =
  sr_ProblemID :: ID
  sr_Language :: Language
  sr_SourceCode :: string

datatype sub_body =
    SubmissionCreated ID SubmissionStatus
  | SubmissionDeferred ID SubmissionStatus
  | SubmissionUnqueued ID SubmissionStatus
  | SubmissionView submission
  | SourceView Language string
  | BatchView int int int int

definition bind_submit :: "submit_request payload \<Rightarrow> submit_request option" where
  "bind_submit body =
     (case decode body of
        None \<Rightarrow> None
      | Some r \<Rightarrow> if sr_ProblemID r = 0 \<or> sr_Language r = LangOther [] \<or> sr_SourceCode r = [] \<or>
                     65536 < rune_count (sr_SourceCode r)
                  then None else Some r)"

section \<open>Helpers\<close>

fun langExt :: "Language \<Rightarrow> string" where
  "langExt LangCPP17 = ''cpp''"
| "langExt LangCPP20 = ''cpp''"
| "langExt LangC = ''c''"
| "langExt LangJava = ''java''"
| "langExt LangPython = ''py''"
| "langExt LangGo = ''go''"
| "langExt LangRust = ''rs''"
| "langExt (LangOther _) = ''txt''"

type_synonym problem_data = "judge_config \<times> problem_judge_meta \<times> judge_test_case list"

definition loadProblemMetaCtx :: "sub_env \<Rightarrow> ID \<Rightarrow> db \<Rightarrow> error + problem_data" where
  "loadProblemMetaCtx env pid d =
     (if se_fails env (CallJudgeConfig pid) then Inl ''get judge config''
      else case GetJudgeConfig pid d of
             Inl _ \<Rightarrow> Inl ''get judge config''
           | Inr cfg \<Rightarrow>
               if se_fails env (CallJudgeMeta pid) then Inl ''get judge meta''
               else case GetJudgeMeta pid d of
                      Inl _ \<Rightarrow> Inl ''get judge meta''
                    | Inr meta \<Rightarrow>
                        if se_fails env (CallTestCases pid) then Inl ''get test cases''
                        else Inr (cfg, meta, GetTestCases pid d))"

definition loadProblemMeta :: "sub_env \<Rightarrow> ID \<Rightarrow> db \<Rightarrow> 'b reply + problem_data" where
  "loadProblemMeta env pid d =
     (case loadProblemMetaCtx env pid d of
        Inl _ \<Rightarrow> Inl (Error 500 ''failed to load problem data'')
      | Inr (cfg, meta, testCases) \<Rightarrow>
          if testCases = [] then Inl (Error 422 ''problem has no test data'')
          else Inr (cfg, meta, testCases))"

definition sourceKey :: "sub_env \<Rightarrow> ID \<Rightarrow> ID \<Rightarrow> Language \<Rightarrow> string" where
  "sourceKey env userID problemID lang =
     ''sources/'' @ show_int userID @ ''/'' @ show_int problemID @ ''/'' @ se_uuid env @ ''.'' @ langExt lang"

definition uploadSource ::
  "sub_env \<Rightarrow> ID \<Rightarrow> ID \<Rightarrow> Language \<Rightarrow> string \<Rightarrow> api_state \<Rightarrow> string option \<times> api_state" where
  "uploadSource env userID problemID lang code st =
     (let key = sourceKey env userID problemID lang
      in if se_fails env CallPutSource then (None, st)
         else (Some key, st\<lparr>as_objects := (as_objects st)(key \<mapsto> code)\<rparr>))"

definition deferJudging :: "sub_env \<Rightarrow> ID option \<Rightarrow> db \<Rightarrow> bool" where
  "deferJudging env contestID d =
     (case contestID of
        None \<Rightarrow> False
      | Some cid \<Rightarrow>
          if se_fails env CallGetContest then False
          else case ContestRepo_GetByID (se_now env) cid d of
                 None \<Rightarrow> False
               | Some contest \<Rightarrow> IsBlindJudged contest \<and> EffectiveStatus contest (se_now env) \<noteq> ContestStatusEnded)"

definition judge_task_of :: "sub_env \<Rightarrow> submission \<Rightarrow> problem_data \<Rightarrow> task_message" where
  "judge_task_of env sub pd =
     (case pd of (cfg, meta, testCases) \<Rightarrow>
        \<lparr>tm_JudgeTask = \<lparr>jt_TaskID = se_task_uuid env (sub_ID sub), jt_SubmissionID = sub_ID sub, jt_UserID = sub_UserID sub,
           jt_ProblemID = sub_ProblemID sub, jt_ContestID = sub_ContestID sub, jt_SubmittedAt = sub_CreatedAt sub,
           jt_Language = sub_Language sub, jt_SourceCodePath = sub_SourceCodePath sub,
           jt_JudgeType = pjm_JudgeType meta, jt_JudgeConfig = cfg, jt_TimeLimitMs = pjm_TimeLimitMs meta,
           jt_MemLimitKB = pjm_MemLimitKB meta, jt_TestCases = testCases, jt_Priority = 0\<rparr>,
         tm_EnqueuedAt = se_now env\<rparr>)"

definition publishJudgeTask :: "sub_env \<Rightarrow> submission \<Rightarrow> problem_data \<Rightarrow> api_state \<Rightarrow> bool \<times> api_state" where
  "publishJudgeTask env sub pd st =
     (if se_fails env (CallPublish (sub_ID sub)) then (False, st)
      else (True, st\<lparr>as_tasks := as_tasks st @ [judge_task_of env sub pd]\<rparr>))"

definition enqueueTask :: "sub_env \<Rightarrow> submission \<Rightarrow> problem_data \<Rightarrow> api_state \<Rightarrow> sub_body reply \<times> api_state" where
  "enqueueTask env sub pd st =
     (case publishJudgeTask env sub pd st of
        (False, st) \<Rightarrow> (Reply 202 (SubmissionUnqueued (sub_ID sub) (sub_Status sub)), st)
      | (True, st) \<Rightarrow> (Reply 201 (SubmissionCreated (sub_ID sub) (sub_Status sub)), st))"

section \<open>Submitting\<close>

definition new_submission :: "sub_env \<Rightarrow> ID \<Rightarrow> ID option \<Rightarrow> submit_request \<Rightarrow> string \<Rightarrow> submission" where
  "new_submission env userID contestID req key =
     \<lparr>sub_ID = 0, sub_UserID = userID, sub_ProblemID = sr_ProblemID req, sub_ContestID = contestID,
      sub_ContestType = None, sub_Language = sr_Language req, sub_SourceCodePath = key, sub_Status = StatusPending,
      sub_Score = 0, sub_TimeUsedMs = 0, sub_MemUsedKB = 0, sub_CompileLog = [], sub_JudgeMessage = [],
      sub_TestCaseResults = [], sub_JudgeNodeID = [], sub_CreatedAt = se_now env, sub_UpdatedAt = se_now env\<rparr>"

text \<open>The common end of the two submit handlers: store the source, create the row, hand it on.\<close>

definition accept_submission ::
  "sub_env \<Rightarrow> ID \<Rightarrow> ID option \<Rightarrow> submit_request \<Rightarrow> problem_data \<Rightarrow> api_state \<Rightarrow> sub_body reply \<times> api_state" where
  "accept_submission env userID contestID req pd st =
     (case uploadSource env userID (sr_ProblemID req) (sr_Language req) (sr_SourceCode req) st of
        (None, st) \<Rightarrow> (Error 500 ''storage error'', st)
      | (Some key, st) \<Rightarrow>
          if se_fails env CallCreate then (Error 500 ''database error'', st)
          else case SubmissionRepo_Create (se_db_now env) (new_submission env userID contestID req key) (as_db st) of
                 (Inl _, _) \<Rightarrow> (Error 500 ''database error'', st)
               | (Inr sub, d) \<Rightarrow>
                   let st = st\<lparr>as_db := d\<rparr>
                   in if deferJudging env contestID (as_db st)
                      then (Reply 201 (SubmissionDeferred (sub_ID sub) (sub_Status sub)), st)
                      else enqueueTask env sub pd st)"

definition Submit ::
  "sub_env \<Rightarrow> string \<Rightarrow> gin_ctx \<Rightarrow> submit_request payload \<Rightarrow> api_state \<Rightarrow> sub_body reply \<times> api_state" where
  "Submit env contestParam c body st =
     (case parseContestID contestParam of
        None \<Rightarrow> (Error 400 ''invalid contest_id'', st)
      | Some contestID \<Rightarrow>
          (case mustUserID c of
             None \<Rightarrow> (Error 401 ''unauthenticated'', st)
           | Some userID \<Rightarrow>
               (case bind_submit body of
                  None \<Rightarrow> (Error 400 ''bad request'', st)
                | Some req \<Rightarrow>
                    if se_fails env CallCanSubmit then (Error 500 ''internal error'', st)
                    else if \<not> CanSubmitToContest (se_check_now env) contestID (sr_ProblemID req) userID (as_db st)
                    then (Error 403 ''not eligible'', st)
                    else case loadProblemMeta env (sr_ProblemID req) (as_db st) of
                           Inl r \<Rightarrow> (r, st)
                         | Inr pd \<Rightarrow> accept_submission env userID (Some contestID) req pd st)))"

definition SubmitPractice ::
  "sub_env \<Rightarrow> gin_ctx \<Rightarrow> submit_request payload \<Rightarrow> api_state \<Rightarrow> sub_body reply \<times> api_state" where
  "SubmitPractice env c body st =
     (case mustUserID c of
        None \<Rightarrow> (Error 401 ''unauthenticated'', st)
      | Some userID \<Rightarrow>
          (case bind_submit body of
             None \<Rightarrow> (Error 400 ''bad request'', st)
           | Some req \<Rightarrow>
               (case loadProblemMeta env (sr_ProblemID req) (as_db st) of
                  Inl r \<Rightarrow> (r, st)
                | Inr pd \<Rightarrow>
                    let contestID = (if se_fails env CallActiveContest then None
                          else ActiveContestForProblem (se_check_now env) (sr_ProblemID req) userID (as_db st))
                    in accept_submission env userID contestID req pd st)))"

section \<open>Batch evaluation\<close>

fun latest_ids :: "submission list \<Rightarrow> (ID \<times> ID \<rightharpoonup> ID) \<Rightarrow> (ID \<times> ID \<rightharpoonup> ID)" where
  "latest_ids [] m = m"
| "latest_ids (s # ss) m =
     (let k = (sub_UserID s, sub_ProblemID s)
      in latest_ids ss (case m k of
           None \<Rightarrow> m(k \<mapsto> sub_ID s)
         | Some cur \<Rightarrow> if sub_ID s > cur then m(k \<mapsto> sub_ID s) else m))"

definition splitLatestPerProblem :: "submission list \<Rightarrow> submission list \<times> submission list" where
  "splitLatestPerProblem subs =
     (let m = latest_ids subs Map.empty;
          is_latest = (\<lambda>s. m (sub_UserID s, sub_ProblemID s) = Some (sub_ID s))
      in (filter is_latest subs, filter (\<lambda>s. \<not> is_latest s) subs))"

text \<open>The loop over the submissions to judge, with the problem data cached; unusable data is \<open>None\<close>.\<close>

fun judge_batch ::
  "sub_env \<Rightarrow> submission list \<Rightarrow> (ID \<rightharpoonup> problem_data option) \<Rightarrow> int \<Rightarrow> int \<Rightarrow> api_state \<Rightarrow> int \<times> int \<times> api_state" where
  "judge_batch env [] cache enqueued skipped st = (enqueued, skipped, st)"
| "judge_batch env (sub # subs) cache enqueued skipped st =
     (let pid = sub_ProblemID sub;
          pm = (case cache pid of
                  Some pm \<Rightarrow> pm
                | None \<Rightarrow> (case loadProblemMetaCtx env pid (as_db st) of
                            Inl _ \<Rightarrow> None
                          | Inr (cfg, meta, testCases) \<Rightarrow> if testCases = [] then None else Some (cfg, meta, testCases)));
          cache = cache(pid \<mapsto> pm)
      in case pm of
           None \<Rightarrow> judge_batch env subs cache enqueued (skipped + 1) st
         | Some pd \<Rightarrow>
             (case publishJudgeTask env sub pd st of
                (False, st) \<Rightarrow> judge_batch env subs cache enqueued (skipped + 1) st
              | (True, st) \<Rightarrow> judge_batch env subs cache (enqueued + 1) skipped st))"

definition JudgeContest :: "sub_env \<Rightarrow> string \<Rightarrow> api_state \<Rightarrow> sub_body reply \<times> api_state" where
  "JudgeContest env contestParam st =
     (case parseContestID contestParam of
        None \<Rightarrow> (Error 400 ''invalid contest_id'', st)
      | Some contestID \<Rightarrow>
          if se_fails env CallGetContest then (Error 404 ''contest not found'', st)
          else case ContestRepo_GetByID (se_now env) contestID (as_db st) of
            None \<Rightarrow> (Error 404 ''contest not found'', st)
          | Some contest \<Rightarrow>
              if EffectiveStatus contest (se_now env) \<noteq> ContestStatusEnded then (Error 400 ''contest not over'', st)
              else if se_fails env CallListPending then (Error 500 ''database error'', st)
              else
                let pending = ListPendingByContest contestID (as_db st);
                    (toJudge, voided) = (if IsBlindJudged contest then splitLatestPerProblem pending else (pending, []))
                in if voided \<noteq> [] \<and> se_fails env CallMarkSuperseded then (Error 500 ''database error'', st)
                   else
                     let st = st\<lparr>as_db := MarkSuperseded (se_db_now env) (map sub_ID voided) (as_db st)\<rparr>;
                         (enqueued, skipped, st) = judge_batch env toJudge Map.empty 0 0 st
                     in (Reply 200 (BatchView enqueued skipped (int (length voided)) (int (length pending))), st))"

section \<open>Visibility\<close>

definition maskBlind :: "submission \<Rightarrow> submission" where
  "maskBlind s = s\<lparr>sub_Status := StatusPending, sub_Score := 0, sub_TimeUsedMs := 0, sub_MemUsedKB := 0,
     sub_CompileLog := [], sub_JudgeMessage := [], sub_TestCaseResults := []\<rparr>"

definition maskJudging :: "submission \<Rightarrow> submission" where
  "maskJudging s = s\<lparr>sub_Status := StatusJudging, sub_Score := 0, sub_TimeUsedMs := 0, sub_MemUsedKB := 0,
     sub_CompileLog := [], sub_JudgeMessage := [], sub_TestCaseResults := [], sub_ContestType := Some ContestICPC\<rparr>"

definition applyContestVisibility :: "sub_env \<Rightarrow> gin_ctx \<Rightarrow> submission \<Rightarrow> db \<Rightarrow> submission" where
  "applyContestVisibility env c sub d =
     (case sub_ContestID sub of
        None \<Rightarrow> sub
      | Some cid \<Rightarrow>
          let viewerID = fst (UserIDFromCtx c)
          in if fst (RoleFromCtx c) = RoleAdmin then sub
             else case (if se_fails env CallGetContest then None else ContestRepo_GetByID (se_now env) cid d) of
               None \<Rightarrow> sub\<lparr>sub_TestCaseResults := [], sub_JudgeMessage := []\<rparr>
             | Some contest \<Rightarrow>
                 let ended = (EffectiveStatus contest (se_now env) = ContestStatusEnded)
                 in if IsBlindJudged contest \<and> \<not> ended then maskBlind sub
                    else if c_ContestType contest = ContestICPC then
                      (if \<not> ended \<and> viewerID \<noteq> sub_UserID sub then maskJudging sub
                       else sub\<lparr>sub_TestCaseResults := [], sub_JudgeMessage := [], sub_Score := 0,
                                sub_ContestType := Some ContestICPC\<rparr>)
                    else sub)"

definition GetSubmission :: "sub_env \<Rightarrow> string \<Rightarrow> gin_ctx \<Rightarrow> api_state \<Rightarrow> sub_body reply" where
  "GetSubmission env idParam c st =
     (case parse_id idParam of
        None \<Rightarrow> Error 400 ''invalid submission id''
      | Some i \<Rightarrow>
          (case (if se_fails env CallGetSubmission then None else SubmissionRepo_GetByID i (as_db st)) of
             None \<Rightarrow> Error 404 ''submission not found''
           | Some sub \<Rightarrow> Reply 200 (SubmissionView (applyContestVisibility env c sub (as_db st)))))"

definition GetSubmissionSource :: "sub_env \<Rightarrow> string \<Rightarrow> gin_ctx \<Rightarrow> api_state \<Rightarrow> sub_body reply" where
  "GetSubmissionSource env idParam c st =
     (case parse_id idParam of
        None \<Rightarrow> Error 400 ''invalid submission id''
      | Some i \<Rightarrow>
          (case (if se_fails env CallGetSubmission then None else SubmissionRepo_GetByID i (as_db st)) of
             None \<Rightarrow> Error 404 ''submission not found''
           | Some sub \<Rightarrow>
               if fst (RoleFromCtx c) \<noteq> RoleAdmin \<and> fst (UserIDFromCtx c) \<noteq> sub_UserID sub
               then Error 403 ''forbidden''
               else if sub_SourceCodePath sub = [] then Error 404 ''no source''
               else case (if se_fails env CallGetSource then None else as_objects st (sub_SourceCodePath sub)) of
                      None \<Rightarrow> Error 500 ''read failed''
                    | Some code \<Rightarrow> Reply 200 (SourceView (sub_Language sub) code)))"

section \<open>Accepting a submission\<close>

text \<open>
  What an accepted submission adds: one pending row, the source under its key, and the task for it
  unless judging is deferred or the queue is down. A refused one adds no row and no task.
\<close>

definition accepted_as :: "sub_env \<Rightarrow> ID \<Rightarrow> ID option \<Rightarrow> submit_request \<Rightarrow> submission \<Rightarrow> api_state \<Rightarrow> api_state \<Rightarrow> bool" where
  "accepted_as env userID contestID req sub st st' \<longleftrightarrow>
     db_submissions (as_db st') = db_submissions (as_db st) @ [sub] \<and>
     sub = (new_submission env userID contestID req (sourceKey env userID (sr_ProblemID req) (sr_Language req)))
       \<lparr>sub_ID := db_seq (as_db st), sub_CreatedAt := se_db_now env, sub_UpdatedAt := se_db_now env\<rparr> \<and>
     as_objects st' (sub_SourceCodePath sub) = Some (sr_SourceCode req)"

definition refused :: "api_state \<Rightarrow> api_state \<Rightarrow> bool" where
  "refused st st' \<longleftrightarrow> as_db st' = as_db st \<and> as_tasks st' = as_tasks st"

lemma refused_refl [simp]: "refused st st"
  by (simp add: refused_def)

lemma create_contests: "SubmissionRepo_Create now s d = (Inr s', d') \<Longrightarrow> db_contests d' = db_contests d"
  by (auto simp: SubmissionRepo_Create_def Let_def split: if_splits)

lemma accept_spec:
  assumes "accept_submission env uid cid req pd st = (r, st')"
  shows "case r of
      Error _ _ \<Rightarrow> refused st st'
    | Reply n body \<Rightarrow>
        \<exists>sub. accepted_as env uid cid req sub st st' \<and>
          (body = SubmissionDeferred (sub_ID sub) StatusPending \<and> n = 201 \<and> deferJudging env cid (as_db st') \<and>
             as_tasks st' = as_tasks st \<or>
           body = SubmissionUnqueued (sub_ID sub) StatusPending \<and> n = 202 \<and> \<not> deferJudging env cid (as_db st') \<and>
             as_tasks st' = as_tasks st \<or>
           body = SubmissionCreated (sub_ID sub) StatusPending \<and> n = 201 \<and> \<not> deferJudging env cid (as_db st') \<and>
             as_tasks st' = as_tasks st @ [judge_task_of env sub pd])"
  using assms
  by (auto simp: accept_submission_def uploadSource_def enqueueTask_def publishJudgeTask_def SubmissionRepo_Create_def
      accepted_as_def refused_def new_submission_def judge_task_of_def Let_def
      split: if_splits prod.splits sum.splits)

section \<open>Batch evaluation\<close>

lemma latest_ids_spec:
  "latest_ids ss m k =
     (let ids = sub_ID ` {s \<in> set ss. (sub_UserID s, sub_ProblemID s) = k} \<union> set_option (m k)
      in if ids = {} then None else Some (Max ids))"
proof (induction ss m rule: latest_ids.induct)
  case (1 m)
  then show ?case by (cases "m k") auto
next
  case (2 s ss m)
  let ?k = "(sub_UserID s, sub_ProblemID s)"
  let ?m = "case m ?k of None \<Rightarrow> m(?k \<mapsto> sub_ID s) | Some cur \<Rightarrow> if sub_ID s > cur then m(?k \<mapsto> sub_ID s) else m"
  let ?A = "sub_ID ` {x \<in> set ss. (sub_UserID x, sub_ProblemID x) = k}"
  have fin: "finite ?A" by simp
  have IH: "latest_ids (s # ss) m k = (if ?A \<union> set_option (?m k) = {} then None else Some (Max (?A \<union> set_option (?m k))))"
    using 2 [OF refl] by (simp add: Let_def)
  show ?case
  proof (cases "k = ?k")
    case False
    then have "?m k = m k" by (auto split: option.split)
    moreover have "sub_ID ` {x \<in> set (s # ss). (sub_UserID x, sub_ProblemID x) = k} = ?A" using False by auto
    ultimately show ?thesis unfolding IH by (simp add: Let_def)
  next
    case True
    have B: "sub_ID ` {x \<in> set (s # ss). (sub_UserID x, sub_ProblemID x) = k} = insert (sub_ID s) ?A" using True by auto
    show ?thesis
    proof (cases "m k")
      case None
      then have "?m k = Some (sub_ID s)" using True by simp
      then show ?thesis unfolding IH B by (simp add: None Let_def)
    next
      case (Some cur)
      then have "?m k = Some (max (sub_ID s) cur)" using True by (auto simp: max_def)
      then show ?thesis unfolding IH B using Max_insert2 [OF fin, of "sub_ID s" cur] by (simp add: Some Let_def insert_commute)
    qed
  qed
qed

lemma Max_is_iff: "finite A \<Longrightarrow> (x :: int) \<in> A \<Longrightarrow> Max A = x \<longleftrightarrow> (\<forall>a \<in> A. a \<le> x)"
  by (metis Max_eqI Max_ge)

lemma latest_ids_max:
  assumes "s \<in> set ss"
  shows "latest_ids ss Map.empty (sub_UserID s, sub_ProblemID s) = Some (sub_ID s) \<longleftrightarrow>
    (\<forall>x \<in> set ss. sub_UserID x = sub_UserID s \<and> sub_ProblemID x = sub_ProblemID s \<longrightarrow> sub_ID x \<le> sub_ID s)"
proof -
  let ?A = "sub_ID ` {x \<in> set ss. (sub_UserID x, sub_ProblemID x) = (sub_UserID s, sub_ProblemID s)}"
  have A: "finite ?A" "sub_ID s \<in> ?A" using assms by auto
  then have "latest_ids ss Map.empty (sub_UserID s, sub_ProblemID s) = Some (Max ?A)"
    unfolding latest_ids_spec by (auto simp: Let_def)
  moreover have "Max ?A = sub_ID s \<longleftrightarrow> (\<forall>a \<in> ?A. a \<le> sub_ID s)"
    by (rule Max_is_iff [OF A])
  ultimately show ?thesis by auto
qed

definition is_last :: "submission list \<Rightarrow> submission \<Rightarrow> bool" where
  "is_last ss s \<longleftrightarrow>
     (\<forall>x \<in> set ss. sub_UserID x = sub_UserID s \<and> sub_ProblemID x = sub_ProblemID s \<longrightarrow> sub_ID x \<le> sub_ID s)"

lemma split_latest: "splitLatestPerProblem ss = (filter (is_last ss) ss, filter (\<lambda>s. \<not> is_last ss s) ss)"
proof -
  let ?latest = "\<lambda>s. latest_ids ss Map.empty (sub_UserID s, sub_ProblemID s) = Some (sub_ID s)"
  have "?latest s = is_last ss s" if "s \<in> set ss" for s
    unfolding is_last_def by (rule latest_ids_max [OF that])
  then have "filter ?latest ss = filter (is_last ss) ss" "filter (\<lambda>s. \<not> ?latest s) ss = filter (\<lambda>s. \<not> is_last ss s) ss"
    by (simp_all cong: filter_cong)
  then show ?thesis by (simp add: splitLatestPerProblem_def Let_def)
qed

definition sub_key :: "submission \<Rightarrow> ID \<times> ID" where
  "sub_key s = (sub_UserID s, sub_ProblemID s)"

lemma last_keys_distinct:
  assumes "distinct (map sub_ID ss)"
  shows "distinct (map sub_key (filter (is_last ss) ss))"
proof -
  have inj: "inj_on sub_key (set (filter (is_last ss) ss))"
  proof (rule inj_onI)
    fix x y assume xy: "x \<in> set (filter (is_last ss) ss)" "y \<in> set (filter (is_last ss) ss)"
      "sub_key x = sub_key y"
    then have "sub_ID x = sub_ID y" by (auto simp: is_last_def sub_key_def intro: order_antisym)
    then show "x = y" using assms xy by (auto simp: distinct_map inj_on_def)
  qed
  moreover have "distinct ss" using assms by (simp add: distinct_map)
  ultimately show ?thesis by (simp add: distinct_map)
qed

definition task_key :: "task_message \<Rightarrow> ID \<times> ID" where
  "task_key t = (jt_UserID (tm_JudgeTask t), jt_ProblemID (tm_JudgeTask t))"

lemma task_fields [simp]:
  "task_key (judge_task_of env s pd) = sub_key s"
  "jt_ContestID (tm_JudgeTask (judge_task_of env s pd)) = sub_ContestID s"
  "jt_SubmissionID (tm_JudgeTask (judge_task_of env s pd)) = sub_ID s"
  by (cases pd; simp add: judge_task_of_def task_key_def sub_key_def)+

lemma judge_batch_spec:
  assumes "judge_batch env subs cache e k st = (e', k', st')"
  shows "\<exists>ts. as_tasks st' = as_tasks st @ ts \<and> as_db st' = as_db st \<and> e' = e + int (length ts) \<and>
    e' + k' = e + k + int (length subs) \<and> (\<forall>t \<in> set ts. \<exists>s \<in> set subs. \<exists>pd. t = judge_task_of env s pd) \<and>
    (distinct (map sub_key subs) \<longrightarrow> distinct (map task_key ts))"
  using assms
proof (induction subs arbitrary: cache e k st)
  case Nil
  then show ?case by simp
next
  case (Cons sub subs)
  let ?pm = "case cache (sub_ProblemID sub) of Some pm \<Rightarrow> pm
      | None \<Rightarrow> (case loadProblemMetaCtx env (sub_ProblemID sub) (as_db st) of Inl _ \<Rightarrow> None
                | Inr (cfg, meta, testCases) \<Rightarrow> if testCases = [] then None else Some (cfg, meta, testCases))"
  let ?c = "cache(sub_ProblemID sub \<mapsto> ?pm)"
  consider (skip) "judge_batch env subs ?c e (k + 1) st = (e', k', st')"
    | (publish) pd where
        "judge_batch env subs ?c (e + 1) k (st\<lparr>as_tasks := as_tasks st @ [judge_task_of env sub pd]\<rparr>) = (e', k', st')"
    using Cons.prems(1)
    by (cases ?pm; cases "se_fails env (CallPublish (sub_ID sub))") (auto simp: Let_def publishJudgeTask_def)
  then show ?case
  proof cases
    case skip
    obtain ts where "as_tasks st' = as_tasks st @ ts" "as_db st' = as_db st" "e' = e + int (length ts)"
      "e' + k' = e + (k + 1) + int (length subs)" "\<forall>t \<in> set ts. \<exists>s \<in> set subs. \<exists>pd. t = judge_task_of env s pd"
      "distinct (map sub_key subs) \<longrightarrow> distinct (map task_key ts)"
      using Cons.IH [OF skip] by blast
    then show ?thesis by (intro exI [of _ ts]) simp
  next
    case (publish pd)
    let ?t = "judge_task_of env sub pd"
    obtain ts where ts: "as_tasks st' = as_tasks st @ ?t # ts" "as_db st' = as_db st" "e' = e + 1 + int (length ts)"
      "e' + k' = e + 1 + k + int (length subs)" "\<forall>t \<in> set ts. \<exists>s \<in> set subs. \<exists>pd. t = judge_task_of env s pd"
      "distinct (map sub_key subs) \<longrightarrow> distinct (map task_key ts)"
      using Cons.IH [OF publish] by auto
    have "task_key ` set ts \<subseteq> sub_key ` set subs" using ts(5) by fastforce
    then have "distinct (map task_key (?t # ts))" if "distinct (map sub_key (sub # subs))" using that ts(6) by auto
    moreover have "\<exists>s \<in> set (sub # subs). \<exists>pd. t = judge_task_of env s pd" if "t \<in> set (?t # ts)" for t
      using that ts(5) by (metis list.set_intros(1,2) set_ConsD)
    ultimately show ?thesis
      using ts(1-4) by (intro exI [of _ "?t # ts"] conjI impI ballI) simp_all
  qed
qed

lemma sorted_pending:
  "set (ListPendingByContest cid d) =
     pending_row ` {s \<in> set (db_submissions d). sub_ContestID s = Some cid \<and> sub_Status s = StatusPending}"
  by (simp add: ListPendingByContest_def)

lemma pending_row_fields [simp]:
  "sub_ID (pending_row s) = sub_ID s" "sub_UserID (pending_row s) = sub_UserID s"
  "sub_ProblemID (pending_row s) = sub_ProblemID s" "sub_ContestID (pending_row s) = sub_ContestID s"
  by (simp_all add: pending_row_def)

lemma pending_ids_distinct:
  assumes "distinct (map sub_ID (db_submissions d))"
  shows "distinct (map sub_ID (ListPendingByContest cid d))"
proof -
  have "map sub_ID (map pending_row xs) = map sub_ID xs" for xs by simp
  then show ?thesis
    using distinct_map_filter_key [OF assms] unfolding ListPendingByContest_def by (simp del: map_map)
qed

section \<open>Running contests\<close>

lemma not_ended_before_end: "now < c_EndTime c \<Longrightarrow> EffectiveStatus c now \<noteq> ContestStatusEnded"
  by (auto simp: EffectiveStatus_def split: option.split)

lemma scanContest_simps [simp]:
  "EffectiveStatus (scanContest t c) now = EffectiveStatus c now" "IsBlindJudged (scanContest t c) = IsBlindJudged c"
  "c_ContestType (scanContest t c) = c_ContestType c" "c_EndTime (scanContest t c) = c_EndTime c"
  by (simp_all add: scanContest_def EffectiveStatus_def IsBlindJudged_def)

text \<open>The tasks of one contest in the queue.\<close>

definition contest_tasks :: "ID \<Rightarrow> api_state \<Rightarrow> task_message list" where
  "contest_tasks cid st = filter (\<lambda>t. jt_ContestID (tm_JudgeTask t) = Some cid) (as_tasks st)"

inductive sub_step :: "sub_env \<Rightarrow> api_state \<Rightarrow> api_state \<Rightarrow> bool" for env where
  submit: "sub_step env st (snd (Submit env p c body st))"
| practice: "sub_step env st (snd (SubmitPractice env c body st))"
| judge: "sub_step env st (snd (JudgeContest env p st))"

inductive sub_run :: "(sub_env \<Rightarrow> bool) \<Rightarrow> api_state \<Rightarrow> api_state \<Rightarrow> bool" for ok st where
  start: "sub_run ok st st"
| step: "sub_run ok st st' \<Longrightarrow> ok env \<Longrightarrow> sub_step env st' st'' \<Longrightarrow> sub_run ok st st''"

definition held :: "ID \<Rightarrow> contest \<Rightarrow> api_state \<Rightarrow> api_state \<Rightarrow> bool" where
  "held cid c st st' \<longleftrightarrow> db_contests (as_db st') = db_contests (as_db st) \<and> contest_tasks cid st' = contest_tasks cid st"

lemma held_accept:
  assumes "accept_submission env uid cid' req pd st = (r, st')" and "\<not> se_fails env CallGetContest"
    and "find (\<lambda>c. c_ID c = cid) (db_contests (as_db st)) = Some c" and "IsBlindJudged c" and "se_now env < c_EndTime c"
  shows "held cid c st st'"
proof -
  have cts: "db_contests (as_db st') = db_contests (as_db st)"
    using assms(1) by (auto simp: accept_submission_def uploadSource_def enqueueTask_def publishJudgeTask_def Let_def
        split: if_splits prod.splits sum.splits option.splits dest: create_contests)
  have deferred: "deferJudging env (Some cid) (as_db st')"
    using assms(2-5) cts by (simp add: deferJudging_def ContestRepo_GetByID_def not_ended_before_end)
  show ?thesis
  proof (cases r)
    case (Error n e)
    then show ?thesis using accept_spec [OF assms(1)] by (simp add: held_def refused_def contest_tasks_def)
  next
    case (Reply n body)
    then obtain sub where sub: "accepted_as env uid cid' req sub st st'"
      "as_tasks st' = as_tasks st \<or> \<not> deferJudging env cid' (as_db st') \<and> as_tasks st' = as_tasks st @ [judge_task_of env sub pd]"
      using accept_spec [OF assms(1)] by auto
    moreover have "sub_ContestID sub = cid'" using sub(1) by (simp add: accepted_as_def new_submission_def)
    moreover have "cid' \<noteq> Some cid" if "\<not> deferJudging env cid' (as_db st')" using that deferred by auto
    ultimately show ?thesis using cts by (auto simp: held_def contest_tasks_def)
  qed
qed

lemma loadProblemMeta_error: "loadProblemMeta env pid d = Inl r \<Longrightarrow> \<exists>n e. r = Error n e"
  by (auto simp: loadProblemMeta_def split: sum.splits if_splits)

text \<open>Either the request is turned away before anything is written, or it is accepted for processing.\<close>

lemma Submit_cases:
  assumes "Submit env p c body st = (r, st')"
  obtains (refuse) n e where "r = Error n e" and "st' = st"
  | (accept) cid uid req pd where "parseContestID p = Some cid" and "mustUserID c = Some uid" and "bind_submit body = Some req"
      and "CanSubmitToContest (se_check_now env) cid (sr_ProblemID req) uid (as_db st)"
      and "loadProblemMeta env (sr_ProblemID req) (as_db st) = (Inr pd :: sub_body reply + problem_data)"
      and "accept_submission env uid (Some cid) req pd st = (r, st')"
  using assms by (auto simp: Submit_def split: option.splits if_splits sum.splits dest: loadProblemMeta_error)

lemma SubmitPractice_cases:
  assumes "SubmitPractice env c body st = (r, st')"
  obtains (refuse) n e where "r = Error n e" and "st' = st"
  | (accept) cid uid req pd where "accept_submission env uid cid req pd st = (r, st')"
  using assms by (auto simp: SubmitPractice_def Let_def split: option.splits sum.splits dest: loadProblemMeta_error)

lemma JudgeContest_cases:
  assumes "JudgeContest env p st = (r, st')"
  obtains (refuse) n e where "r = Error n e" and "st' = st"
  | (run) cid contest toJudge voided enqueued skipped where "parseContestID p = Some cid"
      and "find (\<lambda>c. c_ID c = cid) (db_contests (as_db st)) = Some contest"
      and "EffectiveStatus contest (se_now env) = ContestStatusEnded"
      and "(toJudge, voided) = (if IsBlindJudged contest then splitLatestPerProblem (ListPendingByContest cid (as_db st))
             else (ListPendingByContest cid (as_db st), []))"
      and "judge_batch env toJudge Map.empty 0 0
             (st\<lparr>as_db := MarkSuperseded (se_db_now env) (map sub_ID voided) (as_db st)\<rparr>) = (enqueued, skipped, st')"
      and "r = Reply 200 (BatchView enqueued skipped (int (length voided))
             (int (length (ListPendingByContest cid (as_db st)))))"
proof (cases "\<exists>n e. r = Error n e")
  case True
  then show ?thesis
    using assms refuse by (auto simp: JudgeContest_def Let_def split: option.splits if_splits prod.splits)
next
  case False
  then show ?thesis
    using assms run
    by (auto simp: JudgeContest_def Let_def ContestRepo_GetByID_def split: option.splits if_splits prod.splits)
qed

lemma MarkSuperseded_contests [simp]: "db_contests (MarkSuperseded now ids d) = db_contests d"
  by (simp add: MarkSuperseded_def)

lemma MarkSuperseded_rows:
  "db_submissions (MarkSuperseded now ids d) =
     map (\<lambda>s. if sub_ID s \<in> set ids \<and> sub_Status s = StatusPending
            then s\<lparr>sub_Status := StatusSuperseded, sub_UpdatedAt := now\<rparr> else s) (db_submissions d)"
  by (cases ids) (simp_all add: MarkSuperseded_def)

lemma held_judge:
  assumes "JudgeContest env p st = (r, st')" and "se_now env < c_EndTime c"
    and "find (\<lambda>c. c_ID c = cid) (db_contests (as_db st)) = Some c"
  shows "held cid c st st'"
  using assms(1)
proof (cases rule: JudgeContest_cases)
  case refuse
  then show ?thesis by (simp add: held_def)
next
  case (run cid' contest toJudge voided enqueued skipped)
  then have "cid' \<noteq> cid" using assms(2,3) not_ended_before_end by auto
  obtain ts where ts: "as_tasks st' = as_tasks st @ ts" "db_contests (as_db st') = db_contests (as_db st)"
    "\<forall>t \<in> set ts. \<exists>s \<in> set toJudge. \<exists>pd. t = judge_task_of env s pd"
    using judge_batch_spec [OF run(5)] by auto
  have "set toJudge \<subseteq> set (ListPendingByContest cid' (as_db st))"
    using run(4) by (auto simp: split_latest split: if_splits)
  then have "\<forall>s \<in> set toJudge. sub_ContestID s = Some cid'" using sorted_pending by fastforce
  then have "filter (\<lambda>t. jt_ContestID (tm_JudgeTask t) = Some cid) ts = []"
    using ts(3) \<open>cid' \<noteq> cid\<close> by (fastforce simp: filter_empty_conv)
  then show ?thesis using ts by (simp add: held_def contest_tasks_def)
qed

lemma held_run:
  assumes "sub_run (\<lambda>env. \<not> se_fails env CallGetContest \<and> se_now env < c_EndTime c) st st'"
    and "find (\<lambda>c. c_ID c = cid) (db_contests (as_db st)) = Some c" and "IsBlindJudged c"
  shows "held cid c st st'"
  using assms(1)
proof (induction rule: sub_run.induct)
  case start
  then show ?case by (simp add: held_def)
next
  case (step st' env st'')
  have c: "find (\<lambda>c. c_ID c = cid) (db_contests (as_db st')) = Some c" using step.IH assms(2) by (simp add: held_def)
  have "held cid c st' st''"
    using step.hyps(3)
  proof (cases rule: sub_step.cases)
    case (submit p c' body)
    then have "Submit env p c' body st' = (fst (Submit env p c' body st'), st'')" by simp
    then show ?thesis
      by (cases rule: Submit_cases) (use held_accept c assms(3) step.hyps(2) in \<open>auto simp: held_def\<close>)
  next
    case (practice c' body)
    then have "SubmitPractice env c' body st' = (fst (SubmitPractice env c' body st'), st'')" by simp
    then show ?thesis
      by (cases rule: SubmitPractice_cases) (use held_accept c assms(3) step.hyps(2) in \<open>auto simp: held_def\<close>)
  next
    case (judge p)
    then have "JudgeContest env p st' = (fst (JudgeContest env p st'), st'')" by simp
    then show ?thesis using held_judge c step.hyps(2) by blast
  qed
  then show ?case using step.IH by (simp add: held_def)
qed

section \<open>Properties\<close>

text \<open>
  C31: Blind contests stay unjudged while they run. Whatever submissions arrive through either
  endpoint and however often an administrator triggers a batch evaluation, no task of an OI contest
  enters the judge queue before the contest's end, as long as the contest can be looked up.
\<close>

theorem blind_contest_held:
  assumes "find (\<lambda>c. c_ID c = cid) (db_contests (as_db st)) = Some c" and "c_ContestType c = ContestOI"
    and "sub_run (\<lambda>env. \<not> se_fails env CallGetContest \<and> se_now env < c_EndTime c) st st'"
  shows "contest_tasks cid st' = contest_tasks cid st"
  using held_run [OF assms(3,1)] assms(2) by (simp add: held_def IsBlindJudged_def)

text \<open>
  C33: The batch evaluation of a blind contest judges last submissions only. A successful run accounts
  for every pending submission as queued, skipped or superseded; it queues at most one task per user
  and problem, always for the pending submission with the highest number; the earlier pending ones
  become superseded and every other row keeps its contents.
\<close>

theorem JudgeContest_last_only:
  assumes "JudgeContest env p st = (Reply n (BatchView enqueued skipped superseded all), st')"
    and "parseContestID p = Some cid" and "find (\<lambda>c. c_ID c = cid) (db_contests (as_db st)) = Some c"
    and "c_ContestType c = ContestOI" and "distinct (map sub_ID (db_submissions (as_db st)))"
  defines "pending \<equiv> filter (\<lambda>s. sub_ContestID s = Some cid \<and> sub_Status s = StatusPending) (db_submissions (as_db st))"
  shows "enqueued + skipped + superseded = all \<and> all = int (length pending) \<and>
    (\<exists>ts. as_tasks st' = as_tasks st @ ts \<and> int (length ts) = enqueued \<and> distinct (map task_key ts) \<and>
       (\<forall>t \<in> set ts. \<exists>s \<in> set pending. jt_SubmissionID (tm_JudgeTask t) = sub_ID s \<and> is_last pending s)) \<and>
    db_submissions (as_db st') = map (\<lambda>s. if s \<in> set pending \<and> \<not> is_last pending s
       then s\<lparr>sub_Status := StatusSuperseded, sub_UpdatedAt := se_db_now env\<rparr> else s) (db_submissions (as_db st))"
  using assms(1)
proof (cases rule: JudgeContest_cases)
  case (run cid' contest toJudge voided e k)
  let ?l = "ListPendingByContest cid (as_db st)" and ?d = "as_db st"
  have same: "cid' = cid" "contest = c" using run(1,2) assms(2,3) by simp_all
  then have split: "toJudge = filter (is_last ?l) ?l" "voided = filter (\<lambda>s. \<not> is_last ?l s) ?l"
    using run(4) assms(4) by (simp_all add: IsBlindJudged_def split_latest)
  have l: "set ?l = pending_row ` set pending" "length ?l = length pending" "distinct (map sub_ID ?l)"
    using pending_ids_distinct [OF assms(5)] by (simp_all add: sorted_pending pending_def ListPendingByContest_def)
  have last: "is_last ?l (pending_row s) = is_last pending s" for s
    by (simp add: is_last_def l(1))
  have rep: "e = enqueued" "k = skipped" "superseded = int (length voided)" "all = int (length ?l)"
    using run(6) same by simp_all
  obtain ts where ts: "as_tasks st' = as_tasks st @ ts" "e = int (length ts)" "e + k = int (length toJudge)"
    "as_db st' = MarkSuperseded (se_db_now env) (map sub_ID voided) ?d"
    "\<forall>t \<in> set ts. \<exists>s \<in> set toJudge. \<exists>pd. t = judge_task_of env s pd"
    "distinct (map sub_key toJudge) \<longrightarrow> distinct (map task_key ts)"
    using judge_batch_spec [OF run(5)] by auto
  have "int (length toJudge) + int (length voided) = int (length ?l)"
    unfolding split by (metis of_nat_add sum_length_filter_compl)
  then have "enqueued + skipped + superseded = all" "all = int (length pending)"
    using rep ts(3) l(2) by simp_all
  moreover have "distinct (map task_key ts)" using ts(6) last_keys_distinct [OF l(3)] split(1) by simp
  moreover have "\<exists>s \<in> set pending. jt_SubmissionID (tm_JudgeTask t) = sub_ID s \<and> is_last pending s" if "t \<in> set ts" for t
    using bspec [OF ts(5) that] unfolding split(1) by (auto simp: l(1) last)
  moreover have "db_submissions (as_db st') = map (\<lambda>s. if s \<in> set pending \<and> \<not> is_last pending s
       then s\<lparr>sub_Status := StatusSuperseded, sub_UpdatedAt := se_db_now env\<rparr> else s) (db_submissions ?d)"
  proof -
    have "sub_ID s \<in> set (map sub_ID voided) \<and> sub_Status s = StatusPending \<longleftrightarrow> s \<in> set pending \<and> \<not> is_last pending s"
      if s: "s \<in> set (db_submissions ?d)" for s
    proof -
      have "set voided = pending_row ` {x \<in> set pending. \<not> is_last pending x}"
        unfolding split(2) by (auto simp: l(1) last)
      then have "set (map sub_ID voided) = sub_ID ` {x \<in> set pending. \<not> is_last pending x}"
        by (simp add: image_image)
      moreover have "x = s" if "x \<in> set pending" "sub_ID x = sub_ID s" for x
        using assms(5) s that by (auto simp: pending_def distinct_map inj_on_def)
      ultimately show ?thesis by (auto simp: pending_def)
    qed
    then show ?thesis
      unfolding ts(4) MarkSuperseded_rows by (intro map_cong refl) simp
  qed
  ultimately show ?thesis using ts(1,2) rep(1) by blast
qed simp

text \<open>A blind contest with one problem, two earlier submissions of user 1 waiting.\<close>

definition oi_submission :: "ID \<Rightarrow> submission" where
  "oi_submission i = \<lparr>sub_ID = i, sub_UserID = 1, sub_ProblemID = 3, sub_ContestID = Some 2, sub_ContestType = None,
     sub_Language = LangGo, sub_SourceCodePath = ''k'', sub_Status = StatusPending, sub_Score = 0, sub_TimeUsedMs = 0,
     sub_MemUsedKB = 0, sub_CompileLog = [], sub_JudgeMessage = [], sub_TestCaseResults = [], sub_JudgeNodeID = [],
     sub_CreatedAt = 2000 + i, sub_UpdatedAt = 2000 + i\<rparr>"

definition oi_case :: judge_test_case where
  "oi_case = \<lparr>jtc_TestCaseID = 4, jtc_GroupID = 1, jtc_Ordinal = 1, jtc_InputPath = ''1.in'', jtc_OutputPath = ''1.out'',
     jtc_Score = 100\<rparr>"

definition oi_state :: api_state where
  "oi_state = \<lparr>as_db = \<lparr>db_users = [(sample_user ''ann'')\<lparr>u_ID := 1\<rparr>], db_problems = [sample_problem\<lparr>p_ID := 3\<rparr>],
       db_test_cases = [\<lparr>tr_ProblemID = 3, tr_case = oi_case\<rparr>],
       db_contests = [sample_contest\<lparr>c_ID := 2, c_ContestType := ContestOI\<rparr>],
       db_contest_problems = [\<lparr>cp_ContestID = 2, cp_ProblemID = 3, cp_Label = ''A'', cp_MaxScore = 100, cp_Ordinal = 1\<rparr>],
       db_participants = [], db_submissions = [oi_submission 5, oi_submission 6], db_seq = 7\<rparr>,
     as_objects = Map.empty, as_tasks = []\<rparr>"

definition oi_env :: "time \<Rightarrow> sub_env" where
  "oi_env t = \<lparr>se_now = t, se_check_now = t, se_db_now = t, se_uuid = ''u'', se_task_uuid = (\<lambda>_. ''t''), se_fails = (\<lambda>_. False)\<rparr>"

definition oi_request :: submit_request where
  "oi_request = \<lparr>sr_ProblemID = 3, sr_Language = LangGo, sr_SourceCode = ''x''\<rparr>"

definition ann :: gin_ctx where
  "ann = \<lparr>gc_user_id = Some 1, gc_user_role = Some RoleContestant\<rparr>"

lemma parse_2: "parseContestID ''2'' = Some 2"
  by (simp add: parseContestID_def parse_id_def parse_digits_def is_digit_def digits_value_def digit_value_def)

lemma oi_contest: "find (\<lambda>c. c_ID c = 2) (db_contests (as_db oi_state)) = Some (sample_contest\<lparr>c_ID := 2, c_ContestType := ContestOI\<rparr>)"
  by (simp add: oi_state_def)

lemma oi_submit: "fst (Submit (oi_env 3000) ''2'' ann (Encoded oi_request) oi_state) = Reply 201 (SubmissionDeferred 7 StatusPending)"
  by (simp add: Submit_def parse_2 mustUserID_def ann_def bind_submit_def oi_request_def rune_count_def oi_env_def
      CanSubmitToContest_def contests_with_def may_submit_def oi_state_def sample_contest_def loadProblemMeta_def
      loadProblemMetaCtx_def GetJudgeConfig_def GetJudgeMeta_def GetTestCases_def sample_problem_def oi_case_def
      accept_submission_def uploadSource_def SubmissionRepo_Create_def new_submission_def db_has sample_user_def
      deferJudging_def ContestRepo_GetByID_def scanContest_def IsBlindJudged_def EffectiveStatus_def Let_def)

theorem blind_contest_held_witness:
  "fst (Submit (oi_env 3000) ''2'' ann (Encoded oi_request) oi_state) = Reply 201 (SubmissionDeferred 7 StatusPending) \<and>
   contest_tasks 2 (snd (Submit (oi_env 3000) ''2'' ann (Encoded oi_request) oi_state)) = []"
proof -
  let ?c = "sample_contest\<lparr>c_ID := 2, c_ContestType := ContestOI\<rparr>"
  have "sub_run (\<lambda>env. \<not> se_fails env CallGetContest \<and> se_now env < c_EndTime ?c) oi_state
     (snd (Submit (oi_env 3000) ''2'' ann (Encoded oi_request) oi_state))"
    by (rule sub_run.step [OF sub_run.start _ sub_step.submit]) (simp add: oi_env_def sample_contest_def)
  then show ?thesis
    using blind_contest_held [OF oi_contest] oi_submit by (simp add: contest_tasks_def oi_state_def)
qed

lemma oi_judge: "fst (JudgeContest (oi_env 7000) ''2'' oi_state) = Reply 200 (BatchView 1 0 1 2)"
  by (simp add: JudgeContest_def parse_2 oi_env_def ContestRepo_GetByID_def oi_state_def scanContest_def sample_contest_def
      EffectiveStatus_def IsBlindJudged_def ListPendingByContest_def oi_submission_def pending_row_def splitLatestPerProblem_def
      MarkSuperseded_def loadProblemMetaCtx_def GetJudgeConfig_def GetJudgeMeta_def GetTestCases_def sample_problem_def
      oi_case_def publishJudgeTask_def Let_def)

theorem JudgeContest_last_only_witness:
  "\<exists>ts. as_tasks (snd (JudgeContest (oi_env 7000) ''2'' oi_state)) = ts \<and> length ts = 1 \<and> distinct (map task_key ts)"
proof -
  have "JudgeContest (oi_env 7000) ''2'' oi_state =
    (Reply 200 (BatchView 1 0 1 2), snd (JudgeContest (oi_env 7000) ''2'' oi_state))"
    using oi_judge by (metis prod.collapse)
  moreover have "distinct (map sub_ID (db_submissions (as_db oi_state)))"
    by (simp add: oi_state_def oi_submission_def)
  ultimately obtain ts where "as_tasks (snd (JudgeContest (oi_env 7000) ''2'' oi_state)) = as_tasks oi_state @ ts"
    "int (length ts) = 1" "distinct (map task_key ts)"
    using JudgeContest_last_only [OF _ parse_2 oi_contest] by fastforce
  then show ?thesis by (simp add: oi_state_def)
qed

text \<open>
  C34: Submitting to a contest is all or nothing. A refused request adds no row and no task. An
  accepted one comes from a logged-in user who may submit that problem to that contest at that
  moment; it adds exactly one pending row, with the source stored under the row's key, and the queue
  grows by the task built from that row or, when judging is deferred or publishing failed, not at all.
\<close>

theorem Submit_effect:
  assumes "Submit env p c body st = (r, st')"
  shows "case r of
      Error _ _ \<Rightarrow> refused st st'
    | Reply n _ \<Rightarrow> n \<in> {201, 202} \<and>
        (\<exists>cid uid req sub pd. parseContestID p = Some cid \<and> mustUserID c = Some uid \<and> bind_submit body = Some req \<and>
           CanSubmitToContest (se_check_now env) cid (sr_ProblemID req) uid (as_db st) \<and>
           loadProblemMetaCtx env (sr_ProblemID req) (as_db st) = Inr pd \<and>
           accepted_as env uid (Some cid) req sub st st' \<and>
           (as_tasks st' = as_tasks st \<or>
            n = 201 \<and> \<not> deferJudging env (Some cid) (as_db st') \<and> as_tasks st' = as_tasks st @ [judge_task_of env sub pd]))"
  using assms
proof (cases rule: Submit_cases)
  case refuse
  then show ?thesis by simp
next
  case (accept cid uid req pd)
  have load: "loadProblemMetaCtx env (sr_ProblemID req) (as_db st) = Inr pd"
    using accept(5) by (auto simp: loadProblemMeta_def split: sum.splits if_splits)
  show ?thesis
  proof (cases r)
    case (Error n e)
    then show ?thesis using accept_spec [OF accept(6)] by simp
  next
    case (Reply n body')
    then obtain sub where "accepted_as env uid (Some cid) req sub st st'" "n \<in> {201, 202}"
      "as_tasks st' = as_tasks st \<or>
       n = 201 \<and> \<not> deferJudging env (Some cid) (as_db st') \<and> as_tasks st' = as_tasks st @ [judge_task_of env sub pd]"
      using accept_spec [OF accept(6)] by auto
    then show ?thesis using accept(1-4) load Reply by (simp only: reply.case) blast
  qed
qed

theorem Submit_effect_witness:
  "\<exists>cid uid sub. accepted_as (oi_env 3000) uid (Some cid) oi_request sub oi_state
     (snd (Submit (oi_env 3000) ''2'' ann (Encoded oi_request) oi_state)) \<and> sub_ID sub = 7"
proof -
  have "Submit (oi_env 3000) ''2'' ann (Encoded oi_request) oi_state =
    (Reply 201 (SubmissionDeferred 7 StatusPending), snd (Submit (oi_env 3000) ''2'' ann (Encoded oi_request) oi_state))"
    using oi_submit by (metis prod.collapse)
  note effect = Submit_effect [OF this, unfolded reply.case]
  have "bind_submit (Encoded oi_request) = Some oi_request"
    by (simp add: bind_submit_def oi_request_def rune_count_def)
  then obtain cid uid sub where "accepted_as (oi_env 3000) uid (Some cid) oi_request sub oi_state
      (snd (Submit (oi_env 3000) ''2'' ann (Encoded oi_request) oi_state))"
    using effect by (metis option.inject)
  moreover from this have "sub_ID sub = 7" by (simp add: accepted_as_def oi_state_def)
  ultimately show ?thesis by blast
qed

text \<open>What the judge learned about a submission, removed.\<close>

definition unjudged :: "submission \<Rightarrow> submission" where
  "unjudged s = s\<lparr>sub_Status := StatusPending, sub_Score := 0, sub_TimeUsedMs := 0, sub_MemUsedKB := 0,
     sub_CompileLog := [], sub_JudgeMessage := [], sub_TestCaseResults := []\<rparr>"

lemma unjudged_fields [simp]:
  "sub_ID (unjudged s) = sub_ID s" "sub_UserID (unjudged s) = sub_UserID s" "sub_ContestID (unjudged s) = sub_ContestID s"
  by (simp_all add: unjudged_def)

lemma find_unjudged:
  assumes "map unjudged ss = map unjudged ss'"
  shows "map_option unjudged (find (\<lambda>s. sub_ID s = i) ss) = map_option unjudged (find (\<lambda>s. sub_ID s = i) ss')"
proof -
  have "map_option unjudged (find (\<lambda>s. sub_ID s = i) xs) = find (\<lambda>s. sub_ID s = i) (map unjudged xs)" for xs
    by (induction xs) simp_all
  then show ?thesis using assms by simp
qed


definition judged_state :: api_state where
  "judged_state = oi_state\<lparr>as_db := (as_db oi_state)\<lparr>db_submissions :=
     [(oi_submission 5)\<lparr>sub_Status := StatusAccepted, sub_Score := 100\<rparr>, oi_submission 6]\<rparr>\<rparr>"


text \<open>Only the author and administrators ever get the source.\<close>

lemma source_private:
  assumes "GetSubmissionSource env idParam c st = Reply n (SourceView lang code)"
  shows "\<exists>i sub. parse_id idParam = Some i \<and> SubmissionRepo_GetByID i (as_db st) = Some sub \<and>
    (gc_user_role c = Some RoleAdmin \<or> fst (UserIDFromCtx c) = sub_UserID sub) \<and>
    as_objects st (sub_SourceCodePath sub) = Some code"
  using assms is_admin_iff [of c]
  by (auto simp: GetSubmissionSource_def is_admin_def split: option.splits if_splits)

end
