(* ===== verification/Contest_Api.thy ===== *)
theory Contest_Api
  imports Http
begin

text \<open>
  Package \<open>api/handler\<close>, files \<open>contest.go\<close> and \<open>problem.go\<close>: listing and reading contests and
  problems, registration, and the administration of both. Whether a call to the database fails for
  reasons outside the model is decided by \<open>cv_fails\<close>; \<open>cv_db_now\<close> is the clock the queries read and
  \<open>cv_now\<close> the handler's own.
\<close>

section \<open>Environment and replies\<close>

datatype crud_call = CallList | CallGet | CallIsRegistered | CallGetProblems | CallRegister | CallCreateContest
  | CallAddProblem | CallCreateProblem | CallRemoveProblem | CallDelete | CallCanView | CallUpdate | CallCases

record crud_env =
  cv_now :: time
  cv_db_now :: time
  cv_fails :: "crud_call \<Rightarrow> bool"

datatype crud_body =
    ContestPage "contest list" int int int
  | ContestView contest bool
  | ProblemsView "contest_problem_summary list"
  | NotStarted
  | Registered
  | ContestCreated contest
  | ProblemAdded
  | ProblemCreatedIn ID
  | ProblemRemoved
  | Deleted ID
  | ProblemPage "problem list" int int int
  | ProblemView problem
  | ProblemCreated problem
  | ProblemUpdated ID
  | TestcasesView "judge_test_case list" int

abbreviation internal_error :: "'b reply" where
  "internal_error \<equiv> Error 500 ''internal error''"

section \<open>Contests\<close>

definition Contest_List :: "crud_env \<Rightarrow> gin_ctx \<Rightarrow> string \<Rightarrow> string \<Rightarrow> db \<Rightarrow> crud_body reply" where
  "Contest_List env c pageQ sizeQ d =
     (case parsePageSize pageQ sizeQ of
        (page, n) \<Rightarrow>
          if cv_fails env CallList then internal_error
          else case ContestRepo_List (cv_db_now env) (\<not> is_admin c) n (page_offset page n) d of
            Inl _ \<Rightarrow> internal_error
          | Inr (cs, cnt) \<Rightarrow> Reply 200 (ContestPage cs cnt page n))"

definition Contest_Get :: "crud_env \<Rightarrow> gin_ctx \<Rightarrow> string \<Rightarrow> db \<Rightarrow> crud_body reply" where
  "Contest_Get env c idParam d =
     (case parseContestID idParam of
        None \<Rightarrow> Error 400 ''invalid contest_id''
      | Some i \<Rightarrow>
          if cv_fails env CallGet then internal_error
          else case ContestRepo_GetByID (cv_now env) i d of
            None \<Rightarrow> Error 404 ''contest not found''
          | Some contest \<Rightarrow>
              Reply 200 (ContestView contest
                (case UserIDFromCtx c of
                   (uid, authed) \<Rightarrow> authed \<and> \<not> cv_fails env CallIsRegistered \<and> IsRegistered i uid d)))"

text \<open>Who may see a contest's problem list: \<open>None\<close> when nothing speaks against it.\<close>

definition problems_gate :: "crud_env \<Rightarrow> gin_ctx \<Rightarrow> ID \<Rightarrow> contest \<Rightarrow> db \<Rightarrow> crud_body reply option" where
  "problems_gate env c i contest d =
     (if \<not> is_admin c \<and> \<not> c_IsPublic contest then
        (case UserIDFromCtx c of
           (_, False) \<Rightarrow> Some (Error 401 ''authentication required'')
         | (uid, True) \<Rightarrow>
             if cv_fails env CallIsRegistered then Some internal_error
             else if \<not> IsRegistered i uid d then Some (Error 403 ''not a participant of this contest'')
             else None)
      else None)"

definition Contest_GetProblems :: "crud_env \<Rightarrow> gin_ctx \<Rightarrow> string \<Rightarrow> db \<Rightarrow> crud_body reply" where
  "Contest_GetProblems env c idParam d =
     (case parseContestID idParam of
        None \<Rightarrow> Error 400 ''invalid contest_id''
      | Some i \<Rightarrow>
          if cv_fails env CallGet then internal_error
          else case ContestRepo_GetByID (cv_now env) i d of
            None \<Rightarrow> Error 404 ''contest not found''
          | Some contest \<Rightarrow>
              (case problems_gate env c i contest d of
                 Some r \<Rightarrow> r
               | None \<Rightarrow>
                   if \<not> is_admin c \<and> Before (cv_now env) (c_StartTime contest) then Reply 200 NotStarted
                   else if cv_fails env CallGetProblems then internal_error
                   else Reply 200 (ProblemsView (GetProblems i d))))"

definition RegisterParticipant :: "crud_env \<Rightarrow> gin_ctx \<Rightarrow> string \<Rightarrow> db \<Rightarrow> crud_body reply \<times> db" where
  "RegisterParticipant env c idParam d =
     (case parseContestID idParam of
        None \<Rightarrow> (Error 400 ''invalid contest_id'', d)
      | Some i \<Rightarrow>
          (case UserIDFromCtx c of
             (_, False) \<Rightarrow> (Error 401 ''not authenticated'', d)
           | (uid, True) \<Rightarrow>
               if cv_fails env CallGet then (Error 404 ''contest not found'', d)
               else case ContestRepo_GetByID (cv_now env) i d of
                 None \<Rightarrow> (Error 404 ''contest not found'', d)
               | Some contest \<Rightarrow>
                   if c_Status contest = ContestStatusEnded then (Error 400 ''contest has ended'', d)
                   else if \<not> c_AllowLateRegister contest \<and> c_Status contest \<in> {ContestStatusRunning, ContestStatusFrozen}
                   then (Error 400 ''late registration not allowed'', d)
                   else if cv_fails env CallRegister then (internal_error, d)
                   else case ContestRepo_Register (cv_db_now env) i uid d of
                     (Inl _, _) \<Rightarrow> (internal_error, d)
                   | (Inr _, d') \<Rightarrow> (Reply 200 Registered, d')))"

record create_contest_req =
  ccr_Title :: string
  ccr_Description :: string
  ccr_ContestType :: ContestType
  ccr_StartTime :: time
  ccr_EndTime :: time
  ccr_FreezeTime :: "time option"
  ccr_Settings :: ContestSettings
  ccr_IsPublic :: bool
  ccr_AllowLateRegister :: bool

definition bind_contest :: "create_contest_req payload \<Rightarrow> create_contest_req option" where
  "bind_contest body =
     (case decode body of
        None \<Rightarrow> None
      | Some r \<Rightarrow> if ccr_Title r = [] \<or> IsZero (ccr_StartTime r) \<or> IsZero (ccr_EndTime r) then None else Some r)"

definition Contest_Create :: "crud_env \<Rightarrow> gin_ctx \<Rightarrow> create_contest_req payload \<Rightarrow> db \<Rightarrow> crud_body reply \<times> db" where
  "Contest_Create env c body d =
     (case bind_contest body of
        None \<Rightarrow> (Error 400 ''bad request'', d)
      | Some r \<Rightarrow>
          let contest = \<lparr>c_ID = 0, c_Title = ccr_Title r, c_Description = ccr_Description r,
                c_ContestType = (if ccr_ContestType r = ContestOther [] then ContestICPC else ccr_ContestType r),
                c_Status = ContestStatusDraft, c_StartTime = ccr_StartTime r, c_EndTime = ccr_EndTime r,
                c_FreezeTime = ccr_FreezeTime r, c_Settings = ccr_Settings r, c_IsPublic = ccr_IsPublic r,
                c_AllowLateRegister = ccr_AllowLateRegister r, c_OrganizerID = fst (UserIDFromCtx c),
                c_CreatedAt = 0, c_UpdatedAt = 0\<rparr>
          in if cv_fails env CallCreateContest then (internal_error, d)
             else case ContestRepo_Create (cv_db_now env) contest d of
               (Inl _, _) \<Rightarrow> (internal_error, d)
             | (Inr contest, d') \<Rightarrow> (Reply 201 (ContestCreated contest), d'))"

text \<open>The defaults both ways of authoring a problem fill in.\<close>

definition problem_defaults :: "problem \<Rightarrow> problem" where
  "problem_defaults p =
     p\<lparr>p_TimeLimitMs := (if p_TimeLimitMs p = 0 then 2000 else p_TimeLimitMs p),
       p_MemLimitKB := (if p_MemLimitKB p = 0 then 262144 else p_MemLimitKB p),
       p_JudgeType := (if p_JudgeType p = JudgeOther [] then JudgeStandard else p_JudgeType p)\<rparr>"

record add_problem_req =
  apr_Label :: string
  apr_MaxScore :: int
  apr_Ordinal :: int
  apr_ProblemID :: ID
  apr_Title :: string
  apr_Statement :: string
  apr_TimeLimitMs :: int
  apr_MemLimitKB :: int
  apr_JudgeType :: JudgeType

definition new_problem :: "gin_ctx \<Rightarrow> string \<Rightarrow> string \<Rightarrow> int \<Rightarrow> int \<Rightarrow> JudgeType \<Rightarrow> bool \<Rightarrow> problem" where
  "new_problem c title statement timeLimit memLimit judgeType public =
     problem_defaults \<lparr>p_ID = 0, p_Title = title, p_Statement = statement, p_TimeLimitMs = timeLimit, p_MemLimitKB = memLimit,
       p_JudgeType = judgeType, p_JudgeConfig = Encoded empty_judge_config, p_AllowedLangs = None, p_IsPublic = public,
       p_AuthorID = fst (UserIDFromCtx c), p_CreatedAt = 0, p_UpdatedAt = 0\<rparr>"

definition link_existing :: "crud_env \<Rightarrow> ID \<Rightarrow> add_problem_req \<Rightarrow> db \<Rightarrow> crud_body reply \<times> db" where
  "link_existing env cid r d =
     (if cv_fails env CallAddProblem then (internal_error, d)
      else case ContestRepo_AddProblem cid (apr_ProblemID r) (apr_Label r) (apr_MaxScore r) (apr_Ordinal r) d of
        (Inl DBUniqueViolation, _) \<Rightarrow> (Error 409 ''problem already in contest'', d)
      | (Inl DBForeignKeyViolation, _) \<Rightarrow> (Error 400 ''contest or problem not found'', d)
      | (Inl _, _) \<Rightarrow> (internal_error, d)
      | (Inr _, d') \<Rightarrow> (Reply 201 ProblemAdded, d'))"

definition author_new :: "crud_env \<Rightarrow> gin_ctx \<Rightarrow> ID \<Rightarrow> add_problem_req \<Rightarrow> db \<Rightarrow> crud_body reply \<times> db" where
  "author_new env c cid r d =
     (if apr_Title r = [] then (Error 400 ''title is required when creating a problem'', d)
      else if cv_fails env CallCreateProblem then (internal_error, d)
      else case CreateContestProblem (cv_db_now env) cid
             (new_problem c (apr_Title r) (apr_Statement r) (apr_TimeLimitMs r) (apr_MemLimitKB r) (apr_JudgeType r) False)
             (apr_Label r) (apr_MaxScore r) (apr_Ordinal r) d of
        (Inl DBUniqueViolation, _) \<Rightarrow> (Error 409 ''label already used in this contest'', d)
      | (Inl DBForeignKeyViolation, _) \<Rightarrow> (Error 400 ''contest not found'', d)
      | (Inl _, _) \<Rightarrow> (internal_error, d)
      | (Inr p, d') \<Rightarrow> (Reply 201 (ProblemCreatedIn (p_ID p)), d'))"

definition Contest_AddProblem :: "crud_env \<Rightarrow> gin_ctx \<Rightarrow> string \<Rightarrow> add_problem_req payload \<Rightarrow> db \<Rightarrow> crud_body reply \<times> db" where
  "Contest_AddProblem env c idParam body d =
     (case parseContestID idParam of
        None \<Rightarrow> (Error 400 ''invalid contest_id'', d)
      | Some cid \<Rightarrow>
          (case decode body of
             None \<Rightarrow> (Error 400 ''bad request'', d)
           | Some r \<Rightarrow>
               if apr_Label r = [] then (Error 400 ''bad request'', d)
               else if apr_ProblemID r > 0 then link_existing env cid r d
               else author_new env c cid r d))"

definition Contest_RemoveProblem :: "crud_env \<Rightarrow> string \<Rightarrow> string \<Rightarrow> db \<Rightarrow> crud_body reply \<times> db" where
  "Contest_RemoveProblem env idParam pidParam d =
     (case parseContestID idParam of
        None \<Rightarrow> (Error 400 ''invalid contest_id'', d)
      | Some cid \<Rightarrow>
          (case parse_int pidParam of
             None \<Rightarrow> (Error 400 ''invalid problem id'', d)
           | Some pid \<Rightarrow>
               if cv_fails env CallRemoveProblem then (internal_error, d)
               else (Reply 200 ProblemRemoved, ContestRepo_RemoveProblem cid pid d)))"

definition Contest_Delete :: "crud_env \<Rightarrow> string \<Rightarrow> db \<Rightarrow> crud_body reply \<times> db" where
  "Contest_Delete env idParam d =
     (case parseContestID idParam of
        None \<Rightarrow> (Error 400 ''invalid contest_id'', d)
      | Some i \<Rightarrow>
          if cv_fails env CallDelete then (internal_error, d)
          else case ContestRepo_Delete i d of
            (Inl _, _) \<Rightarrow> (internal_error, d)
          | (Inr _, d') \<Rightarrow> (Reply 200 (Deleted i), d'))"

section \<open>Problems\<close>

definition Problem_List :: "crud_env \<Rightarrow> gin_ctx \<Rightarrow> string \<Rightarrow> string \<Rightarrow> db \<Rightarrow> crud_body reply" where
  "Problem_List env c pageQ sizeQ d =
     (case parsePageSize pageQ sizeQ of
        (page, n) \<Rightarrow>
          if cv_fails env CallList then internal_error
          else case ListProblems (cv_db_now env) (\<not> is_admin c) n (page_offset page n) d of
            Inl _ \<Rightarrow> internal_error
          | Inr (ps, cnt) \<Rightarrow> Reply 200 (ProblemPage ps cnt page n))"

definition Problem_Get :: "crud_env \<Rightarrow> gin_ctx \<Rightarrow> string \<Rightarrow> db \<Rightarrow> crud_body reply" where
  "Problem_Get env c idParam d =
     (case parse_int idParam of
        None \<Rightarrow> Error 400 ''invalid problem id''
      | Some i \<Rightarrow>
          if cv_fails env CallGet then internal_error
          else case GetProblemByID i d of
            Inl _ \<Rightarrow> internal_error
          | Inr None \<Rightarrow> Error 404 ''problem not found''
          | Inr (Some p) \<Rightarrow>
              if \<not> p_IsPublic p \<and> \<not> is_admin c then
                (case UserIDFromCtx c of
                   (uid, authed) \<Rightarrow>
                     if cv_fails env CallCanView then internal_error
                     else if \<not> CanNonAdminView (cv_db_now env) i uid authed d then Error 404 ''problem not found''
                     else Reply 200 (ProblemView p))
              else Reply 200 (ProblemView p))"

record create_problem_req =
  cpr_Title :: string
  cpr_Statement :: string
  cpr_TimeLimitMs :: int
  cpr_MemLimitKB :: int
  cpr_JudgeType :: JudgeType
  cpr_IsPublic :: bool

definition bind_problem :: "create_problem_req payload \<Rightarrow> create_problem_req option" where
  "bind_problem body = (case decode body of None \<Rightarrow> None | Some r \<Rightarrow> if cpr_Title r = [] then None else Some r)"

definition Problem_Create :: "crud_env \<Rightarrow> gin_ctx \<Rightarrow> create_problem_req payload \<Rightarrow> db \<Rightarrow> crud_body reply \<times> db" where
  "Problem_Create env c body d =
     (case bind_problem body of
        None \<Rightarrow> (Error 400 ''bad request'', d)
      | Some r \<Rightarrow>
          if cv_fails env CallCreateProblem then (internal_error, d)
          else case CreateProblem (cv_db_now env)
                 (new_problem c (cpr_Title r) (cpr_Statement r) (cpr_TimeLimitMs r) (cpr_MemLimitKB r) (cpr_JudgeType r) (cpr_IsPublic r)) d of
            (Inl _, _) \<Rightarrow> (internal_error, d)
          | (Inr p, d') \<Rightarrow> (Reply 201 (ProblemCreated p), d'))"

definition Problem_Update :: "crud_env \<Rightarrow> string \<Rightarrow> create_problem_req payload \<Rightarrow> db \<Rightarrow> crud_body reply \<times> db" where
  "Problem_Update env idParam body d =
     (case parse_id idParam of
        None \<Rightarrow> (Error 400 ''invalid problem id'', d)
      | Some i \<Rightarrow>
          (case bind_problem body of
             None \<Rightarrow> (Error 400 ''bad request'', d)
           | Some r \<Rightarrow>
               if cv_fails env CallUpdate then (internal_error, d)
               else case UpdateProblem (cv_db_now env)
                      ((new_problem no_auth (cpr_Title r) (cpr_Statement r) (cpr_TimeLimitMs r) (cpr_MemLimitKB r)
                          (cpr_JudgeType r) (cpr_IsPublic r))\<lparr>p_ID := i\<rparr>) d of
                 (Inl _, _) \<Rightarrow> (internal_error, d)
               | (Inr _, d') \<Rightarrow> (Reply 200 (ProblemUpdated i), d')))"

definition Problem_Delete :: "crud_env \<Rightarrow> string \<Rightarrow> db \<Rightarrow> crud_body reply \<times> db" where
  "Problem_Delete env idParam d =
     (case parse_id idParam of
        None \<Rightarrow> (Error 400 ''invalid problem id'', d)
      | Some i \<Rightarrow>
          if cv_fails env CallDelete then (internal_error, d)
          else case DeleteProblem i d of
            (Inl _, _) \<Rightarrow> (internal_error, d)
          | (Inr _, d') \<Rightarrow> (Reply 200 (Deleted i), d'))"

definition ListTestcases :: "crud_env \<Rightarrow> string \<Rightarrow> db \<Rightarrow> crud_body reply" where
  "ListTestcases env idParam d =
     (case parse_id idParam of
        None \<Rightarrow> Error 400 ''invalid problem id''
      | Some i \<Rightarrow>
          if cv_fails env CallCases then internal_error
          else Reply 200 (TestcasesView (GetTestCases i d) (int (length (GetTestCases i d)))))"

end
