(* ===== verification/Accounts.thy ===== *)
theory Accounts
  imports Http
begin

text \<open>
  Package \<open>api/handler\<close>, file \<open>auth.go\<close>: registration, login, the profile of the logged-in user and the
  password reset by a code sent to the account's email, with its keys in Redis.

  The hash functions, the token signer, the random number, the email validator and the mail server
  belong to libraries and are fields of the environment of a request. A Redis string has a value and an
  optional time of expiry. Commands whose result the code ignores change nothing when they fail.
\<close>

section \<open>Environment and state\<close>

datatype auth_call = GetByUsernameCall | GetByEmailCall | GetByLoginCall | GetByIDCall | CreateUserCall | UpdatePasswordCall
  | ExistsCall | SetCodeCall | SetCooldownCall | DelAttemptsCall | DelCodeCall | GetCodeCall | IncrCall | ExpireCall | DelAllCall

record auth_env =
  ae_now :: time
  ae_fails :: "auth_call \<Rightarrow> bool"
  ae_bcrypt_hash :: "string \<Rightarrow> string option"
  ae_bcrypt_ok :: "string \<Rightarrow> string \<Rightarrow> bool"
  ae_sha256 :: "string \<Rightarrow> string"
  ae_sign :: "claims \<Rightarrow> string option"
  ae_valid_email :: "string \<Rightarrow> bool"
  ae_rand :: "nat option"
  ae_send_ok :: bool
  ae_mail_enabled :: bool
  ae_app_name :: string

type_synonym redis_strings = "string \<rightharpoonup> string \<times> time option"

record auth_state =
  au_db :: db
  au_redis :: redis_strings
  au_mails :: "(string \<times> string) list"

datatype auth_body = LoggedIn string user | Profile user | CodeSent string bool | PasswordReset

definition rget :: "time \<Rightarrow> string \<Rightarrow> redis_strings \<Rightarrow> string option" where
  "rget now k r =
     (case r k of
        None \<Rightarrow> None
      | Some (v, None) \<Rightarrow> Some v
      | Some (v, Some ex) \<Rightarrow> if now < ex then Some v else None)"

definition rset :: "time \<Rightarrow> string \<Rightarrow> string \<Rightarrow> int \<Rightarrow> redis_strings \<Rightarrow> redis_strings" where
  "rset now k v ttl r = r(k \<mapsto> (v, Some (now + ttl)))"

definition rdel :: "string list \<Rightarrow> redis_strings \<Rightarrow> redis_strings" where
  "rdel ks r = (\<lambda>k. if k \<in> set ks then None else r k)"

text \<open>INCR creates a missing key with value 1 and no expiry, and keeps the expiry of an existing one.\<close>

definition rincr :: "time \<Rightarrow> string \<Rightarrow> redis_strings \<Rightarrow> int \<times> redis_strings" where
  "rincr now k r =
     (case rget now k r of
        None \<Rightarrow> (1, r(k \<mapsto> (''1'', None)))
      | Some v \<Rightarrow>
          (case parse_int v of
             None \<Rightarrow> (0, r)
           | Some n \<Rightarrow> (n + 1, r(k \<mapsto> (show_int (n + 1), snd (the (r k)))))))"

definition rexpire :: "time \<Rightarrow> string \<Rightarrow> int \<Rightarrow> redis_strings \<Rightarrow> redis_strings" where
  "rexpire now k ttl r = (case rget now k r of None \<Rightarrow> r | Some v \<Rightarrow> r(k \<mapsto> (v, Some (now + ttl))))"

definition resetCodeTTL :: int where "resetCodeTTL = 10 * minute_ns"
definition resetCooldown :: int where "resetCooldown = 60 * second_ns"
definition maxResetAttempts :: int where "maxResetAttempts = 5"

section \<open>Passwords and tokens\<close>

definition normalizeEmail :: "string \<Rightarrow> string" where
  "normalizeEmail email = ToLower (TrimSpace email)"

definition hashPassword :: "auth_env \<Rightarrow> string \<Rightarrow> string option" where
  "hashPassword env password = ae_bcrypt_hash env password"

definition hex_digit :: "char \<Rightarrow> nat option" where
  "hex_digit c =
     (let n = of_char c :: nat
      in if 48 \<le> n \<and> n \<le> 57 then Some (n - 48)
         else if 97 \<le> n \<and> n \<le> 102 then Some (n - 87)
         else if 65 \<le> n \<and> n \<le> 70 then Some (n - 55) else None)"

fun hex_decode :: "string \<Rightarrow> string option" where
  "hex_decode [] = Some []"
| "hex_decode [_] = None"
| "hex_decode (a # b # s) =
     (case (hex_digit a, hex_digit b, hex_decode s) of
        (Some x, Some y, Some r) \<Rightarrow> Some (char_of (16 * x + y) # r)
      | _ \<Rightarrow> None)"

definition hex_char :: "nat \<Rightarrow> char" where
  "hex_char n = char_of (if n < 10 then 48 + n else 87 + n)"

definition hex_encode :: "string \<Rightarrow> string" where
  "hex_encode s = concat (map (\<lambda>c. [hex_char (of_char c div 16), hex_char (of_char c mod 16)]) s)"

definition legacyCheck :: "auth_env \<Rightarrow> string \<Rightarrow> string \<Rightarrow> bool" where
  "legacyCheck env password stored =
     (let digest = takeWhile (\<lambda>c. c \<noteq> CHR '':'') stored
      in case drop (length digest) stored of
           [] \<Rightarrow> False
         | _ # hexsalt \<Rightarrow>
             (case hex_decode hexsalt of
                None \<Rightarrow> False
              | Some salt \<Rightarrow> hex_encode (ae_sha256 env (salt @ password)) = digest))"

definition checkPassword :: "auth_env \<Rightarrow> string \<Rightarrow> string \<Rightarrow> bool \<times> bool" where
  "checkPassword env password stored =
     (if HasPrefix stored ''$2'' then (ae_bcrypt_ok env stored password, False)
      else (legacyCheck env password stored, True))"

definition issueToken :: "auth_env \<Rightarrow> user \<Rightarrow> string option" where
  "issueToken env u = ae_sign env \<lparr>cl_UserID = u_ID u, cl_Role = u_Role u\<rparr>"

section \<open>Registration and login\<close>

record register_req =
  rq_Username :: string
  rq_Email :: string
  rq_Password :: string
  rq_Organization :: string

definition bind_register :: "auth_env \<Rightarrow> register_req payload \<Rightarrow> register_req option" where
  "bind_register env body =
     (case decode body of
        None \<Rightarrow> None
      | Some req \<Rightarrow>
          if 3 \<le> rune_count (rq_Username req) \<and> rune_count (rq_Username req) \<le> 32 \<and>
             (rq_Email req = [] \<or> ae_valid_email env (rq_Email req)) \<and>
             6 \<le> rune_count (rq_Password req) \<and> rune_count (rq_Password req) \<le> 72
          then Some req else None)"

text \<open>The email to store: none when blank, an error reply when it is taken.\<close>

definition register_email :: "auth_env \<Rightarrow> string \<Rightarrow> db \<Rightarrow> auth_body reply + string option" where
  "register_email env given d =
     (let email = normalizeEmail given
      in if email = [] then Inr None
         else if ae_fails env GetByEmailCall then Inl (Error 500 ''internal error'')
         else if GetByEmail email d \<noteq> None then Inl (Error 409 ''email already registered'')
         else Inr (Some email))"

definition AuthHandler_Register :: "auth_env \<Rightarrow> register_req payload \<Rightarrow> auth_state \<Rightarrow> auth_body reply \<times> auth_state" where
  "AuthHandler_Register env body st =
     (case bind_register env body of
        None \<Rightarrow> (Error 400 ''bad request'', st)
      | Some req \<Rightarrow>
          if ae_fails env GetByUsernameCall then (Error 500 ''internal error'', st)
          else if GetByUsername (rq_Username req) (au_db st) \<noteq> None then (Error 409 ''username already taken'', st)
          else case register_email env (rq_Email req) (au_db st) of
            Inl r \<Rightarrow> (r, st)
          | Inr email \<Rightarrow>
              (case hashPassword env (rq_Password req) of
                 None \<Rightarrow> (Error 500 ''internal error'', st)
               | Some hash \<Rightarrow>
                   if ae_fails env CreateUserCall then (Error 500 ''internal error'', st)
                   else case UserRepo_Create (ae_now env)
                          \<lparr>u_ID = 0, u_Username = rq_Username req, u_Email = email, u_PasswordHash = hash,
                           u_Role = RoleContestant, u_Organization = rq_Organization req, u_CreatedAt = 0,
                           u_UpdatedAt = 0\<rparr> (au_db st) of
                     (Inl _, _) \<Rightarrow> (Error 500 ''internal error'', st)
                   | (Inr u, d) \<Rightarrow>
                       let st = st\<lparr>au_db := d\<rparr>
                       in case issueToken env u of
                            None \<Rightarrow> (Error 500 ''internal error'', st)
                          | Some token \<Rightarrow> (Reply 201 (LoggedIn token u), st)))"

record login_req =
  lq_Username :: string
  lq_Password :: string

definition bind_login :: "login_req payload \<Rightarrow> login_req option" where
  "bind_login body =
     (case decode body of
        None \<Rightarrow> None
      | Some req \<Rightarrow> if lq_Username req \<noteq> [] \<and> lq_Password req \<noteq> [] then Some req else None)"

definition rehash :: "auth_env \<Rightarrow> string \<Rightarrow> user \<Rightarrow> db \<Rightarrow> db" where
  "rehash env password u d =
     (case hashPassword env password of
        None \<Rightarrow> d
      | Some hash \<Rightarrow> if ae_fails env UpdatePasswordCall then d else snd (UpdatePassword (ae_now env) (u_ID u) hash d))"

definition Login :: "auth_env \<Rightarrow> login_req payload \<Rightarrow> auth_state \<Rightarrow> auth_body reply \<times> auth_state" where
  "Login env body st =
     (case bind_login body of
        None \<Rightarrow> (Error 400 ''bad request'', st)
      | Some req \<Rightarrow>
          if ae_fails env GetByLoginCall then (Error 500 ''internal error'', st)
          else case GetByLogin (TrimSpace (lq_Username req)) (au_db st) of
            None \<Rightarrow> (Error 401 ''no such user'', st)
          | Some u \<Rightarrow>
              (case checkPassword env (lq_Password req) (u_PasswordHash u) of
                 (ok, needsRehash) \<Rightarrow>
                   if \<not> ok then (Error 401 ''wrong password'', st)
                   else
                     let st = (if needsRehash then st\<lparr>au_db := rehash env (lq_Password req) u (au_db st)\<rparr> else st)
                     in case issueToken env u of
                          None \<Rightarrow> (Error 500 ''internal error'', st)
                        | Some token \<Rightarrow> (Reply 200 (LoggedIn token u), st)))"

definition Me :: "auth_env \<Rightarrow> gin_ctx \<Rightarrow> auth_state \<Rightarrow> auth_body reply" where
  "Me env c st =
     (case UserIDFromCtx c of
        (_, False) \<Rightarrow> Error 401 ''not authenticated''
      | (uid, True) \<Rightarrow>
          if ae_fails env GetByIDCall then Error 500 ''internal error''
          else case UserRepo_GetByID uid (au_db st) of
            None \<Rightarrow> Error 500 ''internal error''
          | Some u \<Rightarrow> Reply 200 (Profile u))"

section \<open>Password reset\<close>

definition resetCodeKey :: "ID \<Rightarrow> string" where "resetCodeKey i = ''pwdreset:code:'' @ show_int i"
definition resetCooldownKey :: "ID \<Rightarrow> string" where "resetCooldownKey i = ''pwdreset:cd:'' @ show_int i"
definition resetAttemptsKey :: "ID \<Rightarrow> string" where "resetAttemptsKey i = ''pwdreset:attempts:'' @ show_int i"

definition genVerifyCode :: "auth_env \<Rightarrow> string option" where
  "genVerifyCode env = map_option (\<lambda>n. replicate (6 - length (show_nat n)) (CHR ''0'') @ show_nat n) (ae_rand env)"

definition maskEmail :: "string \<Rightarrow> string" where
  "maskEmail email =
     (let domain = rev (takeWhile (\<lambda>c. c \<noteq> CHR ''@'') (rev email));
          cut = length email - length domain
      in if cut \<le> 1 then ''***''
         else
           let local = take (cut - 1) email; domain = CHR ''@'' # domain
           in if length local \<le> 1 then local @ ''***'' @ domain
              else if length local \<le> 3 then take 1 local @ ''***'' @ domain
              else take 2 local @ ''***'' @ domain)"

definition unless_fails :: "auth_env \<Rightarrow> auth_call \<Rightarrow> (redis_strings \<Rightarrow> redis_strings) \<Rightarrow> redis_strings \<Rightarrow> redis_strings" where
  "unless_fails env call f r = (if ae_fails env call then r else f r)"

definition RequestPasswordReset :: "auth_env \<Rightarrow> string payload \<Rightarrow> auth_state \<Rightarrow> auth_body reply \<times> auth_state" where
  "RequestPasswordReset env body st =
     (case decode body of
        None \<Rightarrow> (Error 400 ''bad request'', st)
      | Some identifier \<Rightarrow>
          if identifier = [] then (Error 400 ''bad request'', st)
          else if ae_fails env GetByLoginCall then (Error 500 ''internal error'', st)
          else case GetByLogin (TrimSpace identifier) (au_db st) of
            None \<Rightarrow> (Error 404 ''no such account'', st)
          | Some u \<Rightarrow>
              (case u_Email u of
                 None \<Rightarrow> (Error 400 ''no email bound'', st)
               | Some email \<Rightarrow>
                   if email = [] then (Error 400 ''no email bound'', st)
                   else if \<not> ae_fails env ExistsCall \<and> rget (ae_now env) (resetCooldownKey (u_ID u)) (au_redis st) \<noteq> None
                   then (Error 429 ''too many requests'', st)
                   else case genVerifyCode env of
                     None \<Rightarrow> (Error 500 ''internal error'', st)
                   | Some code \<Rightarrow>
                       if ae_fails env SetCodeCall then (Error 500 ''internal error'', st)
                       else
                         let r = rset (ae_now env) (resetCodeKey (u_ID u)) code resetCodeTTL (au_redis st);
                             r = unless_fails env SetCooldownCall (rset (ae_now env) (resetCooldownKey (u_ID u)) ''1'' resetCooldown) r;
                             r = unless_fails env DelAttemptsCall (rdel [resetAttemptsKey (u_ID u)]) r
                         in if \<not> ae_send_ok env
                            then (Error 500 ''sending failed'',
                              st\<lparr>au_redis := unless_fails env DelCodeCall (rdel [resetCodeKey (u_ID u), resetCooldownKey (u_ID u)]) r\<rparr>)
                            else (Reply 200 (CodeSent (maskEmail email) (ae_mail_enabled env)),
                              st\<lparr>au_redis := r, au_mails := au_mails st @ [(email, code)]\<rparr>)))"

record reset_confirm_req =
  cq_Identifier :: string
  cq_Code :: string
  cq_NewPassword :: string

definition bind_confirm :: "reset_confirm_req payload \<Rightarrow> reset_confirm_req option" where
  "bind_confirm body =
     (case decode body of
        None \<Rightarrow> None
      | Some req \<Rightarrow>
          if cq_Identifier req \<noteq> [] \<and> cq_Code req \<noteq> [] \<and> 6 \<le> rune_count (cq_NewPassword req) \<and>
             rune_count (cq_NewPassword req) \<le> 72
          then Some req else None)"

text \<open>A wrong code: count it, and withdraw the code after too many.\<close>

definition wrong_code :: "auth_env \<Rightarrow> ID \<Rightarrow> auth_state \<Rightarrow> auth_body reply \<times> auth_state" where
  "wrong_code env uid st =
     (let (n, r) = (if ae_fails env IncrCall then (0, au_redis st) else rincr (ae_now env) (resetAttemptsKey uid) (au_redis st));
          r = unless_fails env ExpireCall (rexpire (ae_now env) (resetAttemptsKey uid) resetCodeTTL) r
      in if n \<ge> maxResetAttempts
         then (Error 400 ''too many wrong codes'', st\<lparr>au_redis := unless_fails env DelCodeCall (rdel [resetCodeKey uid]) r\<rparr>)
         else (Error 400 ''wrong code'', st\<lparr>au_redis := r\<rparr>))"

definition ConfirmPasswordReset :: "auth_env \<Rightarrow> reset_confirm_req payload \<Rightarrow> auth_state \<Rightarrow> auth_body reply \<times> auth_state" where
  "ConfirmPasswordReset env body st =
     (case bind_confirm body of
        None \<Rightarrow> (Error 400 ''bad request'', st)
      | Some req \<Rightarrow>
          if ae_fails env GetByLoginCall then (Error 500 ''internal error'', st)
          else case GetByLogin (TrimSpace (cq_Identifier req)) (au_db st) of
            None \<Rightarrow> (Error 400 ''no such account'', st)
          | Some u \<Rightarrow>
              if ae_fails env GetCodeCall then (Error 500 ''internal error'', st)
              else case rget (ae_now env) (resetCodeKey (u_ID u)) (au_redis st) of
                None \<Rightarrow> (Error 400 ''code expired or missing'', st)
              | Some stored \<Rightarrow>
                  if TrimSpace (cq_Code req) \<noteq> stored then wrong_code env (u_ID u) st
                  else case hashPassword env (cq_NewPassword req) of
                    None \<Rightarrow> (Error 500 ''internal error'', st)
                  | Some hash \<Rightarrow>
                      if ae_fails env UpdatePasswordCall then (Error 500 ''internal error'', st)
                      else case UpdatePassword (ae_now env) (u_ID u) hash (au_db st) of
                        (Inl _, _) \<Rightarrow> (Error 500 ''internal error'', st)
                      | (Inr _, d) \<Rightarrow> (Reply 200 PasswordReset,
                          st\<lparr>au_db := d, au_redis := unless_fails env DelAllCall
                            (rdel [resetCodeKey (u_ID u), resetAttemptsKey (u_ID u), resetCooldownKey (u_ID u)]) (au_redis st)\<rparr>))"

section \<open>Guessing a reset code\<close>

datatype auth_action = DoRegister "register_req payload" | DoLogin "login_req payload" | DoRequest "string payload"
  | DoConfirm "reset_confirm_req payload"

fun act :: "auth_env \<Rightarrow> auth_action \<Rightarrow> auth_state \<Rightarrow> auth_body reply \<times> auth_state" where
  "act env (DoRegister b) st = AuthHandler_Register env b st"
| "act env (DoLogin b) st = Login env b st"
| "act env (DoRequest b) st = RequestPasswordReset env b st"
| "act env (DoConfirm b) st = ConfirmPasswordReset env b st"

definition login_id :: "string \<Rightarrow> auth_state \<Rightarrow> ID option" where
  "login_id s st = map_option u_ID (GetByLogin (TrimSpace s) (au_db st))"

text \<open>Did the action issue a code for the user, and did it try a wrong one?\<close>

fun issues :: "ID \<Rightarrow> auth_action \<Rightarrow> auth_body reply \<Rightarrow> auth_state \<Rightarrow> bool" where
  "issues uid (DoRequest b) r st =
     (case decode b of
        None \<Rightarrow> False
      | Some identifier \<Rightarrow> login_id identifier st = Some uid \<and>
          (r = Error 500 ''sending failed'' \<or> (case r of Reply _ _ \<Rightarrow> True | _ \<Rightarrow> False)))"
| "issues uid _ r st = False"

fun wrong_guess :: "ID \<Rightarrow> auth_action \<Rightarrow> auth_body reply \<Rightarrow> auth_state \<Rightarrow> bool" where
  "wrong_guess uid (DoConfirm b) r st =
     (case decode b of
        None \<Rightarrow> False
      | Some req \<Rightarrow> login_id (cq_Identifier req) st = Some uid \<and>
          (r = Error 400 ''wrong code'' \<or> r = Error 400 ''too many wrong codes''))"
| "wrong_guess uid _ r st = False"

text \<open>The wrong guesses since the last code was issued, and the state at the end.\<close>

fun guess_run :: "ID \<Rightarrow> (auth_env \<times> auth_action) list \<Rightarrow> nat \<Rightarrow> auth_state \<Rightarrow> nat \<times> auth_state" where
  "guess_run uid [] k st = (k, st)"
| "guess_run uid ((env, a) # run) k st =
     (case act env a st of
        (r, st') \<Rightarrow> guess_run uid run (if issues uid a r st then 0 else if wrong_guess uid a r st then k + 1 else k) st')"

definition redis_healthy :: "auth_env \<Rightarrow> bool" where
  "redis_healthy env \<longleftrightarrow> \<not> ae_fails env IncrCall \<and> \<not> ae_fails env ExpireCall \<and> \<not> ae_fails env DelCodeCall \<and>
     \<not> ae_fails env DelAttemptsCall"

text \<open>
  While a code is stored, fewer than the maximum of wrong guesses were made, they are what the
  attempts key counts, and that key outlives the code.
\<close>

definition attempts_ok :: "ID \<Rightarrow> nat \<Rightarrow> time \<Rightarrow> redis_strings \<Rightarrow> bool" where
  "attempts_ok uid k ex r \<longleftrightarrow> k = 0 \<and> r (resetAttemptsKey uid) = None \<or>
     0 < k \<and> (\<exists>ex2. r (resetAttemptsKey uid) = Some (show_int (int k), Some ex2) \<and> ex \<le> ex2)"

definition reset_inv :: "ID \<Rightarrow> time \<Rightarrow> nat \<Rightarrow> redis_strings \<Rightarrow> bool" where
  "reset_inv uid t k r \<longleftrightarrow> r (resetCodeKey uid) = None \<and> int k \<le> maxResetAttempts \<or>
     (\<exists>c ex. r (resetCodeKey uid) = Some (c, Some ex) \<and> ex \<le> t + resetCodeTTL \<and> int k < maxResetAttempts \<and>
       attempts_ok uid k ex r)"

lemmas reset_keys = resetCodeKey_def resetCooldownKey_def resetAttemptsKey_def

lemma reset_keys_distinct [simp]:
  "resetCodeKey i \<noteq> resetAttemptsKey j" "resetAttemptsKey j \<noteq> resetCodeKey i"
  "resetCodeKey i \<noteq> resetCooldownKey j" "resetAttemptsKey i \<noteq> resetCooldownKey j"
  "resetCooldownKey j \<noteq> resetCodeKey i" "resetCooldownKey j \<noteq> resetAttemptsKey i"
  "resetCodeKey i = resetCodeKey j \<longleftrightarrow> i = j" "resetAttemptsKey i = resetAttemptsKey j \<longleftrightarrow> i = j"
  by (simp_all add: reset_keys)

lemma reset_inv_cong:
  "reset_inv uid t k r \<Longrightarrow> r' (resetCodeKey uid) = r (resetCodeKey uid) \<Longrightarrow> r' (resetAttemptsKey uid) = r (resetAttemptsKey uid) \<Longrightarrow>
   reset_inv uid t k r'"
  by (simp add: reset_inv_def attempts_ok_def)

lemma reset_inv_later: "reset_inv uid t k r \<Longrightarrow> t \<le> t' \<Longrightarrow> reset_inv uid t' k r"
  by (fastforce simp: reset_inv_def)

lemma reset_inv_bound: "reset_inv uid t k r \<Longrightarrow> int k \<le> maxResetAttempts"
  by (auto simp: reset_inv_def)

lemma reset_inv_gone: "reset_inv uid t k r \<Longrightarrow> int k = maxResetAttempts \<Longrightarrow> r (resetCodeKey uid) = None"
  by (auto simp: reset_inv_def)

lemma reset_inv_no_code: "int k \<le> maxResetAttempts \<Longrightarrow> r (resetCodeKey uid) = None \<Longrightarrow> reset_inv uid t k r"
  by (simp add: reset_inv_def)

lemma redis_frame [simp]:
  "k \<noteq> j \<Longrightarrow> snd (rincr now j r) k = r k" "k \<noteq> j \<Longrightarrow> rexpire now j ttl r k = r k" "k \<notin> set ks \<Longrightarrow> rdel ks r k = r k"
  "k \<in> set ks \<Longrightarrow> rdel ks r k = None" "k \<noteq> j \<Longrightarrow> rset now j v ttl r k = r k" "rset now j v ttl r j = Some (v, Some (now + ttl))"
  by (auto simp: rincr_def rexpire_def rdel_def rset_def split: option.split)

lemma incr_expire:
  assumes "attempts_ok uid k ex r" and "now < ex" and "int k < maxResetAttempts"
  shows "fst (rincr now (resetAttemptsKey uid) r) = int k + 1"
    and "rexpire now (resetAttemptsKey uid) resetCodeTTL (snd (rincr now (resetAttemptsKey uid) r)) (resetAttemptsKey uid) =
      Some (show_int (int k + 1), Some (now + resetCodeTTL))"
proof -
  have ttl: "0 < resetCodeTTL" by (simp add: resetCodeTTL_def minute_ns_def second_ns_def)
  have one: "show_int 1 = ''1''" by code_simp
  have "int64_range (int k)" using assms(3) by (simp add: maxResetAttempts_def)
  then have parse: "parse_int (show_int (int k)) = Some (int k)" by (rule parse_show_int)
  show "fst (rincr now (resetAttemptsKey uid) r) = int k + 1"
    using assms parse by (auto simp: attempts_ok_def rincr_def rget_def)
  show "rexpire now (resetAttemptsKey uid) resetCodeTTL (snd (rincr now (resetAttemptsKey uid) r)) (resetAttemptsKey uid) =
      Some (show_int (int k + 1), Some (now + resetCodeTTL))"
    using assms parse one ttl by (auto simp: attempts_ok_def rincr_def rexpire_def rget_def)
qed

lemma wrong_code_own:
  assumes "redis_healthy env" and "reset_inv uid t k (au_redis st)" and "t \<le> ae_now env"
    and "rget (ae_now env) (resetCodeKey uid) (au_redis st) \<noteq> None"
  shows "reset_inv uid (ae_now env) (k + 1) (au_redis (snd (wrong_code env uid st)))"
proof -
  let ?r = "au_redis st"
  let ?r1 = "rexpire (ae_now env) (resetAttemptsKey uid) resetCodeTTL (snd (rincr (ae_now env) (resetAttemptsKey uid) ?r))"
  obtain c ex where code: "?r (resetCodeKey uid) = Some (c, Some ex)"
    and inv: "ex \<le> t + resetCodeTTL" "int k < maxResetAttempts" "attempts_ok uid k ex ?r"
    using assms(2,4) by (auto simp: reset_inv_def rget_def)
  have lt: "ae_now env < ex" using assms(4) by (simp add: rget_def code split: if_splits)
  note ie = incr_expire [OF inv(3) lt inv(2)]
  have run: "wrong_code env uid st = (if int k + 1 \<ge> maxResetAttempts
      then (Error 400 ''too many wrong codes'', st\<lparr>au_redis := rdel [resetCodeKey uid] ?r1\<rparr>)
      else (Error 400 ''wrong code'', st\<lparr>au_redis := ?r1\<rparr>))"
    using assms(1) ie(1) by (simp add: wrong_code_def redis_healthy_def unless_fails_def Let_def case_prod_beta)
  show ?thesis
  proof (cases "int k + 1 \<ge> maxResetAttempts")
    case True
    then show ?thesis using inv(2) by (simp add: run reset_inv_no_code)
  next
    case False
    have "?r1 (resetCodeKey uid) = Some (c, Some ex)" using code by simp
    moreover have "attempts_ok uid (k + 1) ex ?r1"
      using ie(2) inv(1) assms(3) by (simp add: attempts_ok_def add.commute)
    ultimately show ?thesis using False inv assms(3) by (auto simp: run reset_inv_def add.commute)
  qed
qed

lemma wrong_code_frame:
  assumes "k \<noteq> resetAttemptsKey uid" and "k \<noteq> resetCodeKey uid"
  shows "au_redis (snd (wrong_code env uid st)) k = au_redis st k"
  using assms by (simp add: wrong_code_def unless_fails_def Let_def case_prod_beta)

lemma wrong_code_reply: "fst (wrong_code env uid st) \<in> {Error 400 ''wrong code'', Error 400 ''too many wrong codes''}"
  by (simp add: wrong_code_def Let_def case_prod_beta)

lemma confirm_cases:
  assumes "ConfirmPasswordReset env body st = (r, st')"
  obtains "au_redis st' = au_redis st" "r \<noteq> Error 400 ''wrong code''" "r \<noteq> Error 400 ''too many wrong codes''"
  | req u where "decode body = Some req" "GetByLogin (TrimSpace (cq_Identifier req)) (au_db st) = Some u"
      "rget (ae_now env) (resetCodeKey (u_ID u)) (au_redis st) \<noteq> None" "wrong_code env (u_ID u) st = (r, st')"
  | i where "r = Reply 200 PasswordReset" "au_redis st' = unless_fails env DelAllCall
      (rdel [resetCodeKey i, resetAttemptsKey i, resetCooldownKey i]) (au_redis st)"
proof -
  have bind: "decode body = Some req" if "bind_confirm body = Some req" for req
    using that by (auto simp: bind_confirm_def split: option.splits if_splits)
  show thesis
    using assms that bind unfolding ConfirmPasswordReset_def
    by (auto split: option.splits if_splits prod.splits sum.splits)
qed

lemma confirm_step:
  assumes "redis_healthy env" and "reset_inv uid t k (au_redis st)" and "t \<le> ae_now env"
    and "ConfirmPasswordReset env body st = (r, st')"
  shows "reset_inv uid (ae_now env) (if wrong_guess uid (DoConfirm body) r st then k + 1 else k) (au_redis st')"
proof -
  have later: "reset_inv uid (ae_now env) k (au_redis st)" by (rule reset_inv_later [OF assms(2,3)])
  from assms(4) show ?thesis
  proof (cases rule: confirm_cases)
    case 1
    then show ?thesis using later by (simp split: option.split)
  next
    case (2 req u)
    have id: "login_id (cq_Identifier req) st = Some (u_ID u)" by (simp add: login_id_def 2(2))
    have guess: "wrong_guess uid (DoConfirm body) r st \<longleftrightarrow> u_ID u = uid"
      using wrong_code_reply [of env "u_ID u" st] 2(1,4) id by auto
    have st': "st' = snd (wrong_code env (u_ID u) st)" using 2(4) by simp
    show ?thesis
    proof (cases "u_ID u = uid")
      case True
      then show ?thesis using wrong_code_own [OF assms(1-3)] 2(3) guess st' by simp
    next
      case False
      have "reset_inv uid (ae_now env) k (au_redis st')"
        unfolding st' by (rule reset_inv_cong [OF later]) (use False in \<open>simp_all add: wrong_code_frame\<close>)
      then show ?thesis using guess False by simp
    qed
  next
    case (3 i)
    have "\<not> wrong_guess uid (DoConfirm body) r st" using 3(1) by (simp split: option.split)
    moreover have "reset_inv uid (ae_now env) k (au_redis st')"
    proof (cases "ae_fails env DelAllCall \<or> i \<noteq> uid")
      case True
      then show ?thesis by (intro reset_inv_cong [OF later]) (auto simp: 3(2) unless_fails_def rdel_def)
    next
      case False
      then show ?thesis using reset_inv_bound [OF later] by (intro reset_inv_no_code) (simp_all add: 3(2) unless_fails_def)
    qed
    ultimately show ?thesis by simp
  qed
qed

text \<open>The Redis strings after a code for a user was stored.\<close>

definition code_stored :: "auth_env \<Rightarrow> ID \<Rightarrow> string \<Rightarrow> redis_strings \<Rightarrow> redis_strings" where
  "code_stored env uid code r =
     unless_fails env DelAttemptsCall (rdel [resetAttemptsKey uid])
       (unless_fails env SetCooldownCall (rset (ae_now env) (resetCooldownKey uid) ''1'' resetCooldown)
         (rset (ae_now env) (resetCodeKey uid) code resetCodeTTL r))"

lemma request_cases:
  assumes "RequestPasswordReset env body st = (r, st')"
  obtains "au_redis st' = au_redis st" "r \<noteq> Error 500 ''sending failed''" "\<And>n b. r \<noteq> Reply n b"
  | ident u code where "decode body = Some ident" "GetByLogin (TrimSpace ident) (au_db st) = Some u"
      "r = Error 500 ''sending failed'' \<and> au_redis st' = unless_fails env DelCodeCall
         (rdel [resetCodeKey (u_ID u), resetCooldownKey (u_ID u)]) (code_stored env (u_ID u) code (au_redis st)) \<or>
       (\<exists>b. r = Reply 200 b) \<and> au_redis st' = code_stored env (u_ID u) code (au_redis st)"
  using assms that unfolding RequestPasswordReset_def code_stored_def
  by (auto simp: Let_def split: option.splits if_splits)

lemma code_stored_keys:
  "redis_healthy env \<Longrightarrow> code_stored env uid code r (resetCodeKey uid) = Some (code, Some (ae_now env + resetCodeTTL))"
  "redis_healthy env \<Longrightarrow> code_stored env uid code r (resetAttemptsKey uid) = None"
  "i \<noteq> uid \<Longrightarrow> code_stored env uid code r (resetCodeKey i) = r (resetCodeKey i)"
  "i \<noteq> uid \<Longrightarrow> code_stored env uid code r (resetAttemptsKey i) = r (resetAttemptsKey i)"
  by (simp_all add: code_stored_def unless_fails_def redis_healthy_def)

lemma request_step:
  assumes "redis_healthy env" and "reset_inv uid t k (au_redis st)" and "t \<le> ae_now env"
    and "RequestPasswordReset env body st = (r, st')"
  shows "reset_inv uid (ae_now env) (if issues uid (DoRequest body) r st then 0 else k) (au_redis st')"
proof -
  have later: "reset_inv uid (ae_now env) k (au_redis st)" by (rule reset_inv_later [OF assms(2,3)])
  have max: "0 < maxResetAttempts" by (simp add: maxResetAttempts_def)
  from assms(4) show ?thesis
  proof (cases rule: request_cases)
    case 1
    then have "\<not> issues uid (DoRequest body) r st" by (auto split: option.split reply.split)
    then show ?thesis using later 1(1) by simp
  next
    case (2 ident u code)
    have id: "login_id ident st = Some (u_ID u)" by (simp add: login_id_def 2(2))
    have iss: "issues uid (DoRequest body) r st \<longleftrightarrow> u_ID u = uid" using 2(1,3) id by auto
    show ?thesis
    proof (cases "u_ID u = uid")
      case False
      have "au_redis st' (resetCodeKey uid) = au_redis st (resetCodeKey uid)"
        "au_redis st' (resetAttemptsKey uid) = au_redis st (resetAttemptsKey uid)"
        using 2(3) False by (auto simp: unless_fails_def code_stored_keys)
      from reset_inv_cong [OF later this] show ?thesis using iss False by simp
    next
      case True
      from 2(3) show ?thesis
      proof
        assume "r = Error 500 ''sending failed'' \<and> au_redis st' = unless_fails env DelCodeCall
          (rdel [resetCodeKey (u_ID u), resetCooldownKey (u_ID u)]) (code_stored env (u_ID u) code (au_redis st))"
        then have "au_redis st' (resetCodeKey uid) = None"
          using assms(1) True by (simp add: redis_healthy_def unless_fails_def)
        then show ?thesis using iss True max by (simp add: reset_inv_no_code)
      next
        assume "(\<exists>b. r = Reply 200 b) \<and> au_redis st' = code_stored env (u_ID u) code (au_redis st)"
        then show ?thesis
          using iss True assms(1) max by (simp add: reset_inv_def attempts_ok_def code_stored_keys)
      qed
    qed
  qed
qed

lemma other_step:
  "AuthHandler_Register env b st = (r, st') \<Longrightarrow> au_redis st' = au_redis st"
  "Login env b' st = (r, st') \<Longrightarrow> au_redis st' = au_redis st"
  by (auto simp: AuthHandler_Register_def Login_def Let_def split: option.splits if_splits sum.splits prod.splits)

lemma act_step:
  assumes "redis_healthy env" and "reset_inv uid t k (au_redis st)" and "t \<le> ae_now env" and "act env a st = (r, st')"
  shows "reset_inv uid (ae_now env) (if issues uid a r st then 0 else if wrong_guess uid a r st then k + 1 else k) (au_redis st')"
proof (cases a)
  case (DoRequest b)
  then have "RequestPasswordReset env b st = (r, st')" using assms(4) by simp
  from request_step [OF assms(1-3) this] show ?thesis unfolding DoRequest by (simp only: wrong_guess.simps if_False)
next
  case (DoConfirm b)
  then show ?thesis using confirm_step [OF assms(1-3)] assms(4) by (simp del: wrong_guess.simps(1))
qed (use assms other_step reset_inv_later in \<open>auto\<close>)

lemma run_inv:
  assumes "list_all (\<lambda>(env, _). redis_healthy env) run" and "sorted (t # map (\<lambda>(env, _). ae_now env) run)"
    and "reset_inv uid t k (au_redis st)"
  shows "case guess_run uid run k st of (n, st') \<Rightarrow> \<exists>t'. reset_inv uid t' n (au_redis st')"
  using assms
proof (induction run arbitrary: t k st)
  case Nil
  then show ?case by auto
next
  case (Cons x run)
  obtain env a where x: "x = (env, a)" by fastforce
  obtain r st' where step: "act env a st = (r, st')" by fastforce
  have "reset_inv uid (ae_now env) (if issues uid a r st then 0 else if wrong_guess uid a r st then k + 1 else k) (au_redis st')"
    using act_step [OF _ Cons.prems(3) _ step] Cons.prems(1,2) x by simp
  moreover have "sorted (ae_now env # map (\<lambda>(env, _). ae_now env) run)" using Cons.prems(2) x by simp
  ultimately show ?case
    unfolding x guess_run.simps step prod.case using Cons.prems(1) by (intro Cons.IH) simp_all
qed


text \<open>User 1 asks for a code, code 000042 is mailed, and five wrong codes are tried.\<close>

definition auth_env0 :: "time \<Rightarrow> auth_env" where
  "auth_env0 t = \<lparr>ae_now = t, ae_fails = (\<lambda>_. False), ae_bcrypt_hash = (\<lambda>p. Some (''$2'' @ p)),
     ae_bcrypt_ok = (\<lambda>h p. h = ''$2'' @ p), ae_sha256 = (\<lambda>s. s), ae_sign = (\<lambda>cl. Some (show_int (cl_UserID cl))),
     ae_valid_email = (\<lambda>_. True), ae_rand = Some 42, ae_send_ok = True, ae_mail_enabled = True, ae_app_name = ''OJ''\<rparr>"

definition auth_state0 :: auth_state where
  "auth_state0 = \<lparr>au_db = empty_db\<lparr>db_users := [(sample_user ''ann'')\<lparr>u_ID := 1, u_Email := Some ''ann@x''\<rparr>], db_seq := 2\<rparr>,
     au_redis = Map.empty, au_mails = []\<rparr>"

definition guesses0 :: "(auth_env \<times> auth_action) list" where
  "guesses0 = (auth_env0 100, DoRequest (Encoded ''ann'')) #
     map (\<lambda>t. (auth_env0 t, DoConfirm (Encoded \<lparr>cq_Identifier = ''ann@x'', cq_Code = ''000041'', cq_NewPassword = ''secret1''\<rparr>)))
       [101, 102, 103, 104, 105]"

lemma guesses0_count: "fst (guess_run 1 guesses0 0 auth_state0) = 5"
  by code_simp


end
