(* ===== verification/User_Api.thy ===== *)
theory User_Api
  imports Accounts
begin

text \<open>
  Package \<open>api/handler\<close>, file \<open>user.go\<close>: public profiles, editing one's own profile and password, binding
  an email, submission and contest histories, and the administrators' listings. The pattern search
  of users is PostgreSQL's \<open>ILIKE\<close> and a parameter, as is the address parser.
\<close>

section \<open>Environment and replies\<close>

datatype user_call = UCallGetByID | UCallStats | UCallUpdateProfile | UCallGetByEmail | UCallBindEmail | UCallUpdatePassword
  | UCallListAll | UCallContests | UCallSearch

record user_env =
  uv_auth :: auth_env
  uv_valid_address :: "string \<Rightarrow> bool"
  uv_search :: "string \<Rightarrow> int \<Rightarrow> int \<Rightarrow> db \<Rightarrow> (user list \<times> int) dbres"
  uv_fails :: "user_call \<Rightarrow> bool"

text \<open>A profile as it is sent; the outer option of the email tells whether the field is present.\<close>

record profile_view =
  pv_id :: ID
  pv_username :: string
  pv_role :: UserRole
  pv_organization :: string
  pv_created_at :: time
  pv_email :: "string option option"

datatype user_body =
    ProfileView profile_view user_stats
  | ProfileUpdated string "string option"
  | PasswordUpdated
  | SubmissionPage "submission_list_item list" int int int
  | ContestsView "contest list"
  | UserPage "user list" int int int

section \<open>Profiles\<close>

definition GetProfile :: "user_env \<Rightarrow> gin_ctx \<Rightarrow> string \<Rightarrow> db \<Rightarrow> user_body reply" where
  "GetProfile env c idParam d =
     (case parse_id idParam of
        None \<Rightarrow> Error 400 ''invalid user id''
      | Some i \<Rightarrow>
          if uv_fails env UCallGetByID then Error 500 ''internal error''
          else case UserRepo_GetByID i d of
            None \<Rightarrow> Error 404 ''user not found''
          | Some u \<Rightarrow>
              if uv_fails env UCallStats then Error 500 ''internal error''
              else Reply 200 (ProfileView
                \<lparr>pv_id = u_ID u, pv_username = u_Username u, pv_role = u_Role u, pv_organization = u_Organization u,
                 pv_created_at = u_CreatedAt u,
                 pv_email = (if fst (UserIDFromCtx c) = i \<or> is_admin c then Some (u_Email u) else None)\<rparr>
                (UserStats i d)))"

text \<open>Binding an email: an error reply, or the database afterwards.\<close>

definition bindEmail :: "user_env \<Rightarrow> ID \<Rightarrow> string \<Rightarrow> db \<Rightarrow> user_body reply + db" where
  "bindEmail env uid email d =
     (if \<not> uv_valid_address env email then Inl (Error 400 ''malformed email'')
      else if uv_fails env UCallGetByID then Inl (Error 500 ''internal error'')
      else case UserRepo_GetByID uid d of
        None \<Rightarrow> Inl (Error 500 ''internal error'')
      | Some me \<Rightarrow>
          (case u_Email me of
             Some e \<Rightarrow> if normalizeEmail e = email then Inr d else Inl (Error 400 ''email already bound'')
           | None \<Rightarrow>
               if uv_fails env UCallGetByEmail then Inl (Error 500 ''internal error'')
               else if (case GetByEmail email d of None \<Rightarrow> False | Some taken \<Rightarrow> u_ID taken \<noteq> uid) then Inl (Error 409 ''email taken'')
               else if uv_fails env UCallBindEmail then Inl (Error 500 ''internal error'')
               else case BindEmail (ae_now (uv_auth env)) uid email d of
                 (Inl ErrEmailTaken, _) \<Rightarrow> Inl (Error 409 ''email taken'')
               | (Inl ErrEmailAlreadyBound, _) \<Rightarrow> Inl (Error 400 ''email already bound'')
               | (Inl _, _) \<Rightarrow> Inl (Error 500 ''internal error'')
               | (Inr _, d') \<Rightarrow> Inr d'))"

record update_profile_req =
  upr_Organization :: string
  upr_Email :: "string option"

definition maybe_bind :: "user_env \<Rightarrow> ID \<Rightarrow> string option \<Rightarrow> db \<Rightarrow> user_body reply + db" where
  "maybe_bind env uid given d =
     (case given of
        None \<Rightarrow> Inr d
      | Some e \<Rightarrow> if normalizeEmail e = [] then Inr d else bindEmail env uid (normalizeEmail e) d)"

definition UpdateMe :: "user_env \<Rightarrow> gin_ctx \<Rightarrow> update_profile_req payload \<Rightarrow> db \<Rightarrow> user_body reply \<times> db" where
  "UpdateMe env c body d =
     (case mustUserID c of
        None \<Rightarrow> (Error 401 ''unauthenticated'', d)
      | Some uid \<Rightarrow>
          (case decode body of
             None \<Rightarrow> (Error 400 ''bad request'', d)
           | Some req \<Rightarrow>
               if 100 < rune_count (upr_Organization req) then (Error 400 ''organization too long'', d)
               else case maybe_bind env uid (upr_Email req) d of
                 Inl r \<Rightarrow> (r, d)
               | Inr d \<Rightarrow>
                   if uv_fails env UCallUpdateProfile then (Error 500 ''internal error'', d)
                   else case UpdateProfile (ae_now (uv_auth env)) uid (TrimSpace (upr_Organization req)) d of
                     (Inl _, _) \<Rightarrow> (Error 500 ''internal error'', d)
                   | (Inr _, d) \<Rightarrow>
                       if uv_fails env UCallGetByID then (Error 500 ''internal error'', d)
                       else case UserRepo_GetByID uid d of
                         None \<Rightarrow> (Error 500 ''internal error'', d)
                       | Some u \<Rightarrow> (Reply 200 (ProfileUpdated (TrimSpace (upr_Organization req)) (u_Email u)), d)))"

record change_password_req =
  chr_OldPassword :: string
  chr_NewPassword :: string

definition bind_change :: "change_password_req payload \<Rightarrow> change_password_req option" where
  "bind_change body =
     (case decode body of
        None \<Rightarrow> None
      | Some r \<Rightarrow> if chr_OldPassword r \<noteq> [] \<and> 6 \<le> rune_count (chr_NewPassword r) \<and> rune_count (chr_NewPassword r) \<le> 72
                  then Some r else None)"

definition ChangePassword :: "user_env \<Rightarrow> gin_ctx \<Rightarrow> change_password_req payload \<Rightarrow> db \<Rightarrow> user_body reply \<times> db" where
  "ChangePassword env c body d =
     (case mustUserID c of
        None \<Rightarrow> (Error 401 ''unauthenticated'', d)
      | Some uid \<Rightarrow>
          (case bind_change body of
             None \<Rightarrow> (Error 400 ''bad request'', d)
           | Some req \<Rightarrow>
               if uv_fails env UCallGetByID then (Error 500 ''internal error'', d)
               else case UserRepo_GetByID uid d of
                 None \<Rightarrow> (Error 500 ''internal error'', d)
               | Some u \<Rightarrow>
                   if \<not> fst (checkPassword (uv_auth env) (chr_OldPassword req) (u_PasswordHash u))
                   then (Error 400 ''wrong current password'', d)
                   else if chr_NewPassword req = chr_OldPassword req then (Error 400 ''new password equals the old one'', d)
                   else case hashPassword (uv_auth env) (chr_NewPassword req) of
                     None \<Rightarrow> (Error 500 ''internal error'', d)
                   | Some hash \<Rightarrow>
                       if uv_fails env UCallUpdatePassword then (Error 500 ''internal error'', d)
                       else case UpdatePassword (ae_now (uv_auth env)) uid hash d of
                         (Inl _, _) \<Rightarrow> (Error 500 ''internal error'', d)
                       | (Inr _, d') \<Rightarrow> (Reply 200 PasswordUpdated, d')))"

section \<open>Histories and listings\<close>

definition submission_page :: "user_env \<Rightarrow> submission_filter \<Rightarrow> string \<Rightarrow> string \<Rightarrow> db \<Rightarrow> user_body reply" where
  "submission_page env f pageQ sizeQ d =
     (case parsePageSize pageQ sizeQ of
        (page, n) \<Rightarrow>
          if uv_fails env UCallListAll then Error 500 ''internal error''
          else case ListAll f n (page_offset page n) d of
            Inl _ \<Rightarrow> Error 500 ''internal error''
          | Inr (items, cnt) \<Rightarrow> Reply 200 (SubmissionPage items cnt page n))"

definition User_ListSubmissions :: "user_env \<Rightarrow> string \<Rightarrow> string \<Rightarrow> string \<Rightarrow> db \<Rightarrow> user_body reply" where
  "User_ListSubmissions env idParam pageQ sizeQ d =
     (case parse_id idParam of
        None \<Rightarrow> Error 400 ''invalid user id''
      | Some i \<Rightarrow> submission_page env
          \<lparr>sf_UserID = Some i, sf_ProblemID = None, sf_ContestID = None, sf_Status = None\<rparr> pageQ sizeQ d)"

definition User_ListContests :: "user_env \<Rightarrow> string \<Rightarrow> db \<Rightarrow> user_body reply" where
  "User_ListContests env idParam d =
     (case parse_id idParam of
        None \<Rightarrow> Error 400 ''invalid user id''
      | Some i \<Rightarrow>
          if uv_fails env UCallContests then Error 500 ''internal error''
          else Reply 200 (ContestsView (ListByParticipant (ae_now (uv_auth env)) i d)))"

definition AdminSearchUsers :: "user_env \<Rightarrow> string \<Rightarrow> string \<Rightarrow> string \<Rightarrow> db \<Rightarrow> user_body reply" where
  "AdminSearchUsers env q pageQ sizeQ d =
     (case parsePageSize pageQ sizeQ of
        (page, n) \<Rightarrow>
          if uv_fails env UCallSearch then Error 500 ''internal error''
          else case uv_search env q n (page_offset page n) d of
            Inl _ \<Rightarrow> Error 500 ''internal error''
          | Inr (us, cnt) \<Rightarrow> Reply 200 (UserPage us cnt page n))"

text \<open>A filter value that does not parse as a positive number is ignored; an empty status is none.\<close>

definition AdminListSubmissions ::
  "user_env \<Rightarrow> string \<Rightarrow> string \<Rightarrow> string \<Rightarrow> SubmissionStatus option \<Rightarrow> string \<Rightarrow> string \<Rightarrow> db \<Rightarrow> user_body reply" where
  "AdminListSubmissions env userQ problemQ contestQ statusQ pageQ sizeQ d =
     submission_page env \<lparr>sf_UserID = parse_id userQ, sf_ProblemID = parse_id problemQ, sf_ContestID = parse_id contestQ,
       sf_Status = statusQ\<rparr> pageQ sizeQ d"

section \<open>Privacy of email addresses\<close>

text \<open>Somebody else's profile is the same whatever the email is.\<close>

lemma profile_hides_email:
  assumes "\<not> is_admin c" and "parse_id idParam = Some i" and "gc_user_id c \<noteq> Some i"
  shows "GetProfile env c idParam (d\<lparr>db_users := map (\<lambda>u. if u_ID u = i then u\<lparr>u_Email := e\<rparr> else u) (db_users d)\<rparr>) =
    GetProfile env c idParam d"
proof -
  have "0 < i" using assms(2) by (auto simp: parse_id_def split: option.splits if_splits)
  then have other: "fst (UserIDFromCtx c) \<noteq> i" using assms(3) by (auto simp: UserIDFromCtx_def split: option.split)
  have found: "find (\<lambda>u. u_ID u = i) (map (\<lambda>u. if u_ID u = i then u\<lparr>u_Email := e\<rparr> else u) us) =
    map_option (\<lambda>u. u\<lparr>u_Email := e\<rparr>) (find (\<lambda>u. u_ID u = i) us)" for us
    by (induction us) auto
  show ?thesis
    using assms(1,2) other
    by (simp add: GetProfile_def UserRepo_GetByID_def found UserStats_def Let_def split: option.split)
qed

text \<open>A password changes only for a user who gave the current one.\<close>

lemma change_password_checks:
  assumes "ChangePassword env c body d = (r, d')" and "d' \<noteq> d"
  shows "\<exists>uid req u. mustUserID c = Some uid \<and> decode body = Some req \<and> UserRepo_GetByID uid d = Some u \<and>
    fst (checkPassword (uv_auth env) (chr_OldPassword req) (u_PasswordHash u)) \<and>
    (\<exists>hash. ae_bcrypt_hash (uv_auth env) (chr_NewPassword req) = Some hash \<and>
       d' = d\<lparr>db_users := map (\<lambda>u. if u_ID u = uid then u\<lparr>u_PasswordHash := hash, u_UpdatedAt := ae_now (uv_auth env)\<rparr> else u) (db_users d)\<rparr>)"
  using assms
  by (auto simp: ChangePassword_def bind_change_def UpdatePassword_def hashPassword_def
      split: option.splits if_splits sum.splits)

end
