(* ===== verification/Server.thy ===== *)
theory Server
  imports Admin Resolver Submission Contest_Api User_Api
begin

text \<open>
  Package \<open>api\<close>, file \<open>server.go\<close>: the route table of the REST interface with the middleware in
  front of each handler, and the snapshot endpoint of \<open>handler/ranking.go\<close>. A request names its
  route with the path parameters, query values and body the handler reads; matching URL paths is the
  router library's work. The WebSocket route is the subject of theory \<open>Hub\<close>.
\<close>

section \<open>State, requests and replies\<close>

record server_state =
  sv_db :: db
  sv_objects :: "string \<rightharpoonup> string"
  sv_zips :: "string \<rightharpoonup> string"
  sv_tasks :: "task_message list"
  sv_redis :: redis_strings
  sv_mails :: "(string \<times> string) list"
  sv_ranking :: ranking_state

record server_env =
  ve_parse :: token_parser
  ve_auth :: auth_env
  ve_user :: user_env
  ve_crud :: crud_env
  ve_sub :: sub_env
  ve_upload :: upload_env
  ve_rank :: ranking_env
  ve_resolver :: resolver_env
  ve_snapshot_fails :: bool

datatype request =
    PostRegister "register_req payload" | PostLogin "login_req payload"
  | PostResetRequest "string payload" | PostResetConfirm "reset_confirm_req payload" | GetMe
  | GetProblemList string string | GetProblem string
  | GetContestList string string | GetContest string | GetContestProblems string | GetRanking string
  | GetUser string | GetUserSubmissions string string string | GetUserContests string | GetSubmissionDetail string
  | GetSource string | PutMe "update_profile_req payload" | PutPassword "change_password_req payload"
  | PostContestRegister string | PostContestSubmission string "submit_request payload" | PostSubmission "submit_request payload"
  | AdminPostTestcases string | AdminGetTestcases string | AdminPostProblem "create_problem_req payload"
  | AdminPutProblem string "create_problem_req payload" | AdminDeleteProblem string
  | AdminPostContest "create_contest_req payload" | AdminDeleteContest string
  | AdminPostContestProblem string "add_problem_req payload" | AdminDeleteContestProblem string string
  | AdminGetUsers string string string | AdminGetSubmissions string string string "SubmissionStatus option" string string
  | AdminGetFeed string | AdminPostReveal string | AdminPostJudge string

datatype body =
    AuthBody auth_body | CrudBody crud_body | UserBody user_body | SubBody sub_body | UploadBody upload_body
  | RevealBody reveal_body | FeedBody feed_file | BoardBody board_snapshot

fun map_reply :: "('a \<Rightarrow> 'b) \<Rightarrow> 'a reply \<Rightarrow> 'b reply" where
  "map_reply f (Error n e) = Error n e"
| "map_reply f (Reply n b) = Reply n (f b)"

section \<open>Handlers on the server's state\<close>

definition on_auth :: "(auth_state \<Rightarrow> auth_body reply \<times> auth_state) \<Rightarrow> server_state \<Rightarrow> body reply \<times> server_state" where
  "on_auth h st =
     (case h \<lparr>au_db = sv_db st, au_redis = sv_redis st, au_mails = sv_mails st\<rparr> of
        (r, a) \<Rightarrow> (map_reply AuthBody r, st\<lparr>sv_db := au_db a, sv_redis := au_redis a, sv_mails := au_mails a\<rparr>))"

definition on_sub :: "(api_state \<Rightarrow> sub_body reply \<times> api_state) \<Rightarrow> server_state \<Rightarrow> body reply \<times> server_state" where
  "on_sub h st =
     (case h \<lparr>as_db = sv_db st, as_objects = sv_objects st, as_tasks = sv_tasks st\<rparr> of
        (r, a) \<Rightarrow> (map_reply SubBody r, st\<lparr>sv_db := as_db a, sv_objects := as_objects a, sv_tasks := as_tasks a\<rparr>))"

definition on_upload :: "(upload_state \<Rightarrow> upload_body reply \<times> upload_state) \<Rightarrow> server_state \<Rightarrow> body reply \<times> server_state" where
  "on_upload h st =
     (case h \<lparr>us_db = sv_db st, us_zips = sv_zips st\<rparr> of
        (r, a) \<Rightarrow> (map_reply UploadBody r, st\<lparr>sv_db := us_db a, sv_zips := us_zips a\<rparr>))"

definition on_rank :: "(ranking_state \<Rightarrow> reveal_body reply \<times> ranking_state) \<Rightarrow> server_state \<Rightarrow> body reply \<times> server_state" where
  "on_rank h st = (case h (sv_ranking st) of (r, a) \<Rightarrow> (map_reply RevealBody r, st\<lparr>sv_ranking := a\<rparr>))"

definition on_db :: "('a \<Rightarrow> body) \<Rightarrow> (db \<Rightarrow> 'a reply \<times> db) \<Rightarrow> server_state \<Rightarrow> body reply \<times> server_state" where
  "on_db f h st = (case h (sv_db st) of (r, d) \<Rightarrow> (map_reply f r, st\<lparr>sv_db := d\<rparr>))"

definition reads :: "('a \<Rightarrow> body) \<Rightarrow> 'a reply \<Rightarrow> server_state \<Rightarrow> body reply \<times> server_state" where
  "reads f r st = (map_reply f r, st)"

definition GetSnapshot :: "bool \<Rightarrow> string \<Rightarrow> ranking_state \<Rightarrow> board_snapshot reply" where
  "GetSnapshot fails idParam rs =
     (case parseContestID idParam of
        None \<Rightarrow> Error 400 ''invalid contest_id''
      | Some i \<Rightarrow>
          if fails then Error 500 ''internal error''
          else case rs_strings rs (redisKey i keySnapshot) of
            Some (RSnapshot b) \<Rightarrow> Reply 200 b
          | _ \<Rightarrow> Error 404 ''ranking not yet available'')"

section \<open>Routes\<close>

fun public_route :: "server_env \<Rightarrow> gin_ctx \<Rightarrow> request \<Rightarrow> server_state \<Rightarrow> body reply \<times> server_state" where
  "public_route env c (PostRegister b) st = on_auth (AuthHandler_Register (ve_auth env) b) st"
| "public_route env c (PostLogin b) st = on_auth (Login (ve_auth env) b) st"
| "public_route env c (PostResetRequest b) st = on_auth (RequestPasswordReset (ve_auth env) b) st"
| "public_route env c (PostResetConfirm b) st = on_auth (ConfirmPasswordReset (ve_auth env) b) st"
| "public_route env c (GetRanking i) st = reads BoardBody (GetSnapshot (ve_snapshot_fails env) i (sv_ranking st)) st"
| "public_route env c _ st = (Error 404 ''not found'', st)"

fun optional_route :: "server_env \<Rightarrow> gin_ctx \<Rightarrow> request \<Rightarrow> server_state \<Rightarrow> body reply \<times> server_state" where
  "optional_route env c (GetProblemList p n) st = reads CrudBody (Problem_List (ve_crud env) c p n (sv_db st)) st"
| "optional_route env c (GetProblem i) st = reads CrudBody (Problem_Get (ve_crud env) c i (sv_db st)) st"
| "optional_route env c (GetContestList p n) st = reads CrudBody (Contest_List (ve_crud env) c p n (sv_db st)) st"
| "optional_route env c (GetContest i) st = reads CrudBody (Contest_Get (ve_crud env) c i (sv_db st)) st"
| "optional_route env c (GetContestProblems i) st = reads CrudBody (Contest_GetProblems (ve_crud env) c i (sv_db st)) st"
| "optional_route env c (GetUser i) st = reads UserBody (GetProfile (ve_user env) c i (sv_db st)) st"
| "optional_route env c (GetUserSubmissions i p n) st = reads UserBody (User_ListSubmissions (ve_user env) i p n (sv_db st)) st"
| "optional_route env c (GetUserContests i) st = reads UserBody (User_ListContests (ve_user env) i (sv_db st)) st"
| "optional_route env c (GetSubmissionDetail i) st = reads SubBody (GetSubmission (ve_sub env) i c
     \<lparr>as_db = sv_db st, as_objects = sv_objects st, as_tasks = sv_tasks st\<rparr>) st"
| "optional_route env c _ st = (Error 404 ''not found'', st)"

fun authed_route :: "server_env \<Rightarrow> gin_ctx \<Rightarrow> request \<Rightarrow> server_state \<Rightarrow> body reply \<times> server_state" where
  "authed_route env c GetMe st = reads AuthBody (Me (ve_auth env) c
     \<lparr>au_db = sv_db st, au_redis = sv_redis st, au_mails = sv_mails st\<rparr>) st"
| "authed_route env c (GetSource i) st = reads SubBody (GetSubmissionSource (ve_sub env) i c
     \<lparr>as_db = sv_db st, as_objects = sv_objects st, as_tasks = sv_tasks st\<rparr>) st"
| "authed_route env c (PutMe b) st = on_db UserBody (UpdateMe (ve_user env) c b) st"
| "authed_route env c (PutPassword b) st = on_db UserBody (ChangePassword (ve_user env) c b) st"
| "authed_route env c (PostContestRegister i) st = on_db CrudBody (RegisterParticipant (ve_crud env) c i) st"
| "authed_route env c (PostContestSubmission i b) st = on_sub (Submit (ve_sub env) i c b) st"
| "authed_route env c (PostSubmission b) st = on_sub (SubmitPractice (ve_sub env) c b) st"
| "authed_route env c _ st = (Error 404 ''not found'', st)"

fun admin_route :: "server_env \<Rightarrow> gin_ctx \<Rightarrow> request \<Rightarrow> server_state \<Rightarrow> body reply \<times> server_state" where
  "admin_route env c (AdminPostTestcases i) st = on_upload (UploadTestcases (ve_upload env) i) st"
| "admin_route env c (AdminGetTestcases i) st = reads CrudBody (ListTestcases (ve_crud env) i (sv_db st)) st"
| "admin_route env c (AdminPostProblem b) st = on_db CrudBody (Problem_Create (ve_crud env) c b) st"
| "admin_route env c (AdminPutProblem i b) st = on_db CrudBody (Problem_Update (ve_crud env) i b) st"
| "admin_route env c (AdminDeleteProblem i) st = on_db CrudBody (Problem_Delete (ve_crud env) i) st"
| "admin_route env c (AdminPostContest b) st = on_db CrudBody (Contest_Create (ve_crud env) c b) st"
| "admin_route env c (AdminDeleteContest i) st = on_db CrudBody (Contest_Delete (ve_crud env) i) st"
| "admin_route env c (AdminPostContestProblem i b) st = on_db CrudBody (Contest_AddProblem (ve_crud env) c i b) st"
| "admin_route env c (AdminDeleteContestProblem i p) st = on_db CrudBody (Contest_RemoveProblem (ve_crud env) i p) st"
| "admin_route env c (AdminGetUsers q p n) st = reads UserBody (AdminSearchUsers (ve_user env) q p n (sv_db st)) st"
| "admin_route env c (AdminGetSubmissions u pr co s p n) st =
     reads UserBody (AdminListSubmissions (ve_user env) u pr co s p n (sv_db st)) st"
| "admin_route env c (AdminGetFeed i) st = reads FeedBody (ExportEventFeed (ve_resolver env) (sv_db st) i) st"
| "admin_route env c (AdminPostReveal i) st = on_rank (AdminHandler_RevealContest (ve_rank env) i) st"
| "admin_route env c (AdminPostJudge i) st = on_sub (JudgeContest (ve_sub env) i) st"
| "admin_route env c _ st = (Error 404 ''not found'', st)"

text \<open>Which middleware stands in front of a route.\<close>

datatype guard = Open | Optional | Authenticated | AdminOnly

fun guard_of :: "request \<Rightarrow> guard" where
  "guard_of (PostRegister _) = Open"
| "guard_of (PostLogin _) = Open"
| "guard_of (PostResetRequest _) = Open"
| "guard_of (PostResetConfirm _) = Open"
| "guard_of (GetRanking _) = Open"
| "guard_of GetMe = Authenticated"
| "guard_of (GetSource _) = Authenticated"
| "guard_of (PutMe _) = Authenticated"
| "guard_of (PutPassword _) = Authenticated"
| "guard_of (PostContestRegister _) = Authenticated"
| "guard_of (PostContestSubmission _ _) = Authenticated"
| "guard_of (PostSubmission _) = Authenticated"
| "guard_of (GetProblemList _ _) = Optional"
| "guard_of (GetProblem _) = Optional"
| "guard_of (GetContestList _ _) = Optional"
| "guard_of (GetContest _) = Optional"
| "guard_of (GetContestProblems _) = Optional"
| "guard_of (GetUser _) = Optional"
| "guard_of (GetUserSubmissions _ _ _) = Optional"
| "guard_of (GetUserContests _) = Optional"
| "guard_of (GetSubmissionDetail _) = Optional"
| "guard_of _ = AdminOnly"

definition serve :: "server_env \<Rightarrow> string \<Rightarrow> request \<Rightarrow> server_state \<Rightarrow> body reply \<times> server_state" where
  "serve env header req st =
     (case guard_of req of
        Open \<Rightarrow> public_route env no_auth req st
      | Optional \<Rightarrow> OptionalAuth (ve_parse env) header (\<lambda>c. optional_route env c req st) no_auth
      | Authenticated \<Rightarrow> Auth (ve_parse env) header (\<lambda>c. authed_route env c req st) st no_auth
      | AdminOnly \<Rightarrow> Auth (ve_parse env) header
          (\<lambda>c. RequireRole [RoleAdmin] (\<lambda>c. admin_route env c req st) st c) st no_auth)"

section \<open>What a request may change\<close>

definition db_managed :: "db \<Rightarrow> problem list \<times> test_case_row list \<times> contest list \<times> contest_problem list" where
  "db_managed d = (db_problems d, db_test_cases d, db_contests d, db_contest_problems d)"

definition db_personal :: "db \<Rightarrow> submission list \<times> contest_participant list" where
  "db_personal d = (db_submissions d, db_participants d)"

text \<open>What administrators manage, and what belongs to logged-in users.\<close>

definition managed where "managed st = (db_managed (sv_db st), sv_zips st, sv_ranking st)"

definition personal where "personal st = (db_personal (sv_db st), sv_objects st, sv_tasks st)"

lemmas kept_defs = db_managed_def db_personal_def

definition only_users :: "db \<Rightarrow> db \<Rightarrow> bool" where
  "only_users d d' \<longleftrightarrow> db_managed d' = db_managed d \<and> db_personal d' = db_personal d"

lemma only_users_refl [simp]: "only_users d d"
  by (simp add: only_users_def)

lemma only_users_trans: "only_users d d' \<Longrightarrow> only_users d' d'' \<Longrightarrow> only_users d d''"
  by (simp add: only_users_def)

lemma only_users_repo:
  "only_users d (snd (UserRepo_Create now u d))" "only_users d (snd (BindEmail now i e d))"
  "only_users d (snd (UpdateProfile now i org d))" "only_users d (snd (UpdatePassword now i hash d))"
  by (simp_all add: only_users_def kept_defs UserRepo_Create_def BindEmail_def UpdateProfile_def UpdatePassword_def Let_def)

lemma only_users_step:
  "UserRepo_Create now u d = (r1, d') \<Longrightarrow> only_users d d'" "BindEmail now i e d = (r2, d') \<Longrightarrow> only_users d d'"
  "UpdateProfile now i org d = (r3, d') \<Longrightarrow> only_users d d'" "UpdatePassword now i hash d = (r4, d') \<Longrightarrow> only_users d d'"
  by (metis only_users_repo snd_conv)+

lemma auth_only_users:
  "AuthHandler_Register env b1 st = (r, st') \<Longrightarrow> only_users (au_db st) (au_db st')"
  "Login env b2 st = (r, st') \<Longrightarrow> only_users (au_db st) (au_db st')"
  "RequestPasswordReset env b3 st = (r, st') \<Longrightarrow> only_users (au_db st) (au_db st')"
  "ConfirmPasswordReset env b4 st = (r, st') \<Longrightarrow> only_users (au_db st) (au_db st')"
proof -
  show "AuthHandler_Register env b1 st = (r, st') \<Longrightarrow> only_users (au_db st) (au_db st')"
    by (auto simp: AuthHandler_Register_def Let_def dest: only_users_step split: option.splits if_splits sum.splits prod.splits)
  have "only_users d (rehash env pw u d)" for pw u d
    by (auto simp: rehash_def only_users_repo split: option.split)
  then show "Login env b2 st = (r, st') \<Longrightarrow> only_users (au_db st) (au_db st')"
    by (auto simp: Login_def Let_def split: option.splits if_splits prod.splits)
  show "RequestPasswordReset env b3 st = (r, st') \<Longrightarrow> only_users (au_db st) (au_db st')"
    by (auto simp: RequestPasswordReset_def Let_def split: option.splits if_splits)
  have "au_db (snd (wrong_code env i st)) = au_db st" for i
    by (simp add: wrong_code_def Let_def case_prod_beta)
  then have wrong: "wrong_code env i st = (r, st') \<Longrightarrow> au_db st' = au_db st" for i by (metis snd_conv)
  show "ConfirmPasswordReset env b4 st = (r, st') \<Longrightarrow> only_users (au_db st) (au_db st')"
    by (auto simp: ConfirmPasswordReset_def dest: wrong only_users_step split: option.splits if_splits sum.splits prod.splits)
qed

lemma bindEmail_only_users: "bindEmail env uid e d = Inr d' \<Longrightarrow> only_users d d'"
  by (auto simp: bindEmail_def dest: only_users_step split: option.splits if_splits sum.splits prod.splits db_error.splits)

lemma UpdateMe_only_users: "UpdateMe env c b d = (r, d') \<Longrightarrow> only_users d d'"
  by (auto simp: UpdateMe_def maybe_bind_def dest: bindEmail_only_users only_users_step intro: only_users_trans
      split: option.splits if_splits sum.splits prod.splits)

lemma ChangePassword_only_users: "ChangePassword env c b d = (r, d') \<Longrightarrow> only_users d d'"
  by (auto simp: ChangePassword_def dest: only_users_step split: option.splits if_splits sum.splits prod.splits)

lemma RegisterParticipant_managed: "RegisterParticipant env c i d = (r, d') \<Longrightarrow> db_managed d' = db_managed d"
  by (auto simp: RegisterParticipant_def ContestRepo_Register_def kept_defs
      split: option.splits if_splits sum.splits prod.splits bool.splits)

lemma Create_managed: "SubmissionRepo_Create now s d = (r, d') \<Longrightarrow> db_managed d' = db_managed d"
  by (auto simp: SubmissionRepo_Create_def kept_defs Let_def split: if_splits)

lemma accept_managed:
  assumes "accept_submission env uid cid req pd st = (r, st')"
  shows "db_managed (as_db st') = db_managed (as_db st)"
proof -
  have up: "uploadSource env u p l s st1 = (k, st2) \<Longrightarrow> as_db st2 = as_db st1" for u p l s st1 k st2
    by (auto simp: uploadSource_def Let_def split: if_splits)
  have enq: "enqueueTask env sub pd st1 = (r', st2) \<Longrightarrow> as_db st2 = as_db st1" for sub st1 r' st2
    by (auto simp: enqueueTask_def publishJudgeTask_def split: if_splits)
  show ?thesis
    using assms unfolding accept_submission_def
    by (auto simp: Let_def dest!: up enq Create_managed split: option.splits if_splits sum.splits prod.splits)
qed

lemma submit_managed:
  "Submit env i c b st = (r, st') \<Longrightarrow> db_managed (as_db st') = db_managed (as_db st)"
  "SubmitPractice env c b st = (r, st') \<Longrightarrow> db_managed (as_db st') = db_managed (as_db st)"
  by (auto simp: Submit_def SubmitPractice_def dest: accept_managed split: option.splits if_splits sum.splits prod.splits)

text \<open>The claims a request comes with.\<close>

definition claims_of :: "token_parser \<Rightarrow> string \<Rightarrow> claims option" where
  "claims_of parse header = (if HasPrefix header ''Bearer '' then parse (drop 7 header) else None)"

lemma Auth_claims:
  "Auth parse header h st c =
   (case claims_of parse header of
      Some cl \<Rightarrow> h (with_claims cl c)
    | None \<Rightarrow> (Error 401 (if HasPrefix header ''Bearer '' then ''invalid token'' else ''missing bearer token''), st))"
  by (simp add: Auth_def claims_of_def split: option.split)

lemma public_route_keeps:
  "public_route env c req st = (r, st') \<Longrightarrow> managed st' = managed st \<and> personal st' = personal st"
  by (cases "(env, c, req, st)" rule: public_route.cases)
     (auto simp: on_auth_def reads_def managed_def personal_def only_users_def
       dest: auth_only_users split: prod.splits)

lemma optional_route_keeps: "optional_route env c req st = (r, st') \<Longrightarrow> st' = st"
  by (cases "(env, c, req, st)" rule: optional_route.cases) (auto simp: reads_def)

lemma authed_route_keeps:
  "authed_route env c req st = (r, st') \<Longrightarrow> managed st' = managed st"
  by (cases "(env, c, req, st)" rule: authed_route.cases)
     (auto simp: on_db_def on_sub_def reads_def managed_def only_users_def
       dest: UpdateMe_only_users ChangePassword_only_users RegisterParticipant_managed submit_managed split: prod.splits)

text \<open>
  C6: No request changes more than its token allows. Whatever the route, its parameters and body, and
  whichever external calls fail: unless the request carries a valid token of an administrator, problems, test cases,
  contests, their problem lists, the stored archives and the scoreboards stay exactly as they were. Without a valid
  token, submissions, registrations, stored sources and the judge queue stay as they were, too.
\<close>

theorem writes_need_rights:
  assumes "serve env header req st = (r, st')"
  shows "(map_option cl_Role (claims_of (ve_parse env) header) \<noteq> Some RoleAdmin \<longrightarrow> managed st' = managed st) \<and>
    (claims_of (ve_parse env) header = None \<longrightarrow> personal st' = personal st)"
proof (cases "guard_of req")
  case Open
  then have "public_route env no_auth req st = (r, st')" using assms by (simp add: serve_def)
  from public_route_keeps [OF this] show ?thesis by simp
next
  case Optional
  then obtain c where "optional_route env c req st = (r, st')"
    using assms by (auto simp: serve_def OptionalAuth_def split: if_splits option.splits)
  from optional_route_keeps [OF this] show ?thesis by simp
next
  case Authenticated
  show ?thesis
  proof (cases "claims_of (ve_parse env) header")
    case None
    then show ?thesis using assms Authenticated by (auto simp: serve_def Auth_claims)
  next
    case (Some cl)
    then have "authed_route env (with_claims cl no_auth) req st = (r, st')"
      using assms Authenticated by (simp add: serve_def Auth_claims)
    from authed_route_keeps [OF this] show ?thesis using Some by simp
  qed
next
  case AdminOnly
  show ?thesis
  proof (cases "claims_of (ve_parse env) header")
    case None
    then show ?thesis using assms AdminOnly by (auto simp: serve_def Auth_claims)
  next
    case (Some cl)
    then have "cl_Role cl = RoleAdmin \<or> st' = st"
      using assms AdminOnly
      by (auto simp: serve_def Auth_claims RequireRole_def role_or_empty_def with_claims_def split: if_splits)
    then show ?thesis using Some by auto
  qed
qed

text \<open>A contestant and an administrator each ask for contest 2 to be deleted.\<close>

definition server_env0 :: server_env where
  "server_env0 = \<lparr>ve_parse = (\<lambda>t. if t = ''admin'' then Some \<lparr>cl_UserID = 9, cl_Role = RoleAdmin\<rparr>
       else if t = ''ann'' then Some \<lparr>cl_UserID = 1, cl_Role = RoleContestant\<rparr> else None),
     ve_auth = auth_env0 100,
     ve_user = \<lparr>uv_auth = auth_env0 100, uv_valid_address = (\<lambda>_. True), uv_search = (\<lambda>_ _ _ _. Inr ([], 0)), uv_fails = (\<lambda>_. False)\<rparr>,
     ve_crud = \<lparr>cv_now = 100, cv_db_now = 100, cv_fails = (\<lambda>_. False)\<rparr>,
     ve_sub = oi_env 100, ve_upload = upload_env0, ve_rank = Ranking.sample_env,
     ve_resolver = \<lparr>rv_now = 100, rv_contest_fails = False, rv_problems_fail = False, rv_teams_fail = False,
       rv_subs_fail = False, rv_marshal = (\<lambda>_. None)\<rparr>,
     ve_snapshot_fails = False\<rparr>"

definition server_state0 :: server_state where
  "server_state0 = \<lparr>sv_db = sample_db, sv_objects = Map.empty, sv_zips = Map.empty, sv_tasks = [], sv_redis = Map.empty,
     sv_mails = [], sv_ranking = sample_store\<rparr>"

definition contests_after :: "string \<Rightarrow> ID list" where
  "contests_after header =
     map c_ID (db_contests (sv_db (snd (serve server_env0 header (AdminDeleteContest ''2'') server_state0))))"

lemma admin_deletes: "contests_after ''Bearer admin'' = []"
  by code_simp

theorem writes_need_rights_witness:
  "contests_after ''Bearer ann'' = [2] \<and> contests_after ''Bearer admin'' = []"
proof
  let ?out = "serve server_env0 ''Bearer ann'' (AdminDeleteContest ''2'') server_state0"
  have "map_option cl_Role (claims_of (ve_parse server_env0) ''Bearer ann'') \<noteq> Some RoleAdmin" by code_simp
  then have "managed (snd ?out) = managed server_state0"
    using writes_need_rights [OF prod.collapse [symmetric], of server_env0 "''Bearer ann''" "AdminDeleteContest ''2''" server_state0]
    by blast
  then show "contests_after ''Bearer ann'' = [2]"
    using sample_db_tables by (simp add: contests_after_def managed_def db_managed_def server_state0_def)
qed (rule admin_deletes)

section \<open>Problems of contests that have not started\<close>

text \<open>
  A private problem is under wraps while none of its contests has started (nor, with a schedule the
  wrong way round, ended) and nobody has submitted to it.
\<close>

definition under_wraps :: "time \<Rightarrow> ID \<Rightarrow> db \<Rightarrow> bool" where
  "under_wraps now i d \<longleftrightarrow>
     list_all (\<lambda>p. p_ID p = i \<longrightarrow> \<not> p_IsPublic p) (db_problems d) \<and>
     list_all (\<lambda>c. now < c_StartTime c \<and> now \<le> c_EndTime c) (contests_with i d) \<and>
     list_all (\<lambda>s. sub_ProblemID s \<noteq> i) (db_submissions d)"

definition reworded :: "ID \<Rightarrow> string \<Rightarrow> string \<Rightarrow> int \<Rightarrow> int \<Rightarrow> db \<Rightarrow> db" where
  "reworded i title statement timeLimit memLimit d =
     d\<lparr>db_problems := map (\<lambda>p. if p_ID p = i then p\<lparr>p_Title := title, p_Statement := statement,
         p_TimeLimitMs := timeLimit, p_MemLimitKB := memLimit\<rparr> else p) (db_problems d)\<rparr>"

lemma reworded_tables [simp]:
  "db_users (reworded i t s lt lm d) = db_users d" "db_contests (reworded i t s lt lm d) = db_contests d"
  "db_contest_problems (reworded i t s lt lm d) = db_contest_problems d"
  "db_participants (reworded i t s lt lm d) = db_participants d"
  "db_submissions (reworded i t s lt lm d) = db_submissions d"
  by (simp_all add: reworded_def)

lemma reworded_visible:
  assumes "\<And>p. p \<in> set (db_problems d) \<Longrightarrow> p_ID p = i \<Longrightarrow> \<not> P (p_ID p) (p_IsPublic p)"
  shows "filter (\<lambda>p. P (p_ID p) (p_IsPublic p)) (db_problems (reworded i t s lt lm d)) =
    filter (\<lambda>p. P (p_ID p) (p_IsPublic p)) (db_problems d)"
proof -
  have "filter (\<lambda>p. P (p_ID p) (p_IsPublic p)) (map (\<lambda>p. if p_ID p = i then p\<lparr>p_Title := t, p_Statement := s,
      p_TimeLimitMs := lt, p_MemLimitKB := lm\<rparr> else p) ps) = filter (\<lambda>p. P (p_ID p) (p_IsPublic p)) ps"
    if "\<And>p. p \<in> set ps \<Longrightarrow> p_ID p = i \<Longrightarrow> \<not> P (p_ID p) (p_IsPublic p)" for ps
    using that by (induction ps) (auto split: if_splits)
  from this [of "db_problems d"] show ?thesis using assms by (simp add: reworded_def)
qed

lemma contests_with_reworded [simp]: "contests_with j (reworded i t s lt lm d) = contests_with j d"
  by (simp add: contests_with_def)

lemma other_problems_reworded:
  "j \<noteq> i \<Longrightarrow> filter (\<lambda>p. p_ID p = j) (db_problems (reworded i t s lt lm d)) = filter (\<lambda>p. p_ID p = j) (db_problems d)"
  using reworded_visible [of d i "\<lambda>k _. k = j"] by simp

lemma ListProblems_reworded:
  assumes "under_wraps now i d"
  shows "ListProblems now True n off (reworded i t s lt lm d) = ListProblems now True n off d"
proof -
  have "\<not> list_ex (\<lambda>c. c_EndTime c < now) (contests_with i d)"
    using assms by (auto simp: under_wraps_def list_all_iff list_ex_iff)
  then have "filter (\<lambda>p. p_IsPublic p \<or> list_ex (\<lambda>c. c_EndTime c < now) (contests_with (p_ID p) d)) (db_problems (reworded i t s lt lm d)) =
      filter (\<lambda>p. p_IsPublic p \<or> list_ex (\<lambda>c. c_EndTime c < now) (contests_with (p_ID p) d)) (db_problems d)"
    using assms
    by (intro reworded_visible [where P = "\<lambda>k pub. pub \<or> list_ex (\<lambda>c. c_EndTime c < now) (contests_with k d)"])
       (auto simp: under_wraps_def list_all_iff)
  then show ?thesis by (simp add: ListProblems_def)
qed

lemma Problem_List_reworded:
  assumes "under_wraps (cv_db_now env) i d" and "\<not> is_admin c"
  shows "Problem_List env c pq sq (reworded i t s lt lm d) = Problem_List env c pq sq d"
  using assms by (auto simp: Problem_List_def ListProblems_reworded split: prod.split)

lemma find_reworded:
  "find (\<lambda>p. p_ID p = j) (db_problems (reworded i t s lt lm d)) =
   map_option (\<lambda>p. if j = i then p\<lparr>p_Title := t, p_Statement := s, p_TimeLimitMs := lt, p_MemLimitKB := lm\<rparr> else p)
     (find (\<lambda>p. p_ID p = j) (db_problems d))"
proof -
  have "find (\<lambda>p. p_ID p = j) (map (\<lambda>p. if p_ID p = i then p\<lparr>p_Title := t, p_Statement := s,
      p_TimeLimitMs := lt, p_MemLimitKB := lm\<rparr> else p) ps) =
    map_option (\<lambda>p. if j = i then p\<lparr>p_Title := t, p_Statement := s, p_TimeLimitMs := lt, p_MemLimitKB := lm\<rparr> else p)
     (find (\<lambda>p. p_ID p = j) ps)" for ps
    by (induction ps) auto
  then show ?thesis by (simp add: reworded_def)
qed

lemma Problem_Get_reworded:
  assumes "under_wraps (cv_db_now env) i d" and "\<not> is_admin c"
  shows "Problem_Get env c idParam (reworded i t s lt lm d) = Problem_Get env c idParam d"
proof (cases "parse_int idParam")
  case (Some j)
  have secret: "find (\<lambda>p. p_ID p = i) (db_problems d) = Some p \<Longrightarrow> \<not> p_IsPublic p" for p
    using assms(1) by (auto simp: under_wraps_def list_all_iff find_Some_iff)
  have hidden: "\<not> CanNonAdminView (cv_db_now env) i uid authed d" for uid authed
    using assms(1) by (auto simp: under_wraps_def CanNonAdminView_def list_all_iff list_ex_iff)
  have view: "CanNonAdminView now k uid authed (reworded i t s lt lm d) = CanNonAdminView now k uid authed d" for now k uid authed
    by (simp add: CanNonAdminView_def is_participant_def)
  show ?thesis
    using assms(2) secret hidden
    by (cases "j = i") (auto simp: Some Problem_Get_def GetProblemByID_def find_reworded view split: option.splits prod.splits)
qed (simp add: Problem_Get_def)

lemma GetProblems_reworded:
  assumes "find (\<lambda>c. c_ID c = cid) (db_contests d) = Some contest" and "\<not> now < c_StartTime contest" and "under_wraps now i d"
  shows "GetProblems cid (reworded i t s lt lm d) = GetProblems cid d"
proof -
  have "cp_ProblemID cp \<noteq> i" if "cp \<in> set (db_contest_problems d)" "cp_ContestID cp = cid" for cp
  proof
    assume "cp_ProblemID cp = i"
    then have "contest \<in> set (contests_with i d)"
      using that assms(1) by (auto simp: contests_with_def find_Some_iff intro!: bexI [of _ cp])
    then show False using assms(2,3) by (auto simp: under_wraps_def list_all_iff)
  qed
  then show ?thesis by (auto simp: GetProblems_def other_problems_reworded intro!: arg_cong [of _ _ concat])
qed

lemma Contest_GetProblems_reworded:
  assumes "under_wraps (cv_now env) i d" and "\<not> is_admin c"
  shows "Contest_GetProblems env c idParam (reworded i t s lt lm d) = Contest_GetProblems env c idParam d"
proof -
  have gate: "problems_gate env c cid contest (reworded i t s lt lm d) = problems_gate env c cid contest d" for cid contest
    by (auto simp: problems_gate_def IsRegistered_def is_participant_def split: prod.split bool.split)
  have "GetProblems cid (reworded i t s lt lm d) = GetProblems cid d"
    if "ContestRepo_GetByID (cv_now env) cid d = Some contest" "\<not> cv_now env < c_StartTime contest" for cid contest
    using that GetProblems_reworded [OF _ _ assms(1), of cid] by (auto simp: ContestRepo_GetByID_def scanContest_def)
  moreover have "ContestRepo_GetByID now cid (reworded i t s lt lm d) = ContestRepo_GetByID now cid d" for now cid
    by (simp add: ContestRepo_GetByID_def)
  ultimately show ?thesis
    using assms(2) by (auto simp: Contest_GetProblems_def gate split: option.split)
qed

lemma ListAll_reworded:
  assumes "under_wraps now i d"
  shows "ListAll f n off (reworded i t s lt lm d) = ListAll f n off d"
proof -
  have "list_items (reworded i t s lt lm d) sub = list_items d sub" if "sub \<in> set (db_submissions d)" for sub
    using that assms by (simp add: list_items_def other_problems_reworded under_wraps_def list_all_iff)
  then have "map (list_items (reworded i t s lt lm d)) (sort_slice le (filter P (db_submissions d))) =
      map (list_items d) (sort_slice le (filter P (db_submissions d)))" for le P
    by simp
  then show ?thesis unfolding ListAll_def reworded_tables Let_def by presburger
qed

lemma submission_page_reworded:
  "under_wraps now i d \<Longrightarrow> submission_page uenv f pq sq (reworded i t s lt lm d) = submission_page uenv f pq sq d"
  by (auto simp: submission_page_def ListAll_reworded split: prod.split)

lemma other_reads_reworded:
  "Contest_List env c pq sq (reworded i t s lt lm d) = Contest_List env c pq sq d"
  "Contest_Get env c x (reworded i t s lt lm d) = Contest_Get env c x d"
  "GetProfile uenv c x (reworded i t s lt lm d) = GetProfile uenv c x d"
  "User_ListContests uenv x (reworded i t s lt lm d) = User_ListContests uenv x d"
  "GetSubmission senv x c \<lparr>as_db = reworded i t s lt lm d, as_objects = ob, as_tasks = ts\<rparr> =
   GetSubmission senv x c \<lparr>as_db = d, as_objects = ob, as_tasks = ts\<rparr>"
  by (simp_all add: Contest_List_def ContestRepo_List_def Contest_Get_def ContestRepo_GetByID_def IsRegistered_def
      is_participant_def GetProfile_def UserRepo_GetByID_def UserStats_def User_ListContests_def ListByParticipant_def
      GetSubmission_def SubmissionRepo_GetByID_def applyContestVisibility_def Let_def
      cong: option.case_cong prod.case_cong if_cong)


text \<open>Problem 3 of contest 2 before the contest starts at 1000.\<close>

lemma wraps0: "under_wraps 100 3 sample_db"
  by code_simp


end
