(* ===== verification/Nsjail.thy ===== *)
theory Nsjail
  imports Judger
begin

text \<open>
  Package \<open>sandbox/nsjail\<close>, files \<open>sandbox.go\<close>, \<open>args.go\<close>, \<open>cgroup.go\<close> and \<open>execute.go\<close>: the
  configuration, the command line of the \<open>nsjail\<close> program, the cgroup a run is measured in, and
  running one process with the classification of its end. The program that is run, the kernel and the
  files of the cgroup hierarchy are parameters (\<open>kernel\<close>); \<open>run_obs\<close> is all the judger sees of a run.
\<close>

section \<open>Strings\<close>

text \<open>\<open>strings.Index\<close>, \<open>strings.Contains\<close>, \<open>strings.Split\<close> at line feeds; \<open>strings.Fields\<close> is \<open>words\<close>.\<close>

fun Index :: "string \<Rightarrow> string \<Rightarrow> nat option" where
  "Index [] p = (if p = [] then Some 0 else None)"
| "Index (c # s) p = (if HasPrefix (c # s) p then Some 0 else map_option Suc (Index s p))"

definition Contains :: "string \<Rightarrow> string \<Rightarrow> bool" where
  "Contains s p \<longleftrightarrow> Index s p \<noteq> None"

fun split_lines :: "string \<Rightarrow> string list" where
  "split_lines [] = [[]]"
| "split_lines (c # s) =
     (if c = CHR 0x0A then [] # split_lines s
      else case split_lines s of [] \<Rightarrow> [[c]] | l # ls \<Rightarrow> (c # l) # ls)"

section \<open>Configuration and sessions\<close>

record nsjail_config =
  nc_BinaryPath :: string
  nc_SeccompPolicyPath :: string
  nc_ReadOnlyMounts :: "string list"
  nc_CgroupParent :: string
  nc_CgroupRoot :: string
  nc_CgroupV2 :: bool
  nc_DisableCgroup :: bool
  nc_InteractorNoSandbox :: bool

definition defaultReadOnlyMounts :: "string list" where
  "defaultReadOnlyMounts =
     [''/usr'', ''/lib'', ''/lib64'', ''/bin'', ''/sbin'',
      ''/etc/ld.so.cache'', ''/etc/ld.so.conf'', ''/etc/ld.so.conf.d'',
      ''/dev/null'', ''/dev/zero'', ''/dev/urandom'']"

definition Sandbox_New :: "(string \<Rightarrow> bool) \<Rightarrow> nsjail_config \<Rightarrow> error + nsjail_config" where
  "Sandbox_New exists cfg =
     (if \<not> exists (nc_BinaryPath cfg) then Inl ''nsjail: binary not found''
      else if nc_SeccompPolicyPath cfg \<noteq> [] \<and> \<not> exists (nc_SeccompPolicyPath cfg) then Inl ''nsjail: seccomp policy not found''
      else Inr (cfg\<lparr>nc_CgroupParent := (if nc_CgroupParent cfg = [] then ''oj-judge'' else nc_CgroupParent cfg),
                    nc_CgroupRoot := (if nc_CgroupRoot cfg = [] then ''/sys/fs/cgroup'' else nc_CgroupRoot cfg)\<rparr>))"

record ns_session =
  ns_id :: string
  ns_sbCfg :: session_config
  ns_nsCfg :: nsjail_config

definition Sandbox_Prepare :: "string \<Rightarrow> nsjail_config \<Rightarrow> session_config \<Rightarrow> error + ns_session" where
  "Sandbox_Prepare uuid cfg scfg =
     (if sc_WorkDir scfg = [] then Inl ''nsjail: SessionConfig.WorkDir must not be empty''
      else Inr \<lparr>ns_id = uuid, ns_sbCfg = scfg, ns_nsCfg = cfg\<rparr>)"

section \<open>The command line\<close>

definition ceilDiv :: "int \<Rightarrow> int \<Rightarrow> int" where
  "ceilDiv a b = go_quot (wrap64 (wrap64 (a + b) - 1)) b"

definition limit_flag :: "bool \<Rightarrow> string \<Rightarrow> int \<Rightarrow> string list" where
  "limit_flag given flag n = (if given then [flag, show_int n] else [])"

definition time_args :: "resource_limits \<Rightarrow> string list" where
  "time_args limits =
     limit_flag (rl_WallTimeLimitMs limits > 0) ''--time_limit'' (ceilDiv (rl_WallTimeLimitMs limits) 1000) @
     limit_flag (rl_TimeLimitMs limits > 0) ''--rlimit_cpu'' (ceilDiv (rl_TimeLimitMs limits) 1000)"

definition mem_args :: "nsjail_config \<Rightarrow> resource_limits \<Rightarrow> string list" where
  "mem_args cfg limits =
     (if rl_MemLimitKB limits > 0 then
        (let memBytes = wrap64 (rl_MemLimitKB limits * 1024)
         in limit_flag (\<not> nc_DisableCgroup cfg) ''--cgroup_mem_max'' memBytes @
            limit_flag (\<not> nc_DisableCgroup cfg \<and> \<not> nc_CgroupV2 cfg) ''--cgroup_mem_memsw_max'' memBytes) @
        [''--rlimit_as'', show_int (go_quot (wrap64 (rl_MemLimitKB limits * 2)) 1024)]
      else [])"

definition max_pids :: "session_config \<Rightarrow> resource_limits \<Rightarrow> int" where
  "max_pids scfg limits =
     (if rl_MaxChildProcesses limits > sc_MaxProcesses scfg then rl_MaxChildProcesses limits else sc_MaxProcesses scfg)"

definition pid_args :: "nsjail_config \<Rightarrow> session_config \<Rightarrow> resource_limits \<Rightarrow> string list" where
  "pid_args cfg scfg limits =
     (let maxPids = max_pids scfg limits
      in if maxPids > 0 then
           limit_flag (\<not> nc_DisableCgroup cfg) ''--cgroup_pids_max'' maxPids @ [''--rlimit_nproc'', show_int maxPids]
         else [])"

definition file_args :: "resource_limits \<Rightarrow> string list" where
  "file_args limits =
     limit_flag (rl_FileSizeKB limits > 0) ''--rlimit_fsize'' (ceilDiv (rl_FileSizeKB limits) 1024) @
     limit_flag (rl_MaxOpenFiles limits > 0) ''--rlimit_nofile'' (rl_MaxOpenFiles limits)"

definition cgroup_args :: "nsjail_config \<Rightarrow> string list" where
  "cgroup_args cfg =
     (if nc_DisableCgroup cfg then []
      else if nc_CgroupV2 cfg then [''--use_cgroupv2'']
      else if nc_CgroupParent cfg \<noteq> [] then
        [''--cgroup_mem_parent'', nc_CgroupParent cfg, ''--cgroup_pids_parent'', nc_CgroupParent cfg,
         ''--cgroup_cpu_parent'', nc_CgroupParent cfg]
      else [])"

definition bind_arg :: "bind_mount \<Rightarrow> string list" where
  "bind_arg bm =
     [if bm_ReadOnly bm then ''-R'' else ''-B'',
      bm_HostPath bm @ '':'' @ (if bm_SandboxPath bm = [] then bm_HostPath bm else bm_SandboxPath bm)]"

definition mount_args :: "nsjail_config \<Rightarrow> session_config \<Rightarrow> string list" where
  "mount_args cfg scfg =
     concat (map (\<lambda>m. [''-R'', m])
       (if nc_ReadOnlyMounts cfg = [] then defaultReadOnlyMounts else nc_ReadOnlyMounts cfg)) @
     concat (map bind_arg (sc_ExtraBindMounts scfg))"

definition env_args :: "string list" where
  "env_args = [''--env'', ''PATH=/usr/local/bin:/usr/bin:/bin'', ''--env'', ''TMPDIR=/workspace'',
     ''--env'', ''HOME=/workspace'', ''--env'', ''LANG=C.UTF-8'']"

definition buildBaseArgs :: "nsjail_config \<Rightarrow> session_config \<Rightarrow> resource_limits \<Rightarrow> string list" where
  "buildBaseArgs cfg scfg limits =
     [''--mode'', ''o'', ''--log_fd'', ''3'', ''--quiet'', ''--disable_proc''] @
     time_args limits @ mem_args cfg limits @ pid_args cfg scfg limits @ file_args limits @ cgroup_args cfg @
     (if \<not> sc_NetworkEnabled scfg then [''--iface_no_lo''] else []) @
     mount_args cfg scfg @ env_args @
     [''-B'', sc_WorkDir scfg @ '':/workspace'', ''-D'', ''/workspace''] @
     (if nc_SeccompPolicyPath cfg \<noteq> [] then [''--seccomp_policy'', nc_SeccompPolicyPath cfg] else [])"

definition buildPassFDArgs :: "nat list \<Rightarrow> string list" where
  "buildPassFDArgs fds = concat (map (\<lambda>fd. [''--pass_fd'', show_nat fd]) fds)"

section \<open>How a run ended\<close>

datatype wait_error = ExitError int "int option" | WaitFailed

definition extractMemKB :: "string \<Rightarrow> int" where
  "extractMemKB l =
     (case Index l ''Maximum VmRSS:'' of
        None \<Rightarrow> 0
      | Some idx \<Rightarrow>
          (case words (TrimSpace (drop (idx + 14) l)) of
             [] \<Rightarrow> 0
           | f # _ \<Rightarrow> (case parse_int f of None \<Rightarrow> 0 | Some n \<Rightarrow> n)))"

definition extractSeccompSyscall :: "string \<Rightarrow> string" where
  "extractSeccompSyscall l =
     (case Index (ToLower l) ''seccomp'' of
        None \<Rightarrow> ''seccomp: illegal syscall''
      | Some idx \<Rightarrow> ''seccomp violation: '' @ TrimSpace (take 80 (first_line (drop idx l))))"

definition truncateLog :: "string \<Rightarrow> nat \<Rightarrow> string" where
  "truncateLog s m = (if length s \<le> m then s else take m s @ ''...(truncated)'')"

definition classify_log :: "string \<Rightarrow> exec_result \<Rightarrow> exec_result" where
  "classify_log nsjailLog r =
     (let logL = ToLower nsjailLog
      in if Contains logL ''exceeded wall-clock'' \<or> Contains logL ''wall time limit'' then
           r\<lparr>xr_Status := ExecWallTLE, xr_Message := ''wall-clock time limit exceeded''\<rparr>
         else if Contains logL ''exceeded cpu'' \<or> Contains logL ''rlimit cpu'' \<or> Contains logL ''cpu time limit'' then
           r\<lparr>xr_Status := ExecTLE, xr_Message := ''CPU time limit exceeded''\<rparr>
         else if (Contains logL ''memory'' \<or> Contains logL ''oom'') \<and> (Contains logL ''killed'' \<or> Contains logL ''kill'') then
           r\<lparr>xr_Status := ExecMLE, xr_Message := ''memory limit exceeded''\<rparr>
         else if Contains logL ''seccomp'' then
           r\<lparr>xr_Status := ExecSCViol, xr_Message := extractSeccompSyscall nsjailLog\<rparr>
         else if xr_ExitCode r < 0 \<and> Contains logL ''nsjail'' then
           r\<lparr>xr_Status := ExecSE, xr_Message := ''sandbox error (exit '' @ show_int (xr_ExitCode r) @ '', signal '' @
               show_int (xr_Signal r) @ '')''\<rparr>
         else r\<lparr>xr_Status := ExecRE, xr_Message := ''exited with code '' @ show_int (xr_ExitCode r) @ '', signal '' @
               show_int (xr_Signal r)\<rparr>)"

definition parseResult :: "wait_error option \<Rightarrow> int \<Rightarrow> string \<Rightarrow> exec_result" where
  "parseResult waitErr wallMs nsjailLog =
     (let r = \<lparr>xr_ExitCode = 0, xr_Signal = 0, xr_TimeUsedMs = wallMs, xr_MemUsedKB = extractMemKB nsjailLog,
               xr_Status = ExecOther [], xr_Message = []\<rparr>
      in case waitErr of
           None \<Rightarrow> r\<lparr>xr_Status := ExecOK\<rparr>
         | Some (ExitError code signal) \<Rightarrow>
             classify_log nsjailLog (r\<lparr>xr_ExitCode := code, xr_Signal := (case signal of None \<Rightarrow> 0 | Some n \<Rightarrow> n)\<rparr>)
         | Some WaitFailed \<Rightarrow> classify_log nsjailLog r)"

section \<open>Measuring a run\<close>

text \<open>The contents of a cgroup's files by name; \<open>None\<close> when the file cannot be read.\<close>

type_synonym cgroup_files = "string \<Rightarrow> string option"

definition controllerEnabled :: "cgroup_files \<Rightarrow> string \<Rightarrow> bool" where
  "controllerEnabled files name =
     (case files ''cgroup.subtree_control'' of None \<Rightarrow> False | Some b \<Rightarrow> list_ex (\<lambda>f. f = name) (words b))"

definition readCgroupPeakKB :: "cgroup_files \<Rightarrow> int" where
  "readCgroupPeakKB files =
     (case files ''memory.peak'' of
        None \<Rightarrow> 0
      | Some b \<Rightarrow>
          (case parse_int (TrimSpace b) of
             None \<Rightarrow> 0
           | Some n \<Rightarrow> if n \<le> 0 then 0 else go_quot (wrap64 (n + 1023)) 1024))"

fun usage_usec :: "string list \<Rightarrow> int" where
  "usage_usec [] = 0"
| "usage_usec (line # ls) =
     (case words line of
        [k, v] \<Rightarrow>
          (case (k = ''usage_usec'', parse_int v) of
             (True, Some n) \<Rightarrow> if n \<ge> 0 then go_quot n 1000 else usage_usec ls
           | _ \<Rightarrow> usage_usec ls)
      | _ \<Rightarrow> usage_usec ls)"

definition readCgroupCPUMs :: "cgroup_files \<Rightarrow> int" where
  "readCgroupCPUMs files = (case files ''cpu.stat'' of None \<Rightarrow> 0 | Some b \<Rightarrow> usage_usec (split_lines b))"

definition oom_line :: "string \<Rightarrow> bool" where
  "oom_line line =
     (case words line of
        [k, v] \<Rightarrow> (k = ''oom_kill'' \<or> k = ''oom_group_kill'') \<and> (case parse_int v of None \<Rightarrow> False | Some n \<Rightarrow> n > 0)
      | _ \<Rightarrow> False)"

definition cgroupOOMKilled :: "cgroup_files \<Rightarrow> bool" where
  "cgroupOOMKilled files = (case files ''memory.events'' of None \<Rightarrow> False | Some b \<Rightarrow> list_ex oom_line (split_lines b))"

section \<open>The cgroup of a run\<close>

text \<open>
  A cgroup directory with its name, whether processes are left in it, and the cgroups below it.
  Removing a tree works from the leaves; a directory that holds processes or cgroups stays.
\<close>

datatype cgroup = Cgroup (cg_name: string) (cg_busy: bool) (cg_children: "cgroup list")

fun cleanupCgroupTree :: "cgroup \<Rightarrow> cgroup option" where
  "cleanupCgroupTree (Cgroup name busy children) =
     (let left = concat (map (\<lambda>g. case cleanupCgroupTree g of None \<Rightarrow> [] | Some g' \<Rightarrow> [g']) children)
      in if left = [] \<and> \<not> busy then None else Some (Cgroup name busy left))"

definition cleanup_named :: "string \<Rightarrow> cgroup list \<Rightarrow> cgroup list" where
  "cleanup_named name dirs =
     concat (map (\<lambda>g. if cg_name g \<noteq> name then [g]
       else case cleanupCgroupTree g of None \<Rightarrow> [] | Some g' \<Rightarrow> [g']) dirs)"

text \<open>Whether the parent cgroup exists, and the cgroups below it.\<close>

record cgroup_state =
  cs_parent :: bool
  cs_dirs :: "cgroup list"

text \<open>All that is seen of a run: the error of starting or waiting, the wall-clock time, what \<open>nsjail\<close> logged
  (and how much of it had been read when the result was made up), the output, and what is left in the cgroup.\<close>

record run_obs =
  ro_wait :: "wait_error option"
  ro_wall_ms :: int
  ro_log :: string
  ro_log_seen :: string
  ro_output :: string
  ro_files :: cgroup_files
  ro_busy :: bool
  ro_children :: "cgroup list"

record kernel =
  k_log_pipe_ok :: bool
  k_mkdir_ok :: "string \<Rightarrow> bool"
  k_write_ok :: "string \<Rightarrow> string \<Rightarrow> bool"
  k_files :: "string \<Rightarrow> cgroup_files"
  k_start_ok :: "string list \<Rightarrow> bool"
  k_run :: "string list \<Rightarrow> string option \<Rightarrow> run_obs"

definition enableControllers :: "kernel \<Rightarrow> string \<Rightarrow> bool" where
  "enableControllers k dir =
     (if \<not> k_write_ok k (path_Join dir ''cgroup.subtree_control'') ''+memory''
      then controllerEnabled (k_files k dir) ''memory'' else True)"

definition exec_dir :: "ns_session \<Rightarrow> string" where
  "exec_dir s = ''exec-'' @ ns_id s"

definition prepareMemCgroup :: "kernel \<Rightarrow> ns_session \<Rightarrow> cgroup_state \<Rightarrow> string option \<times> cgroup_state" where
  "prepareMemCgroup k s st =
     (if \<not> nc_CgroupV2 (ns_nsCfg s) \<or> nc_DisableCgroup (ns_nsCfg s) then (None, st)
      else
        let parent = path_Join (nc_CgroupRoot (ns_nsCfg s)) (nc_CgroupParent (ns_nsCfg s));
            base = path_Join parent (exec_dir s)
        in if \<not> cs_parent st \<and> \<not> k_mkdir_ok k parent then (None, st)
           else
             let dirs = cleanup_named (exec_dir s) (cs_dirs st);
                 st = st\<lparr>cs_parent := True, cs_dirs := dirs\<rparr>
             in if exec_dir s \<in> set (map cg_name dirs) \<or> \<not> k_mkdir_ok k base then (None, st)
                else if \<not> enableControllers k base \<or> k_files k base ''memory.peak'' = None then (None, st)
                else (Some base, st\<lparr>cs_dirs := dirs @ [Cgroup (exec_dir s) False []]\<rparr>))"

section \<open>Running one process\<close>

definition measured :: "resource_limits \<Rightarrow> run_obs \<Rightarrow> exec_result \<Rightarrow> exec_result" where
  "measured limits obs res =
     (let res = (if readCgroupPeakKB (ro_files obs) > 0 then res\<lparr>xr_MemUsedKB := readCgroupPeakKB (ro_files obs)\<rparr> else res);
          res = (if xr_Status res \<noteq> ExecTLE \<and> xr_Status res \<noteq> ExecWallTLE \<and> cgroupOOMKilled (ro_files obs)
                 then res\<lparr>xr_Status := ExecMLE, xr_Message := ''memory limit exceeded''\<rparr> else res);
          cpuMs = readCgroupCPUMs (ro_files obs);
          res = (if cpuMs > 0 then
                   (let res = res\<lparr>xr_TimeUsedMs := cpuMs\<rparr>; killed = (xr_Status res \<noteq> ExecOK)
                    in if xr_Status res \<noteq> ExecMLE \<and> rl_TimeLimitMs limits > 0 \<and>
                          (killed \<and> cpuMs \<ge> rl_TimeLimitMs limits \<or> \<not> killed \<and> cpuMs > rl_TimeLimitMs limits)
                       then res\<lparr>xr_Status := ExecTLE, xr_Message := ''CPU time limit exceeded''\<rparr> else res)
                 else res)
      in if xr_Status res \<noteq> ExecOK \<and> xr_Status res \<noteq> ExecMLE \<and> xr_Status res \<noteq> ExecTLE \<and>
            rl_WallTimeLimitMs limits > 0 \<and> ro_wall_ms obs \<ge> rl_WallTimeLimitMs limits
         then res\<lparr>xr_Status := ExecWallTLE, xr_Message := ''wall-clock time limit exceeded''\<rparr> else res)"

definition exec_argv :: "ns_session \<Rightarrow> exec_request \<Rightarrow> string option \<Rightarrow> string list" where
  "exec_argv s req memCgroup =
     nc_BinaryPath (ns_nsCfg s) # buildBaseArgs (ns_nsCfg s) (ns_sbCfg s) (er_Limits req) @
     (case memCgroup of None \<Rightarrow> [] | Some d \<Rightarrow> [''--cgroupv2_mount'', d]) @
     [''--'', er_Executable req] @ er_Args req"

text \<open>After the run the cgroup holds what the run left in it; the deferred cleanup then removes it.\<close>

definition leave :: "ns_session \<Rightarrow> run_obs \<Rightarrow> cgroup_state \<Rightarrow> cgroup_state" where
  "leave s obs st = st\<lparr>cs_dirs := map (\<lambda>g. if cg_name g = exec_dir s then Cgroup (exec_dir s) (ro_busy obs) (ro_children obs) else g)
     (cs_dirs st)\<rparr>"

definition Execute :: "kernel \<Rightarrow> ns_session \<Rightarrow> exec_request \<Rightarrow> cgroup_state \<Rightarrow> (exec_result \<times> string) outcome \<times> cgroup_state" where
  "Execute k s req st =
     (if \<not> k_log_pipe_ok k then (Fail ''nsjail.Execute: create log pipe'', st)
      else
        let (memCgroup, st) = prepareMemCgroup k s st;
            cleanup = (\<lambda>st. if memCgroup = None then st else st\<lparr>cs_dirs := cleanup_named (exec_dir s) (cs_dirs st)\<rparr>);
            argv = exec_argv s req memCgroup
        in if \<not> k_start_ok k argv then (Fail ''nsjail.Execute: start nsjail'', cleanup st)
           else
             let obs = k_run k argv (er_Stdin req);
                 res = parseResult (ro_wait obs) (ro_wall_ms obs) (ro_log obs)
             in (Done (if memCgroup = None then res else measured (er_Limits req) obs res, ro_output obs),
                 cleanup (if memCgroup = None then st else leave s obs st)))"

text \<open>A run that leaves no process behind leaves no cgroup behind, whatever was there before.\<close>

fun quiet :: "cgroup \<Rightarrow> bool" where
  "quiet (Cgroup name busy children) \<longleftrightarrow> \<not> busy \<and> list_all quiet children"

lemma cleanup_quiet: "quiet g \<Longrightarrow> cleanupCgroupTree g = None"
  by (induction g) (auto simp: list_all_iff)

lemma Execute_cleans:
  assumes "fst (prepareMemCgroup k s st) \<noteq> None" and "k_log_pipe_ok k"
    and "quiet (Cgroup n (ro_busy obs) (ro_children obs))" and "obs = k_run k (exec_argv s req (fst (prepareMemCgroup k s st))) (er_Stdin req)"
  shows "exec_dir s \<notin> cg_name ` set (cs_dirs (snd (Execute k s req st)))"
proof -
  obtain base st1 where prep: "prepareMemCgroup k s st = (Some base, st1)" using assms(1) by (metis not_None_eq prod.collapse fst_conv)
  then obtain dirs where dirs: "cs_dirs st1 = dirs @ [Cgroup (exec_dir s) False []]" "exec_dir s \<notin> cg_name ` set dirs"
    by (auto simp: prepareMemCgroup_def Let_def split: if_splits)
  have keep: "exec_dir s \<notin> cg_name ` set (cleanup_named (exec_dir s) (map f ds))"
    if "\<And>g. g \<in> set ds \<Longrightarrow> cg_name (f g) = exec_dir s \<Longrightarrow> quiet (f g)" for f ds
    using that by (auto simp: cleanup_named_def cleanup_quiet split: if_splits option.splits)
  have quiet: "quiet (Cgroup (exec_dir s) (ro_busy obs) (ro_children obs))" using assms(3) by simp
  have "quiet g" if "g \<in> set (cs_dirs st1)" "cg_name g = exec_dir s" for g
    using that dirs by (auto simp: image_iff)
  from keep [of "cs_dirs st1" "\<lambda>g. g", OF this] have "exec_dir s \<notin> cg_name ` set (cleanup_named (exec_dir s) (cs_dirs st1))"
    by simp
  moreover have "exec_dir s \<notin> cg_name ` set (cleanup_named (exec_dir s) (cs_dirs (leave s obs st1)))"
    unfolding leave_def using quiet by (auto intro!: keep)
  ultimately show ?thesis using prep assms(2,4) by (auto simp: Execute_def Let_def)
qed

section \<open>What an accepting run means\<close>

lemma classify_not_ok: "xr_Status (classify_log l r) \<noteq> ExecOK"
  by (simp add: classify_log_def Let_def)

lemma parseResult_ok_iff: "xr_Status (parseResult w t l) = ExecOK \<longleftrightarrow> w = None"
  by (auto simp: parseResult_def Let_def classify_not_ok split: option.split wait_error.split)

lemma measured_ok_iff:
  "xr_Status (measured limits obs res) = ExecOK \<longleftrightarrow>
     xr_Status res = ExecOK \<and> \<not> cgroupOOMKilled (ro_files obs) \<and>
     \<not> (0 < readCgroupCPUMs (ro_files obs) \<and> 0 < rl_TimeLimitMs limits \<and>
        rl_TimeLimitMs limits < readCgroupCPUMs (ro_files obs))"
  by (auto simp: measured_def Let_def)

lemma measured_time:
  "xr_TimeUsedMs (measured limits obs res) =
     (if 0 < readCgroupCPUMs (ro_files obs) then readCgroupCPUMs (ro_files obs) else xr_TimeUsedMs res)"
  by (simp add: measured_def Let_def)

text \<open>
  A run of a request passes when the program ended cleanly and, where it was measured, nothing was
  killed for memory and it stayed within the limit on CPU time.
\<close>

definition run_of :: "kernel \<Rightarrow> ns_session \<Rightarrow> cgroup_state \<Rightarrow> exec_request \<Rightarrow> run_obs" where
  "run_of k s st req = k_run k (exec_argv s req (fst (prepareMemCgroup k s st))) (er_Stdin req)"

definition within_limits :: "kernel \<Rightarrow> ns_session \<Rightarrow> cgroup_state \<Rightarrow> exec_request \<Rightarrow> bool" where
  "within_limits k s st req \<longleftrightarrow>
     ro_wait (run_of k s st req) = None \<and>
     (fst (prepareMemCgroup k s st) \<noteq> None \<longrightarrow>
        \<not> cgroupOOMKilled (ro_files (run_of k s st req)) \<and>
        (0 < rl_TimeLimitMs (er_Limits req) \<longrightarrow>
           readCgroupCPUMs (ro_files (run_of k s st req)) \<le> rl_TimeLimitMs (er_Limits req)))"

lemma Execute_Done:
  "fst (Execute k s req st) = Done (res, out) \<Longrightarrow>
     out = ro_output (run_of k s st req) \<and>
     res = (let r = parseResult (ro_wait (run_of k s st req)) (ro_wall_ms (run_of k s st req)) (ro_log (run_of k s st req))
            in if fst (prepareMemCgroup k s st) = None then r else measured (er_Limits req) (run_of k s st req) r)"
  by (auto simp: Execute_def run_of_def Let_def split: prod.splits if_splits)

lemma Execute_ok_iff:
  assumes "fst (Execute k s req st) = Done (res, out)"
  shows "xr_Status res = ExecOK \<longleftrightarrow> within_limits k s st req"
  using Execute_Done [OF assms] by (auto simp: within_limits_def measured_ok_iff parseResult_ok_iff Let_def)

section \<open>Accepted submissions\<close>

definition case_request :: "judge_task \<Rightarrow> string list \<Rightarrow> judge_test_case \<Rightarrow> test_case_request" where
  "case_request task runCmd tc =
     \<lparr>tr_RunCmd = runCmd, tr_TestCase = tc, tr_JudgeConfig = jt_JudgeConfig task, tr_Limits = resolvedLimits task\<rparr>"

lemma judge_loop_pointwise:
  assumes "judge_loop env task orch runCmd i tcs results t m = Done (rs, t', m')"
  shows "\<exists>new. rs = results @ new \<and> length new \<le> length tcs \<and>
    (\<forall>j < length new. tcr_Status (new ! j) =
       (case orch (je_io env) (case_request task runCmd (tcs ! j)) (je_session env (i + j + 1)) of
          Done v \<Rightarrow> v_Status v | _ \<Rightarrow> StatusSE))"
  using assms
proof (induction env task orch runCmd i tcs results t m rule: judge_loop.induct)
  case (2 env task orch runCmd i tc tcs results t m)
  let ?run = "orch (je_io env) (case_request task runCmd tc) (je_session env (i + 1))"
  show ?case
  proof (cases "je_ctx_err env i")
    case True
    then show ?thesis using "2.prems" by auto
  next
    case False
    obtain r where r: "tcr_Status r = (case ?run of Done v \<Rightarrow> v_Status v | _ \<Rightarrow> StatusSE)"
      and rest: "\<exists>new. rs = (results @ [r]) @ new \<and> length new \<le> length tcs \<and>
        (\<forall>j < length new. tcr_Status (new ! j) =
           (case orch (je_io env) (case_request task runCmd (tcs ! j)) (je_session env (i + 1 + j + 1)) of
              Done v \<Rightarrow> v_Status v | _ \<Rightarrow> StatusSE))"
    proof (cases ?run)
      case (Done v)
      note run = Done [unfolded case_request_def]
      show ?thesis
        by (rule that [OF _ "2.IH"(1) [OF False run]]) (use "2.prems" False run in \<open>auto simp: case_request_def\<close>)
    next
      case (Fail e)
      note run = Fail [unfolded case_request_def]
      show ?thesis
        by (rule that [OF _ "2.IH"(2) [OF False run]]) (use "2.prems" False run in \<open>auto simp: case_request_def\<close>)
    qed (use "2.prems" False in \<open>auto simp: case_request_def\<close>)
    from rest obtain new where new: "rs = (results @ [r]) @ new" "length new \<le> length tcs"
      "\<And>j. j < length new \<Longrightarrow> tcr_Status (new ! j) =
         (case orch (je_io env) (case_request task runCmd (tcs ! j)) (je_session env (i + 1 + j + 1)) of
            Done v \<Rightarrow> v_Status v | _ \<Rightarrow> StatusSE)" by blast
    show ?thesis
      by (rule exI [of _ "r # new"]) (use r new in \<open>auto simp: nth_Cons split: nat.split\<close>)
  qed
qed auto

text \<open>An accepted result lists what the loop over the test cases found.\<close>

definition from_loop :: "judger_env \<Rightarrow> judge_task \<Rightarrow> result_message \<Rightarrow> bool" where
  "from_loop env task r \<longleftrightarrow> (\<exists>tcDir runCmd orch t m. \<exists>task'. task' = task\<lparr>jt_TestCases := map (resolve_case tcDir) (jt_TestCases task),
       jt_TimeLimitMs := scaled_limit (TimeLimitMultiplier (je_compiler env) (jt_Language task)) (jt_TimeLimitMs task)\<rparr> \<and>
     je_registry env (jt_JudgeType task) = Some orch \<and>
     judge_loop env task' orch runCmd 0 (jt_TestCases task') [] 0 0 = Done (rm_TestCaseResults r, t, m))"

definition publishes :: "(result_message \<Rightarrow> bool) \<Rightarrow> judger_state \<Rightarrow> unit outcome \<times> judger_state \<Rightarrow> bool" where
  "publishes P st res \<longleftrightarrow> js_published (snd res) = js_published st \<or>
     (\<exists>r. js_published (snd res) = js_published st @ [r] \<and> P r) \<and> (\<exists>u. fst res = Done u)"

lemma publishes_publish:
  "P r \<Longrightarrow> publishes P st (publishResult env b r st)"
  by (simp add: publishResult_def publishes_def)

lemma session_stages_loop:
  "publishes (\<lambda>r. rm_Status r = StatusAccepted \<longrightarrow> from_loop env task r) st (session_stages env task dir st)"
proof (cases "je_ensure env (jt_ProblemID task)")
  case (Done tcDir)
  let ?task = "task\<lparr>jt_TestCases := map (resolve_case tcDir) (jt_TestCases task)\<rparr>"
  let ?task' = "?task\<lparr>jt_TimeLimitMs := scaled_limit (TimeLimitMultiplier (je_compiler env) (jt_Language task)) (jt_TimeLimitMs task)\<rparr>"
  have loop: "publishes (\<lambda>r. rm_Status r = StatusAccepted \<longrightarrow> from_loop env task r) st (judging_stage env ?task compiled st)" for compiled
  proof (cases "je_registry env (jt_JudgeType task)")
    case orch: (Some orch)
    show ?thesis
    proof (cases "judge_loop env ?task' orch (cr_RunCmd compiled) 0 (jt_TestCases ?task') [] 0 0")
      case (Done x)
      then obtain rs t m where x: "judge_loop env ?task' orch (cr_RunCmd compiled) 0 (jt_TestCases ?task') [] 0 0 = Done (rs, t, m)"
        by (cases x) auto
      then have "from_loop env task r" if "rm_TestCaseResults r = rs" for r
        unfolding from_loop_def using orch that by fastforce
      then show ?thesis
        using x orch by (auto simp: judging_stage_def Orchestrator_Get_def intro!: publishes_publish split: prod.split)
    qed (use orch in \<open>simp_all add: judging_stage_def Orchestrator_Get_def publishes_def\<close>)
  qed (simp add: judging_stage_def Orchestrator_Get_def publishes_def)
  show ?thesis
    using Done loop
    by (auto simp: session_stages_def Let_def base_result_def publishes_def [of _ _ "(_, _)"] split: outcome.split
        intro!: publishes_publish)
qed (simp_all add: session_stages_def publishes_def)

lemma accepted_from_loop:
  assumes "decode msg = Some task" and "js_published (snd (handleMessage env msg st)) = js_published st @ new"
    and "r \<in> set new" and "rm_Status r = StatusAccepted"
  shows "from_loop env task r"
proof -
  obtain res st' where run: "runStateMachine env task st = (res, st')" by fastforce
  let ?dir = "path_Join (cfg_WorkBaseDir (je_cfg env)) (je_uuid env)"
  let ?st = "st\<lparr>js_dirs := ?dir # js_dirs st, js_sessions := js_sessions st + 1\<rparr>"
  obtain res' st'' where stages: "session_stages env task ?dir ?st = (res', st'')" by fastforce
  have "publishes (\<lambda>r. rm_Status r = StatusAccepted \<longrightarrow> from_loop env task r) st (res, st')"
  proof -
    have "js_published st'' = js_published st \<or>
      (\<exists>r. js_published st'' = js_published st @ [r] \<and> (rm_Status r = StatusAccepted \<longrightarrow> from_loop env task r)) \<and> (\<exists>u. res' = Done u)"
      using session_stages_loop [of env task ?st ?dir] unfolding stages publishes_def by simp
    then show ?thesis
      using run stages by (auto simp: runStateMachine_def publishes_def Let_def split: if_splits outcome.splits)
  qed
  then show ?thesis
    using assms
    by (cases res) (auto simp: handleMessage_def run publishes_def publishSE_def publishResult_def base_result_def split: if_splits)
qed

definition run_request :: "judge_task \<Rightarrow> string list \<Rightarrow> string \<Rightarrow> exec_request" where
  "run_request task runCmd input =
     \<lparr>er_Executable = hd runCmd, er_Args = tl runCmd, er_Stdin = Some input, er_Limits = resolvedLimits task\<rparr>"

lemma Standard_accepts:
  assumes "Standard_RunTestCase io (case_request task runCmd tc) session = Done v" and "v_Status v = StatusAccepted"
    and "\<And>req. s_Execute session req = fst (Execute k s req st)"
  shows "\<exists>input expected. io_files io (jtc_InputPath tc) = Some input \<and> io_files io (jtc_OutputPath tc) = Some expected \<and>
    within_limits k s st (run_request task runCmd input) \<and>
    tokensEqual (ro_output (run_of k s st (run_request task runCmd input))) expected"
proof -
  obtain input where input: "runCmd \<noteq> []" "io_files io (jtc_InputPath tc) = Some input"
    using assms(1) by (auto simp: Standard_RunTestCase_def case_request_def split: if_splits option.splits)
  let ?req = "run_request task runCmd input"
  have run: "run_contestant (case_request task runCmd tc) session input = fst (Execute k s ?req st)"
    by (simp add: run_contestant_def case_request_def run_request_def assms(3))
  have paths: "tr_RunCmd (case_request task runCmd tc) = runCmd" "tr_TestCase (case_request task runCmd tc) = tc"
    by (simp_all add: case_request_def)
  obtain res out where exec: "fst (Execute k s ?req st) = Done (res, out)"
    using assms(1) input by (auto simp: Standard_RunTestCase_def paths run split: outcome.splits)
  have no_fail: "execStatusToSubmission x \<noteq> StatusAccepted" for x by (cases x) (simp_all add: execStatusToSubmission_def)
  have "xr_Status res = ExecOK \<and> (\<exists>expected. io_files io (jtc_OutputPath tc) = Some expected \<and> tokensEqual out expected)"
    using assms(1,2) input exec no_fail
    by (auto simp: Standard_RunTestCase_def paths run failed_verdict_def split: if_splits option.splits)
  then show ?thesis using input Execute_ok_iff [OF exec] Execute_Done [OF exec] by blast
qed

section \<open>Properties\<close>


text \<open>One test case, answered in 0.9 of the allowed 1.0 seconds.\<close>

definition kernel0 :: kernel where
  "kernel0 = \<lparr>k_log_pipe_ok = True, k_mkdir_ok = (\<lambda>_. True), k_write_ok = (\<lambda>_ _. True),
     k_files = (\<lambda>_ f. if f = ''memory.peak'' then Some ''0'' else None), k_start_ok = (\<lambda>_. True),
     k_run = (\<lambda>_ _. \<lparr>ro_wait = None, ro_wall_ms = 1200, ro_log = [], ro_log_seen = [], ro_output = ''7'',
       ro_files = [''memory.peak'' \<mapsto> ''1048576'', ''cpu.stat'' \<mapsto> ''usage_usec 900000'', ''memory.events'' \<mapsto> ''oom_kill 0''],
       ro_busy = False, ro_children = []\<rparr>)\<rparr>"

definition session0 :: ns_session where
  "session0 = \<lparr>ns_id = ''s1'', ns_sbCfg = \<lparr>sc_WorkDir = ''/tmp/oj/u1'', sc_ExtraBindMounts = [], sc_MaxProcesses = 1, sc_NetworkEnabled = False\<rparr>,
     ns_nsCfg = \<lparr>nc_BinaryPath = ''/usr/local/bin/nsjail'', nc_SeccompPolicyPath = [], nc_ReadOnlyMounts = [],
       nc_CgroupParent = ''oj-judge'', nc_CgroupRoot = ''/sys/fs/cgroup'', nc_CgroupV2 = True, nc_DisableCgroup = False,
       nc_InteractorNoSandbox = False\<rparr>\<rparr>"

definition cgroups0 :: cgroup_state where
  "cgroups0 = \<lparr>cs_parent = True, cs_dirs = []\<rparr>"

definition judger0 :: judger_env where
  "judger0 = sample_judger\<lparr>je_session := (\<lambda>_. (sample_session ExecOK [])\<lparr>s_Execute := (\<lambda>req. fst (Execute kernel0 session0 req cgroups0))\<rparr>)\<rparr>"

lemma kernel0_files: "\<not> cgroupOOMKilled (ro_files (k_run kernel0 argv stdin))" "readCgroupCPUMs (ro_files (k_run kernel0 argv stdin)) = 900"
proof -
  have files: "ro_files (k_run kernel0 argv stdin) ''memory.events'' = Some ''oom_kill 0''"
    "ro_files (k_run kernel0 argv stdin) ''cpu.stat'' = Some ''usage_usec 900000''"
    by (simp_all add: kernel0_def)
  have "\<not> list_ex oom_line (split_lines ''oom_kill 0'')" by code_simp
  then show "\<not> cgroupOOMKilled (ro_files (k_run kernel0 argv stdin))" by (simp only: cgroupOOMKilled_def files option.case simp_thms)
  have line: "split_lines ''usage_usec 900000'' = [''usage_usec 900000'']" "words ''usage_usec 900000'' = [''usage_usec'', ''900000'']"
    by code_simp+
  have "show_int 900000 = ''900000''" by (simp add: show_int_def show_nat.simps digit_char_def, code_simp)
  then have "parse_int ''900000'' = Some 900000" using parse_show_int [of 900000] by simp
  then have "usage_usec (split_lines ''usage_usec 900000'') = 900" by (simp add: line go_quot_def del: parse_int.simps)
  then show "readCgroupCPUMs (ro_files (k_run kernel0 argv stdin)) = 900" by (simp only: readCgroupCPUMs_def files option.case)
qed

lemma kernel0_run:
  assumes "rl_TimeLimitMs (er_Limits req) = 1000"
  shows "\<exists>res. fst (Execute kernel0 session0 req cgroups0) = Done (res, ''7'') \<and> xr_Status res = ExecOK"
proof -
  have "\<exists>res. fst (Execute kernel0 session0 req cgroups0) = Done (res, ''7'')"
    by (auto simp: Execute_def Let_def split: prod.split) (simp_all add: kernel0_def)
  moreover have "within_limits kernel0 session0 cgroups0 req"
    using assms kernel0_files by (simp add: within_limits_def run_of_def) (simp add: kernel0_def)
  ultimately show ?thesis using Execute_ok_iff by blast
qed

lemma judger0_status: "map rm_Status (js_published (snd (handleMessage judger0 (Encoded sample_task) idle_judger))) = [StatusAccepted]"
proof -
  let ?req = "run_request (sample_task\<lparr>jt_TestCases := map (resolve_case []) (jt_TestCases sample_task), jt_TimeLimitMs := 1000\<rparr>) [''./main''] ''7''"
  obtain res where "fst (Execute kernel0 session0 ?req cgroups0) = Done (res, ''7'')" "xr_Status res = ExecOK"
    using kernel0_run [of ?req] by (auto simp: run_request_def resolvedLimits_def)
  then show ?thesis
    by (simp add: handleMessage_def runStateMachine_def session_stages_def judging_stage_def Compile_def
        judger0_def sample_judger_def sample_task_def sample_request_def idle_judger_def NewCompiler_def
        TimeLimitMultiplier_def scaled_limit_def run_request_def
        Orchestrator_Get_def node_registry_def Orchestrator_Register_def NewOrchestratorRegistry_def
        Standard_RunTestCase_def run_contestant_def sample_session_def sample_io_def tokensEqual_iff
        aggregate_def priority_def publishResult_def base_result_def Let_def)
qed


section \<open>What the options say\<close>

text \<open>
  The command line as a list of options, each with at most one value; the values \<open>nsjail\<close> is given
  for a flag; and the part of a command line that is options, up to the separator.
\<close>

type_synonym cli_option = "string \<times> string option"

definition flat :: "cli_option list \<Rightarrow> string list" where
  "flat os = concat (map (\<lambda>(f, v). case v of None \<Rightarrow> [f] | Some x \<Rightarrow> [f, x]) os)"

definition is_flag :: "string \<Rightarrow> bool" where
  "is_flag s \<longleftrightarrow> s \<noteq> [] \<and> hd s = CHR ''-''"

fun flag_values :: "string \<Rightarrow> string list \<Rightarrow> string list" where
  "flag_values f (a # b # xs) = (if a = f then [b] else []) @ flag_values f (b # xs)"
| "flag_values f _ = []"

definition options_of :: "string list \<Rightarrow> string list" where
  "options_of argv = takeWhile (\<lambda>a. a \<noteq> ''--'') (tl argv)"

definition values_of :: "string \<Rightarrow> cli_option list \<Rightarrow> string list" where
  "values_of f os = concat (map (\<lambda>(g, v). if g = f then case v of None \<Rightarrow> [] | Some x \<Rightarrow> [x] else []) os)"

definition proper :: "cli_option \<Rightarrow> bool" where
  "proper opt \<longleftrightarrow> is_flag (fst opt) \<and> fst opt \<noteq> ''--'' \<and>
     (case snd opt of None \<Rightarrow> fst opt \<in> {''--quiet'', ''--disable_proc'', ''--use_cgroupv2'', ''--iface_no_lo''} | Some x \<Rightarrow> \<not> is_flag x)"

lemma flat_append [simp]: "flat (os @ os') = flat os @ flat os'"
  by (simp add: flat_def)

lemma values_of_append [simp]: "values_of f (os @ os') = values_of f os @ values_of f os'"
  by (simp add: values_of_def)

lemma flag_values_flat:
  assumes "list_all proper os" and "is_flag f" and "f \<notin> {''--quiet'', ''--disable_proc'', ''--use_cgroupv2'', ''--iface_no_lo''}"
  shows "flag_values f (flat os) = values_of f os"
  using assms(1)
proof (induction os)
  case (Cons opt os)
  obtain g v where opt: "opt = (g, v)" by (cases opt)
  have skip: "flag_values f (a # xs) = flag_values f xs" if "a \<noteq> f" for a xs
    using that by (cases xs) auto
  show ?case
  proof (cases v)
    case None
    then have "g \<noteq> f" using Cons.prems assms(3) by (auto simp: opt proper_def)
    then show ?thesis using Cons None by (simp add: opt flat_def values_of_def skip)
  next
    case (Some x)
    then have "x \<noteq> f" using Cons.prems assms(2) by (auto simp: opt proper_def)
    then show ?thesis using Cons Some by (simp add: opt flat_def values_of_def skip)
  qed
qed (simp add: flat_def values_of_def)

lemma options_flat:
  assumes "list_all proper os"
  shows "options_of (b # flat os @ ''--'' # rest) = flat os"
proof -
  have "a \<noteq> ''--''" if "a \<in> set (flat os)" for a
    using that assms by (fastforce simp: flat_def proper_def is_flag_def list_all_iff split: option.splits)
  then show ?thesis by (simp add: options_of_def takeWhile_append2)
qed

definition limit_opt :: "bool \<Rightarrow> string \<Rightarrow> int \<Rightarrow> cli_option list" where
  "limit_opt given flag n = (if given then [(flag, Some (show_int n))] else [])"

definition mounts_of :: "nsjail_config \<Rightarrow> string list" where
  "mounts_of cfg = (if nc_ReadOnlyMounts cfg = [] then defaultReadOnlyMounts else nc_ReadOnlyMounts cfg)"

definition base_options :: "nsjail_config \<Rightarrow> session_config \<Rightarrow> resource_limits \<Rightarrow> cli_option list" where
  "base_options cfg scfg limits =
     [(''--mode'', Some ''o''), (''--log_fd'', Some ''3''), (''--quiet'', None), (''--disable_proc'', None)] @
     limit_opt (rl_WallTimeLimitMs limits > 0) ''--time_limit'' (ceilDiv (rl_WallTimeLimitMs limits) 1000) @
     limit_opt (rl_TimeLimitMs limits > 0) ''--rlimit_cpu'' (ceilDiv (rl_TimeLimitMs limits) 1000) @
     limit_opt (rl_MemLimitKB limits > 0 \<and> \<not> nc_DisableCgroup cfg) ''--cgroup_mem_max'' (wrap64 (rl_MemLimitKB limits * 1024)) @
     limit_opt (rl_MemLimitKB limits > 0 \<and> \<not> nc_DisableCgroup cfg \<and> \<not> nc_CgroupV2 cfg) ''--cgroup_mem_memsw_max''
       (wrap64 (rl_MemLimitKB limits * 1024)) @
     limit_opt (rl_MemLimitKB limits > 0) ''--rlimit_as'' (go_quot (wrap64 (rl_MemLimitKB limits * 2)) 1024) @
     limit_opt (max_pids scfg limits > 0 \<and> \<not> nc_DisableCgroup cfg) ''--cgroup_pids_max'' (max_pids scfg limits) @
     limit_opt (max_pids scfg limits > 0) ''--rlimit_nproc'' (max_pids scfg limits) @
     limit_opt (rl_FileSizeKB limits > 0) ''--rlimit_fsize'' (ceilDiv (rl_FileSizeKB limits) 1024) @
     limit_opt (rl_MaxOpenFiles limits > 0) ''--rlimit_nofile'' (rl_MaxOpenFiles limits) @
     (if nc_DisableCgroup cfg then [] else if nc_CgroupV2 cfg then [(''--use_cgroupv2'', None)]
      else if nc_CgroupParent cfg \<noteq> [] then map (\<lambda>f. (f, Some (nc_CgroupParent cfg)))
        [''--cgroup_mem_parent'', ''--cgroup_pids_parent'', ''--cgroup_cpu_parent''] else []) @
     (if \<not> sc_NetworkEnabled scfg then [(''--iface_no_lo'', None)] else []) @
     map (\<lambda>m. (''-R'', Some m)) (mounts_of cfg) @
     map (\<lambda>e. (''--env'', Some e)) [''PATH=/usr/local/bin:/usr/bin:/bin'', ''TMPDIR=/workspace'', ''HOME=/workspace'', ''LANG=C.UTF-8''] @
     [(''-B'', Some (sc_WorkDir scfg @ '':/workspace'')), (''-D'', Some ''/workspace'')] @
     (if nc_SeccompPolicyPath cfg \<noteq> [] then [(''--seccomp_policy'', Some (nc_SeccompPolicyPath cfg))] else [])"

lemma flat_limit_opt: "flat (limit_opt b f n) = limit_flag b f n"
  by (simp add: flat_def limit_opt_def limit_flag_def)

lemma flat_values: "flat (map (\<lambda>m. (f, Some m)) ms) = concat (map (\<lambda>m. [f, m]) ms)"
  by (simp add: flat_def comp_def)

lemma flat_cgroup:
  "flat (if nc_DisableCgroup cfg then [] else if nc_CgroupV2 cfg then [(''--use_cgroupv2'', None)]
      else if nc_CgroupParent cfg \<noteq> [] then map (\<lambda>f. (f, Some (nc_CgroupParent cfg)))
        [''--cgroup_mem_parent'', ''--cgroup_pids_parent'', ''--cgroup_cpu_parent''] else []) = cgroup_args cfg"
  by (simp add: flat_def cgroup_args_def)

lemma flat_single [simp]:
  "flat [] = []" "flat ((f, None) # os) = f # flat os" "flat ((f, Some x) # os) = f # x # flat os"
  by (simp_all add: flat_def)

lemma flat_mem:
  "flat (limit_opt (rl_MemLimitKB limits > 0 \<and> \<not> nc_DisableCgroup cfg) ''--cgroup_mem_max'' (wrap64 (rl_MemLimitKB limits * 1024))) @
   flat (limit_opt (rl_MemLimitKB limits > 0 \<and> \<not> nc_DisableCgroup cfg \<and> \<not> nc_CgroupV2 cfg) ''--cgroup_mem_memsw_max''
       (wrap64 (rl_MemLimitKB limits * 1024))) @
   flat (limit_opt (rl_MemLimitKB limits > 0) ''--rlimit_as'' (go_quot (wrap64 (rl_MemLimitKB limits * 2)) 1024)) @ rest =
   mem_args cfg limits @ rest"
  by (simp only: flat_limit_opt limit_flag_def mem_args_def Let_def split: if_split) simp

lemma flat_pids:
  "flat (limit_opt (max_pids scfg limits > 0 \<and> \<not> nc_DisableCgroup cfg) ''--cgroup_pids_max'' (max_pids scfg limits)) @
   flat (limit_opt (max_pids scfg limits > 0) ''--rlimit_nproc'' (max_pids scfg limits)) @ rest = pid_args cfg scfg limits @ rest"
  by (simp only: flat_limit_opt limit_flag_def pid_args_def Let_def split: if_split) simp

lemma flat_net: "flat (if b then [(f, None)] else []) = (if b then [f] else [])"
  "flat (if b then [(f, Some x)] else []) = (if b then [f, x] else [])"
  by simp_all

lemma flat_env: "flat (map (\<lambda>e. (''--env'', Some e)) [''PATH=/usr/local/bin:/usr/bin:/bin'', ''TMPDIR=/workspace'', ''HOME=/workspace'', ''LANG=C.UTF-8'']) = env_args"
  by (simp only: list.map flat_single env_args_def)

lemma buildBaseArgs_flat:
  assumes "sc_ExtraBindMounts scfg = []"
  shows "buildBaseArgs cfg scfg limits = flat (base_options cfg scfg limits)"
proof -
  have mounts: "mount_args cfg scfg = flat (map (\<lambda>m. (''-R'', Some m)) (mounts_of cfg))"
    by (simp only: mount_args_def assms mounts_of_def flat_values list.map concat.simps append_Nil2)
  show ?thesis
    unfolding buildBaseArgs_def base_options_def flat_append flat_cgroup flat_mem flat_pids flat_net flat_env mounts
    by (simp only: flat_single flat_limit_opt time_args_def file_args_def append_assoc append_Cons append_Nil)
qed

definition limits_positive :: "resource_limits \<Rightarrow> bool" where
  "limits_positive limits \<longleftrightarrow> list_all (\<lambda>n. 0 < n \<and> n < 2 ^ 50)
     [rl_TimeLimitMs limits, rl_WallTimeLimitMs limits, rl_MemLimitKB limits, rl_FileSizeKB limits, rl_MaxOpenFiles limits,
      rl_MaxChildProcesses limits]"

definition plain_config :: "nsjail_config \<Rightarrow> session_config \<Rightarrow> bool" where
  "plain_config cfg scfg \<longleftrightarrow> sc_ExtraBindMounts scfg = [] \<and> \<not> sc_NetworkEnabled scfg \<and> \<not> is_flag (sc_WorkDir scfg) \<and>
     list_all (\<lambda>v. \<not> is_flag v) (nc_CgroupParent cfg # nc_SeccompPolicyPath cfg # nc_ReadOnlyMounts cfg)"

lemma ceilDiv_bounds:
  assumes "0 < a" and "a < 2 ^ 50" and "0 < b" and "b < 2 ^ 20"
  shows "b * (ceilDiv a b - 1) < a \<and> a \<le> b * ceilDiv a b \<and> 0 < ceilDiv a b"
proof -
  have "ceilDiv a b = (a + b - 1) div b" using assms by (simp add: ceilDiv_def go_quot_def)
  moreover have "b * ((a + b - 1) div b) = (a + b - 1) - (a + b - 1) mod b" by (simp add: minus_mod_eq_mult_div)
  moreover have "0 \<le> (a + b - 1) mod b" "(a + b - 1) mod b < b" using assms by simp_all
  moreover have "0 < (a + b - 1) div b" using assms by (simp add: pos_imp_zdiv_pos_iff)
  ultimately show ?thesis by (simp add: right_diff_distrib)
qed

lemma show_int_no_flag: "0 \<le> n \<Longrightarrow> \<not> is_flag (show_int n)"
proof -
  assume "0 \<le> n"
  then have "show_int n = show_nat (nat n)" by (simp add: show_int_def)
  then show ?thesis using show_nat_head [of "nat n"] by (cases "show_nat (nat n)") (auto simp: is_flag_def)
qed

lemma proper_limit_opt: "is_flag f \<Longrightarrow> f \<noteq> ''--'' \<Longrightarrow> (b \<Longrightarrow> 0 \<le> n) \<Longrightarrow> list_all proper (limit_opt b f n)"
  by (simp add: limit_opt_def proper_def show_int_no_flag)

lemma proper_values: "is_flag f \<Longrightarrow> f \<noteq> ''--'' \<Longrightarrow> list_all (\<lambda>v. \<not> is_flag v) ms \<Longrightarrow> list_all proper (map (\<lambda>m. (f, Some m)) ms)"
  by (induction ms) (simp_all add: proper_def)

lemma base_options_proper:
  assumes "limits_positive limits" and "plain_config cfg scfg"
  shows "list_all proper (base_options cfg scfg limits)"
proof -
  have pos: "0 \<le> ceilDiv (rl_WallTimeLimitMs limits) 1000" "0 \<le> ceilDiv (rl_TimeLimitMs limits) 1000"
    "0 \<le> ceilDiv (rl_FileSizeKB limits) 1024" "0 \<le> wrap64 (rl_MemLimitKB limits * 1024)"
    "0 \<le> go_quot (wrap64 (rl_MemLimitKB limits * 2)) 1024"
    using assms(1) ceilDiv_bounds [of "rl_WallTimeLimitMs limits" 1000] ceilDiv_bounds [of "rl_TimeLimitMs limits" 1000]
      ceilDiv_bounds [of "rl_FileSizeKB limits" 1024]
    by (simp_all add: limits_positive_def go_quot_def pos_imp_zdiv_nonneg_iff)
  have work: "\<not> is_flag (sc_WorkDir scfg @ '':/workspace'')"
    using assms(2) by (cases "sc_WorkDir scfg") (auto simp: plain_config_def is_flag_def)
  have mounts: "list_all (\<lambda>v. \<not> is_flag v) (mounts_of cfg)"
    using assms(2) by (auto simp: mounts_of_def plain_config_def) (simp add: defaultReadOnlyMounts_def is_flag_def)
  have flags: "is_flag (CHR ''-'' # f)" for f by (simp add: is_flag_def)
  have fixed: "list_all proper [(''--mode'', Some ''o''), (''--log_fd'', Some ''3''), (''--quiet'', None), (''--disable_proc'', None)]"
    "list_all proper (map (\<lambda>e. (''--env'', Some e)) [''PATH=/usr/local/bin:/usr/bin:/bin'', ''TMPDIR=/workspace'', ''HOME=/workspace'', ''LANG=C.UTF-8''])"
    "list_all proper [(''-D'', Some ''/workspace'')]"
    by (simp_all add: proper_def is_flag_def)
  have paths: "\<not> is_flag (nc_CgroupParent cfg)" "\<not> is_flag (nc_SeccompPolicyPath cfg)"
    using assms(2) by (simp_all add: plain_config_def)
  show ?thesis
    unfolding base_options_def list_all_append
    using fixed mounts work paths pos
    by (intro conjI proper_limit_opt proper_values flags) (auto simp: proper_def flags)
qed

lemma values_of_limit: "values_of f (limit_opt b g n) = (if g = f \<and> b then [show_int n] else [])"
  by (simp add: values_of_def limit_opt_def)

lemma values_of_values: "values_of f (map (\<lambda>m. (g, Some m)) ms) = (if g = f then ms else [])"
  by (induction ms) (simp_all add: values_of_def)

lemma values_of_cons: "values_of f ((g, v) # os) = (if g = f then (case v of None \<Rightarrow> [] | Some x \<Rightarrow> [x]) else []) @ values_of f os"
  "values_of f [] = []"
  by (simp_all add: values_of_def)

lemma values_of_if: "values_of f (if b then os else os') = (if b then values_of f os else values_of f os')"
  by simp

lemma base_option_values:
  "values_of ''-B'' (base_options cfg scfg limits) = [sc_WorkDir scfg @ '':/workspace'']"
  "values_of ''-R'' (base_options cfg scfg limits) = mounts_of cfg"
  "values_of ''--pass_fd'' (base_options cfg scfg limits) = []"
  "values_of ''--rlimit_cpu'' (base_options cfg scfg limits) =
     (if rl_TimeLimitMs limits > 0 then [show_int (ceilDiv (rl_TimeLimitMs limits) 1000)] else [])"
  "values_of ''--time_limit'' (base_options cfg scfg limits) =
     (if rl_WallTimeLimitMs limits > 0 then [show_int (ceilDiv (rl_WallTimeLimitMs limits) 1000)] else [])"
  "values_of ''--cgroup_mem_max'' (base_options cfg scfg limits) =
     (if rl_MemLimitKB limits > 0 \<and> \<not> nc_DisableCgroup cfg then [show_int (wrap64 (rl_MemLimitKB limits * 1024))] else [])"
  "values_of ''--rlimit_nproc'' (base_options cfg scfg limits) = (if max_pids scfg limits > 0 then [show_int (max_pids scfg limits)] else [])"
  by (simp_all add: base_options_def values_of_limit values_of_values values_of_cons values_of_if)



end
