(* ===== verification/Nsjail_Group.thy ===== *)
theory Nsjail_Group
  imports Nsjail
begin

text \<open>
  Package \<open>sandbox/nsjail\<close>, files \<open>pair.go\<close> and \<open>group.go\<close>: running a contestant against an interactor and
  running a group of processes connected by channels. The state is the set of pipe ends the judger
  holds and the processes it has started, each with its arguments and descriptor table. Which calls
  fail and how the processes behave together is a parameter.
\<close>

section \<open>Pipe ends, processes and what is outside\<close>

text \<open>The two ends of the pipe of channel \<open>i\<close> and of the log pipe of process \<open>i\<close>.\<close>

datatype pipe_end = ChanR nat | ChanW nat | LogR nat | LogW nat

record child =
  pc_argv :: "string list"
  pc_fds :: "(nat \<times> pipe_end) list"

record fd_state =
  pf_open :: "pipe_end list"
  pf_children :: "child list"

record group_kernel =
  gk_input_ok :: bool
  gk_pipe_ok :: "pipe_end \<Rightarrow> bool"
  gk_start_ok :: "string list \<Rightarrow> bool"
  gk_run :: "child list \<Rightarrow> nat \<Rightarrow> run_obs"
  gk_grader :: "exec_request \<Rightarrow> child list \<Rightarrow> string option"
  gk_total_ms :: "child list \<Rightarrow> int"

definition closeAll :: "pipe_end list \<Rightarrow> fd_state \<Rightarrow> fd_state" where
  "closeAll files st = st\<lparr>pf_open := filter (\<lambda>f. f \<notin> set files) (pf_open st)\<rparr>"

definition open_pipe :: "pipe_end list \<Rightarrow> fd_state \<Rightarrow> fd_state" where
  "open_pipe ends st = st\<lparr>pf_open := pf_open st @ ends\<rparr>"

definition kill_all :: "fd_state \<Rightarrow> fd_state" where
  "kill_all st = st\<lparr>pf_children := []\<rparr>"

definition result_of :: "run_obs \<Rightarrow> string \<Rightarrow> exec_result" where
  "result_of obs nsjailLog = parseResult (ro_wait obs) (ro_wall_ms obs) nsjailLog"

section \<open>Two processes: contestant and interactor\<close>

text \<open>Channel 0 leads from the contestant to the interactor, channel 1 back; process 0 is the contestant.\<close>

definition contestant_child :: "ns_session \<Rightarrow> pair_exec_request \<Rightarrow> child" where
  "contestant_child s req =
     \<lparr>pc_argv = exec_argv s (pr_Contestant req) None, pc_fds = [(0, ChanR 1), (1, ChanW 0), (3, LogW 0)]\<rparr>"

definition interactor_config :: "ns_session \<Rightarrow> session_config" where
  "interactor_config s =
     \<lparr>sc_WorkDir = sc_WorkDir (ns_sbCfg s), sc_ExtraBindMounts = sc_ExtraBindMounts (ns_sbCfg s),
      sc_MaxProcesses = 1, sc_NetworkEnabled = False\<rparr>"

definition interactor_child :: "ns_session \<Rightarrow> pair_exec_request \<Rightarrow> child" where
  "interactor_child s req =
     (if nc_InteractorNoSandbox (ns_nsCfg s) then
        \<lparr>pc_argv = er_Executable (pr_Interactor req) # er_Args (pr_Interactor req) @ [''/workspace/test_input''],
         pc_fds = [(0, ChanR 0), (1, ChanW 1)]\<rparr>
      else
        \<lparr>pc_argv = nc_BinaryPath (ns_nsCfg s) # buildBaseArgs (ns_nsCfg s) (interactor_config s) (pr_InteractorLimits req) @
           [''--'', er_Executable (pr_Interactor req)] @ er_Args (pr_Interactor req) @ [''/workspace/test_input''],
         pc_fds = [(0, ChanR 0), (1, ChanW 1), (3, LogW 1)]\<rparr>)"

definition channel_ends :: "nat \<Rightarrow> pipe_end list" where
  "channel_ends m = concat (map (\<lambda>i. [ChanR i, ChanW i]) [0..<m])"

text \<open>Up to the moment both processes run and the judger has closed its copies of their ends.\<close>

definition pair_started :: "group_kernel \<Rightarrow> ns_session \<Rightarrow> pair_exec_request \<Rightarrow> fd_state \<Rightarrow> error option \<times> fd_state" where
  "pair_started k s req st =
     (if \<not> gk_input_ok k then (Some ''nsjail.ExecutePair: write test input'', st)
      else if \<not> gk_pipe_ok k (ChanR 0) then (Some ''nsjail.ExecutePair: pipe c2i'', st)
      else
        let st = open_pipe [ChanR 0, ChanW 0] st
        in if \<not> gk_pipe_ok k (ChanR 1) then (Some ''nsjail.ExecutePair: pipe i2c'', closeAll [ChanR 0, ChanW 0] st)
           else
             let st = open_pipe [ChanR 1, ChanW 1] st; chans = [ChanR 0, ChanW 0, ChanR 1, ChanW 1]
             in if \<not> gk_pipe_ok k (LogR 0) then (Some ''nsjail.ExecutePair: contestant log pipe'', closeAll chans st)
                else
                  let st = open_pipe [LogR 0, LogW 0] st
                  in if \<not> gk_pipe_ok k (LogR 1)
                     then (Some ''nsjail.ExecutePair: interactor log pipe'', closeAll (chans @ [LogR 0, LogW 0]) st)
                     else
                       let st = open_pipe [LogR 1, LogW 1] st; all = chans @ [LogR 0, LogW 0, LogR 1, LogW 1];
                           c = contestant_child s req; i = interactor_child s req
                       in if \<not> gk_start_ok k (pc_argv c) then (Some ''nsjail.ExecutePair: start contestant'', closeAll all st)
                          else if \<not> gk_start_ok k (pc_argv i)
                          then (Some ''nsjail.ExecutePair: start interactor'', closeAll all st)
                          else (None, closeAll (chans @ [LogW 0, LogW 1]) (st\<lparr>pf_children := [c, i]\<rparr>)))"

definition ExecutePair :: "group_kernel \<Rightarrow> ns_session \<Rightarrow> pair_exec_request \<Rightarrow> fd_state \<Rightarrow> pair_exec_result outcome \<times> fd_state" where
  "ExecutePair k s req st =
     (case pair_started k s req st of
        (Some e, st) \<Rightarrow> (Fail e, st)
      | (None, st) \<Rightarrow>
          let c = gk_run k (pf_children st) 0; i = gk_run k (pf_children st) 1
          in (Done \<lparr>px_Contestant = result_of c (ro_log c), px_Interactor = result_of i (ro_log i),
                    px_InteractorOutput = ro_output i, px_WallTimeMs = gk_total_ms k (pf_children st)\<rparr>,
              kill_all st))"

section \<open>A group of processes\<close>

record proc_pipes =
  pp_stdin :: "pipe_end option"
  pp_stdout :: "pipe_end option"
  pp_extraFiles :: "pipe_end list"
  pp_extraFDNos :: "nat list"
  pp_extraArgs :: "string list"

definition no_pipes :: proc_pipes where
  "no_pipes = \<lparr>pp_stdin = None, pp_stdout = None, pp_extraFiles = [], pp_extraFDNos = [], pp_extraArgs = []\<rparr>"

definition add_extra :: "pipe_end \<Rightarrow> proc_pipes \<Rightarrow> proc_pipes" where
  "add_extra f pp =
     (let extraFD = 4 + length (pp_extraFiles pp)
      in pp\<lparr>pp_extraFiles := pp_extraFiles pp @ [f], pp_extraFDNos := pp_extraFDNos pp @ [extraFD],
            pp_extraArgs := pp_extraArgs pp @ [show_nat extraFD]\<rparr>)"

definition give_read :: "pipe_end \<Rightarrow> proc_pipes \<Rightarrow> proc_pipes" where
  "give_read f pp = (if pp_stdin pp = None then pp\<lparr>pp_stdin := Some f\<rparr> else add_extra f pp)"

definition give_write :: "pipe_end \<Rightarrow> proc_pipes \<Rightarrow> proc_pipes" where
  "give_write f pp = (if pp_stdout pp = None then pp\<lparr>pp_stdout := Some f\<rparr> else add_extra f pp)"

definition in_group :: "nat \<Rightarrow> int \<Rightarrow> bool" where
  "in_group n i \<longleftrightarrow> 0 \<le> i \<and> i < int n"

fun assign_fds :: "nat \<Rightarrow> nat \<Rightarrow> channel_spec list \<Rightarrow> proc_pipes list \<Rightarrow> error + proc_pipes list" where
  "assign_fds n ci [] pp = Inr pp"
| "assign_fds n ci (ch # chs) pp =
     (if \<not> in_group n (ch_To ch) then Inl ''nsjail.ExecuteGroup: channel: To out of range''
      else
        let to = nat (ch_To ch); pp = pp[to := give_read (ChanR ci) (pp ! to)]
        in if \<not> in_group n (ch_From ch) then Inl ''nsjail.ExecuteGroup: channel: From out of range''
           else
             let from = nat (ch_From ch)
             in assign_fds n (ci + 1) chs (pp[from := give_write (ChanW ci) (pp ! from)]))"

fun create_pipes :: "group_kernel \<Rightarrow> nat \<Rightarrow> channel_spec list \<Rightarrow> fd_state \<Rightarrow> error option \<times> fd_state" where
  "create_pipes k i [] st = (None, st)"
| "create_pipes k i (ch # chs) st =
     (if \<not> gk_pipe_ok k (ChanR i) then (Some ''nsjail.ExecuteGroup: pipe'', closeAll (channel_ends i) st)
      else create_pipes k (i + 1) chs (open_pipe [ChanR i, ChanW i] st))"

definition group_child :: "ns_session \<Rightarrow> nat \<Rightarrow> exec_request \<Rightarrow> proc_pipes \<Rightarrow> child" where
  "group_child s i req pp =
     \<lparr>pc_argv = nc_BinaryPath (ns_nsCfg s) # buildBaseArgs (ns_nsCfg s) (ns_sbCfg s) (er_Limits req) @
        buildPassFDArgs (pp_extraFDNos pp) @ [''--'', er_Executable req] @ er_Args req @ [show_nat i] @ pp_extraArgs pp,
      pc_fds = (case pp_stdin pp of None \<Rightarrow> [] | Some f \<Rightarrow> [(0, f)]) @ (case pp_stdout pp of None \<Rightarrow> [] | Some f \<Rightarrow> [(1, f)]) @
        zip [3..<4 + length (pp_extraFiles pp)] (LogW i # pp_extraFiles pp)\<rparr>"

fun start_procs :: "group_kernel \<Rightarrow> ns_session \<Rightarrow> nat \<Rightarrow> nat \<Rightarrow> exec_request list \<Rightarrow> proc_pipes list \<Rightarrow> fd_state \<Rightarrow> error option \<times> fd_state" where
  "start_procs k s m i (req # reqs) (pp # pps) st =
     (if \<not> gk_pipe_ok k (LogR i)
      then (Some ''nsjail.ExecuteGroup: log pipe'', kill_all (closeAll (channel_ends m @ map LogW [0..<i]) st))
      else
        let st = open_pipe [LogR i, LogW i] st; c = group_child s i req pp
        in if \<not> gk_start_ok k (pc_argv c)
           then (Some ''nsjail.ExecuteGroup: start process'',
                 kill_all (closeAll (channel_ends m @ map LogW [0..<i + 1] @ map LogR [0..<i + 1]) st))
           else start_procs k s m (i + 1) reqs pps (st\<lparr>pf_children := pf_children st @ [c]\<rparr>))"
| "start_procs k s m i _ _ st = (None, st)"

definition group_started :: "group_kernel \<Rightarrow> ns_session \<Rightarrow> group_exec_request \<Rightarrow> fd_state \<Rightarrow> error option \<times> fd_state" where
  "group_started k s req st =
     (let n = length (gr_Processes req); m = length (gr_Channels req)
      in if n = 0 then (Some ''nsjail.ExecuteGroup: no processes specified'', st)
         else case create_pipes k 0 (gr_Channels req) st of
           (Some e, st) \<Rightarrow> (Some e, st)
         | (None, st) \<Rightarrow>
             (case assign_fds n 0 (gr_Channels req) (replicate n no_pipes) of
                Inl e \<Rightarrow> (Some e, closeAll (channel_ends m) st)
              | Inr pps \<Rightarrow>
                  (case start_procs k s m 0 (gr_Processes req) pps st of
                     (Some e, st) \<Rightarrow> (Some e, st)
                   | (None, st) \<Rightarrow> (None, closeAll (channel_ends m @ map LogW [0..<n]) st))))"

text \<open>
  The results are made up when a process has been waited for, from what has been read of its log by
  then; the log readers close their ends when the processes are gone. A grader that cannot be
  started is done without.
\<close>

definition ExecuteGroup :: "group_kernel \<Rightarrow> ns_session \<Rightarrow> group_exec_request \<Rightarrow> fd_state \<Rightarrow> group_exec_result outcome \<times> fd_state" where
  "ExecuteGroup k s req st =
     (case group_started k s req st of
        (Some e, st) \<Rightarrow> (Fail e, st)
      | (None, st) \<Rightarrow>
          let n = length (gr_Processes req); cs = pf_children st
          in (Done \<lparr>gx_Processes = map (\<lambda>i. result_of (gk_run k cs i) (ro_log_seen (gk_run k cs i))) [0..<n],
                    gx_GraderOutput = (case gr_GraderProcess req of None \<Rightarrow> []
                      | Some g \<Rightarrow> (case gk_grader k g cs of None \<Rightarrow> [] | Some out \<Rightarrow> out)),
                    gx_WallTimeMs = gk_total_ms k cs\<rparr>,
              kill_all (closeAll (map LogR [0..<n]) st)))"

section \<open>The session\<close>

definition nsjail_session :: "kernel \<Rightarrow> group_kernel \<Rightarrow> ns_session \<Rightarrow> cgroup_state \<Rightarrow> fd_state \<Rightarrow> session" where
  "nsjail_session k gk s cg fs =
     \<lparr>s_Execute = (\<lambda>req. fst (Execute k s req cg)), s_ExecutePair = (\<lambda>req. fst (ExecutePair gk s req fs)),
      s_ExecuteGroup = (\<lambda>req. fst (ExecuteGroup gk s req fs))\<rparr>"

section \<open>Who holds which end\<close>

fun ends_of :: "nat \<Rightarrow> nat \<Rightarrow> channel_spec list \<Rightarrow> pipe_end list" where
  "ends_of p ci [] = []"
| "ends_of p ci (ch # chs) =
     (if ch_To ch = int p then [ChanR ci] else []) @ (if ch_From ch = int p then [ChanW ci] else []) @ ends_of p (ci + 1) chs"

lemma ends_of_iff:
  "ChanR c \<in> set (ends_of p ci chs) \<longleftrightarrow> (\<exists>j < length chs. c = ci + j \<and> ch_To (chs ! j) = int p)"
  "ChanW c \<in> set (ends_of p ci chs) \<longleftrightarrow> (\<exists>j < length chs. c = ci + j \<and> ch_From (chs ! j) = int p)"
  "LogR c \<notin> set (ends_of p ci chs)" "LogW c \<notin> set (ends_of p ci chs)"
proof -
  have unfold: "(\<exists>j < length (ch # chs). c = ci + j \<and> P ((ch # chs) ! j)) \<longleftrightarrow>
      c = ci \<and> P ch \<or> (\<exists>j < length chs. c = ci + 1 + j \<and> P (chs ! j))" for ch P ci and chs :: "channel_spec list"
    by (auto simp: less_Suc_eq_0_disj)
  show "ChanR c \<in> set (ends_of p ci chs) \<longleftrightarrow> (\<exists>j < length chs. c = ci + j \<and> ch_To (chs ! j) = int p)"
    by (induction p ci chs rule: ends_of.induct) (simp, subst unfold, auto)
  show "ChanW c \<in> set (ends_of p ci chs) \<longleftrightarrow> (\<exists>j < length chs. c = ci + j \<and> ch_From (chs ! j) = int p)"
    by (induction p ci chs rule: ends_of.induct) (simp, subst unfold, auto)
  show "LogR c \<notin> set (ends_of p ci chs)" "LogW c \<notin> set (ends_of p ci chs)"
    by (induction p ci chs rule: ends_of.induct) auto
qed

definition given :: "proc_pipes \<Rightarrow> pipe_end list" where
  "given pp = (case pp_stdin pp of None \<Rightarrow> [] | Some f \<Rightarrow> [f]) @ (case pp_stdout pp of None \<Rightarrow> [] | Some f \<Rightarrow> [f]) @ pp_extraFiles pp"

definition is_read :: "pipe_end \<Rightarrow> bool" where
  "is_read f = (case f of ChanR _ \<Rightarrow> True | _ \<Rightarrow> False)"

definition is_write :: "pipe_end \<Rightarrow> bool" where
  "is_write f = (case f of ChanW _ \<Rightarrow> True | _ \<Rightarrow> False)"

definition pipes_ok :: "proc_pipes \<Rightarrow> bool" where
  "pipes_ok pp \<longleftrightarrow> pp_extraFDNos pp = [4..<4 + length (pp_extraFiles pp)] \<and>
     pp_extraArgs pp = map show_nat (pp_extraFDNos pp) \<and>
     (case pp_stdin pp of None \<Rightarrow> True | Some f \<Rightarrow> is_read f) \<and> (case pp_stdout pp of None \<Rightarrow> True | Some f \<Rightarrow> is_write f) \<and>
     list_all (\<lambda>f. is_read f \<or> is_write f) (pp_extraFiles pp)"

lemma given_give [simp]:
  "mset (given (give_read f pp)) = add_mset f (mset (given pp))"
  "mset (given (give_write f pp)) = add_mset f (mset (given pp))"
  by (auto simp: given_def give_read_def give_write_def add_extra_def Let_def split: option.split)

lemma pipes_ok_give [simp]:
  "pipes_ok pp \<Longrightarrow> pipes_ok (give_read (ChanR c) pp)" "pipes_ok pp \<Longrightarrow> pipes_ok (give_write (ChanW c) pp)"
  using upt_Suc_append [of 4 "4 + length (pp_extraFiles pp)"]
  by (auto simp: pipes_ok_def give_read_def give_write_def add_extra_def is_read_def is_write_def Let_def split: option.split)

lemma assign_fds_given:
  assumes "assign_fds n ci chs pps = Inr pps'" and "length pps = n"
  shows "length pps' = n \<and> list_all (\<lambda>ch. in_group n (ch_To ch) \<and> in_group n (ch_From ch)) chs \<and>
    (\<forall>p < n. mset (given (pps' ! p)) = mset (given (pps ! p)) + mset (ends_of p ci chs) \<and> (pipes_ok (pps ! p) \<longrightarrow> pipes_ok (pps' ! p)))"
  using assms
proof (induction n ci chs pps rule: assign_fds.induct)
  case (2 n ci ch chs pps)
  then have grp: "in_group n (ch_To ch)" "in_group n (ch_From ch)" by (auto simp: Let_def split: if_splits)
  define a b where "a = nat (ch_To ch)" and "b = nat (ch_From ch)"
  have ab: "a < n" "b < n" "ch_To ch = int p \<longleftrightarrow> p = a" "ch_From ch = int p \<longleftrightarrow> p = b" for p
    using grp by (auto simp: in_group_def a_def b_def)
  let ?one = "pps[a := give_read (ChanR ci) (pps ! a)]"
  let ?two = "?one[b := give_write (ChanW ci) (?one ! b)]"
  have "assign_fds n (ci + 1) chs ?two = Inr pps'" using "2.prems" grp by (simp add: Let_def a_def b_def)
  from "2.IH" [OF _ refl refl _ refl, folded a_def b_def, OF _ _ this] grp "2.prems"
  have IH: "length pps' = n" "list_all (\<lambda>ch. in_group n (ch_To ch) \<and> in_group n (ch_From ch)) chs"
    "\<And>p. p < n \<Longrightarrow> mset (given (pps' ! p)) = mset (given (?two ! p)) + mset (ends_of p (ci + 1) chs) \<and> (pipes_ok (?two ! p) \<longrightarrow> pipes_ok (pps' ! p))"
    by auto
  have step: "mset (given (?two ! p)) = mset (given (pps ! p)) + mset (if p = a then [ChanR ci] else []) + mset (if p = b then [ChanW ci] else [])"
    "pipes_ok (pps ! p) \<longrightarrow> pipes_ok (?two ! p)" if "p < n" for p
    using that "2.prems"(2) ab(1,2) by (auto simp: nth_list_update)
  show ?case using IH step grp by (auto simp: ab)
qed simp

lemma start_procs_children:
  assumes "start_procs k s m i reqs pps st = (None, st')" and "length pps = length reqs"
  shows "pf_children st' = pf_children st @ map (\<lambda>j. group_child s (i + j) (reqs ! j) (pps ! j)) [0..<length reqs] \<and>
    set (pf_open st') = set (pf_open st) \<union> (\<lambda>j. LogR (i + j)) ` {..<length reqs} \<union> (\<lambda>j. LogW (i + j)) ` {..<length reqs}"
  using assms
proof (induction k s m i reqs pps st rule: start_procs.induct)
  case (1 k s m i req reqs pp pps st)
  let ?st = "(open_pipe [LogR i, LogW i] st)\<lparr>pf_children := pf_children st @ [group_child s i req pp]\<rparr>"
  have run: "start_procs k s m (i + 1) reqs pps ?st = (None, st')" and ok: "gk_pipe_ok k (LogR i)" "gk_start_ok k (pc_argv (group_child s i req pp))"
    using "1.prems"(1) by (auto simp: Let_def open_pipe_def split: if_splits)
  have IH: "pf_children st' = pf_children ?st @ map (\<lambda>j. group_child s (i + 1 + j) (reqs ! j) (pps ! j)) [0..<length reqs]"
    "set (pf_open st') = set (pf_open ?st) \<union> (\<lambda>j. LogR (i + 1 + j)) ` {..<length reqs} \<union> (\<lambda>j. LogW (i + 1 + j)) ` {..<length reqs}"
    using "1.IH" [OF _ refl refl] run ok "1.prems"(2) by (auto simp: open_pipe_def)
  have upt: "[0..<Suc (length reqs)] = 0 # map Suc [0..<length reqs]" by (simp add: map_Suc_upt upt_conv_Cons del: upt_Suc)
  show ?case
    using IH by (simp add: upt lessThan_Suc_eq_insert_0 image_image open_pipe_def comp_def del: upt_Suc) auto
qed auto

lemma create_pipes_open:
  "create_pipes k i chs st = (None, st') \<Longrightarrow> pf_children st' = pf_children st \<and>
     set (pf_open st') = set (pf_open st) \<union> (\<lambda>j. ChanR (i + j)) ` {..<length chs} \<union> (\<lambda>j. ChanW (i + j)) ` {..<length chs}"
proof (induction k i chs st rule: create_pipes.induct)
  case (2 k i ch chs st)
  then show ?case
    by (auto simp: open_pipe_def lessThan_Suc_eq_insert_0 image_image split: if_splits)
qed simp

lemma channel_ends_set: "set (channel_ends m) = ChanR ` {..<m} \<union> ChanW ` {..<m}"
  by (auto simp: channel_ends_def)

lemma group_started_facts:
  assumes "group_started k s req st = (None, st')"
  defines "n \<equiv> length (gr_Processes req)" and "chs \<equiv> gr_Channels req"
  obtains pps where "length pps = n" "list_all (\<lambda>ch. in_group n (ch_To ch) \<and> in_group n (ch_From ch)) chs"
    "\<And>p. p < n \<Longrightarrow> mset (given (pps ! p)) = mset (ends_of p 0 chs) \<and> pipes_ok (pps ! p)"
    "pf_children st' = pf_children st @ map (\<lambda>j. group_child s j (gr_Processes req ! j) (pps ! j)) [0..<n]"
    "\<And>c. c < length chs \<Longrightarrow> ChanW c \<notin> set (pf_open st') \<and> ChanR c \<notin> set (pf_open st')"
proof -
  obtain st1 pps st2 where run: "create_pipes k 0 chs st = (None, st1)" "assign_fds n 0 chs (replicate n no_pipes) = Inr pps"
    "start_procs k s (length chs) 0 (gr_Processes req) pps st1 = (None, st2)" "st' = closeAll (channel_ends (length chs) @ map LogW [0..<n]) st2"
    using assms(1) by (auto simp: group_started_def n_def chs_def Let_def split: if_splits prod.splits option.splits sum.splits)
  note a = assign_fds_given [OF run(2)]
  have base: "mset (given (replicate n no_pipes ! p)) = {#}" "pipes_ok (replicate n no_pipes ! p)" if "p < n" for p
    using that by (simp_all add: given_def no_pipes_def pipes_ok_def)
  note c = start_procs_children [OF run(3)]
  show thesis
  proof (rule that [of pps])
    show "length pps = n" "list_all (\<lambda>ch. in_group n (ch_To ch) \<and> in_group n (ch_From ch)) chs" using a by simp_all
    show "mset (given (pps ! p)) = mset (ends_of p 0 chs) \<and> pipes_ok (pps ! p)" if "p < n" for p
      using a base [OF that] that by simp
    show "pf_children st' = pf_children st @ map (\<lambda>j. group_child s j (gr_Processes req ! j) (pps ! j)) [0..<n]"
      using c a create_pipes_open [OF run(1)] by (simp add: run(4) closeAll_def n_def)
    show "ChanW c \<notin> set (pf_open st') \<and> ChanR c \<notin> set (pf_open st')" if "c < length chs" for c
      using that by (simp add: run(4) closeAll_def channel_ends_set)
  qed
qed

text \<open>Which ends may stand at which descriptor of process \<open>p\<close>.\<close>

definition fd_typed :: "nat \<Rightarrow> nat \<times> pipe_end \<Rightarrow> bool" where
  "fd_typed p entry =
     (case entry of (fd, f) \<Rightarrow>
        case f of ChanR _ \<Rightarrow> fd = 0 \<or> 4 \<le> fd | ChanW _ \<Rightarrow> fd = 1 \<or> 4 \<le> fd | LogW q \<Rightarrow> fd = 3 \<and> q = p | LogR _ \<Rightarrow> False)"

definition extra_fds :: "child \<Rightarrow> nat list" where
  "extra_fds c = filter (\<lambda>fd. 4 \<le> fd) (map fst (pc_fds c))"

lemma group_child_fds:
  assumes "pipes_ok pp"
  shows "distinct (map fst (pc_fds (group_child s i req pp)))"
    and "mset (map snd (pc_fds (group_child s i req pp))) = add_mset (LogW i) (mset (given pp))"
    and "list_all (fd_typed i) (pc_fds (group_child s i req pp))"
    and "extra_fds (group_child s i req pp) = pp_extraFDNos pp"
proof -
  let ?fds = "pc_fds (group_child s i req pp)"
  have zip: "map fst (zip [3..<4 + length xs] (x # xs)) = [3..<4 + length xs]" "map snd (zip [3..<4 + length xs] (x # xs)) = x # xs"
    for x :: pipe_end and xs by simp_all
  have upt: "[3..<4 + n] = 3 # [4..<4 + n]" for n :: nat by (simp add: upt_conv_Cons)
  have fst: "map fst ?fds = (case pp_stdin pp of None \<Rightarrow> [] | Some f \<Rightarrow> [0]) @ (case pp_stdout pp of None \<Rightarrow> [] | Some f \<Rightarrow> [1]) @
      3 # [4..<4 + length (pp_extraFiles pp)]"
    unfolding group_child_def by (simp only: child.simps map_append zip upt) (simp split: option.split)
  have snd: "map snd ?fds = (case pp_stdin pp of None \<Rightarrow> [] | Some f \<Rightarrow> [f]) @ (case pp_stdout pp of None \<Rightarrow> [] | Some f \<Rightarrow> [f]) @
      LogW i # pp_extraFiles pp"
    unfolding group_child_def by (simp only: child.simps map_append zip) (simp split: option.split)
  show "distinct (map fst ?fds)" by (simp add: fst split: option.split)
  show "mset (map snd ?fds) = add_mset (LogW i) (mset (given pp))" by (simp add: snd given_def)
  have extra: "filter (\<lambda>fd. 4 \<le> fd) [4..<4 + n] = [4..<4 + n]" for n :: nat by (rule filter_True) simp
  show "extra_fds (group_child s i req pp) = pp_extraFDNos pp"
    using assms by (simp add: extra_fds_def fst extra pipes_ok_def split: option.split)
  have "fd_typed i (fd, f)" if "(fd, f) \<in> set (zip [4..<4 + length (pp_extraFiles pp)] (pp_extraFiles pp))" for fd f
  proof -
    have "4 \<le> fd" "f \<in> set (pp_extraFiles pp)" using set_zip_leftD [OF that] set_zip_rightD [OF that] by simp_all
    then show ?thesis
      using assms by (auto simp: pipes_ok_def fd_typed_def list_all_iff is_read_def is_write_def split: pipe_end.splits)
  qed
  then have extras: "list_all (fd_typed i) (zip [4..<4 + length (pp_extraFiles pp)] (pp_extraFiles pp))"
    by (auto simp: list_all_iff)
  have table: "?fds = (case pp_stdin pp of None \<Rightarrow> [] | Some f \<Rightarrow> [(0, f)]) @ (case pp_stdout pp of None \<Rightarrow> [] | Some f \<Rightarrow> [(1, f)]) @
      (3, LogW i) # zip [4..<4 + length (pp_extraFiles pp)] (pp_extraFiles pp)"
    unfolding group_child_def by (simp only: child.simps upt zip_Cons_Cons)
  have own: "fd_typed i (3, LogW i)" by (simp add: fd_typed_def)
  have "list_all (fd_typed i) (case pp_stdin pp of None \<Rightarrow> [] | Some f \<Rightarrow> [(0, f)])"
    using assms by (cases "pp_stdin pp") (simp_all add: pipes_ok_def is_read_def fd_typed_def split: pipe_end.splits)
  moreover have "list_all (fd_typed i) (case pp_stdout pp of None \<Rightarrow> [] | Some f \<Rightarrow> [(1, f)])"
    using assms by (cases "pp_stdout pp") (simp_all add: pipes_ok_def is_write_def fd_typed_def split: pipe_end.splits)
  ultimately show "list_all (fd_typed i) ?fds"
    using extras own unfolding table list_all_append list.pred_inject by blast
qed

section \<open>Properties\<close>

text \<open>
  C10: Every process of a group starts with a well-formed descriptor table. Each number stands for one pipe end. The
  ends are the read ends of exactly the channels addressed to the process, the write ends of exactly
  the channels it sends on, each once, and its own log pipe at descriptor 3. Standard input can only be a read end and
  standard output only a write end; all other ends have numbers from 4 on, and exactly these numbers are passed
  through the sandbox and told to the program after its index.
\<close>

theorem group_descriptors:
  assumes "group_started k s req st = (None, st')" and "pf_children st = []" and "p < length (gr_Processes req)"
  shows "let c = pf_children st' ! p; r = gr_Processes req ! p
    in length (pf_children st') = length (gr_Processes req) \<and> distinct (map fst (pc_fds c)) \<and>
       mset (map snd (pc_fds c)) = add_mset (LogW p) (mset (ends_of p 0 (gr_Channels req))) \<and>
       list_all (fd_typed p) (pc_fds c) \<and>
       pc_argv c = nc_BinaryPath (ns_nsCfg s) # buildBaseArgs (ns_nsCfg s) (ns_sbCfg s) (er_Limits r) @
         buildPassFDArgs (extra_fds c) @ [''--'', er_Executable r] @ er_Args r @ [show_nat p] @ map show_nat (extra_fds c)"
proof -
  obtain pps where pps: "length pps = length (gr_Processes req)"
    "\<And>p. p < length (gr_Processes req) \<Longrightarrow> mset (given (pps ! p)) = mset (ends_of p 0 (gr_Channels req)) \<and> pipes_ok (pps ! p)"
    "pf_children st' = pf_children st @ map (\<lambda>j. group_child s j (gr_Processes req ! j) (pps ! j)) [0..<length (gr_Processes req)]"
    using group_started_facts [OF assms(1)] by metis
  have child: "pf_children st' ! p = group_child s p (gr_Processes req ! p) (pps ! p)"
    using pps(3) assms(2,3) by simp
  have ok: "pipes_ok (pps ! p)" using pps(2) assms(3) by blast
  note fds = group_child_fds [OF ok, where s = s and i = p and req = "gr_Processes req ! p"]
  have "pp_extraArgs (pps ! p) = map show_nat (pp_extraFDNos (pps ! p))" using ok by (simp add: pipes_ok_def)
  then have "pc_argv (group_child s p (gr_Processes req ! p) (pps ! p)) =
      nc_BinaryPath (ns_nsCfg s) # buildBaseArgs (ns_nsCfg s) (ns_sbCfg s) (er_Limits (gr_Processes req ! p)) @
      buildPassFDArgs (extra_fds (pf_children st' ! p)) @ [''--'', er_Executable (gr_Processes req ! p)] @ er_Args (gr_Processes req ! p) @
      [show_nat p] @ map show_nat (extra_fds (pf_children st' ! p))"
    by (simp add: fds(4) child) (simp add: group_child_def)
  then show ?thesis
    using fds pps(2) [OF assms(3)] pps(3) assms(2) unfolding Let_def child by simp
qed

text \<open>
  A channel is at its end when neither the judger nor a process that still runs holds its write end.
  A process that sees the end of all its inputs, or has none, comes to its own end.
\<close>

definition at_eof :: "fd_state \<Rightarrow> nat set \<Rightarrow> nat \<Rightarrow> bool" where
  "at_eof st exited c \<longleftrightarrow> ChanW c \<notin> set (pf_open st) \<and>
     (\<forall>p < length (pf_children st). p \<notin> exited \<longrightarrow> ChanW c \<notin> snd ` set (pc_fds (pf_children st ! p)))"

inductive cascade :: "fd_state \<Rightarrow> nat set \<Rightarrow> nat set \<Rightarrow> bool" for st where
  start: "cascade st exited exited"
| exits: "cascade st exited exited' \<Longrightarrow> p < length (pf_children st) \<Longrightarrow>
     (\<And>c. ChanR c \<in> snd ` set (pc_fds (pf_children st ! p)) \<Longrightarrow> at_eof st exited' c) \<Longrightarrow> cascade st exited (insert p exited')"

lemma snd_image_mset: "snd ` set xs = set_mset (mset (map snd xs))"
  by simp

lemma cascade_all:
  fixes depth :: "nat \<Rightarrow> nat"
  assumes started: "group_started k s req st = (None, st')" and none: "pf_children st = []"
    and order: "\<And>ch. ch \<in> set (gr_Channels req) \<Longrightarrow> depth (nat (ch_From ch)) < depth (nat (ch_To ch))"
    and "exited \<subseteq> {..<length (gr_Processes req)}"
  shows "cascade st' exited {..<length (gr_Processes req)}"
proof -
  let ?n = "length (gr_Processes req)"
  let ?chs = "gr_Channels req"
  obtain pps where pps: "list_all (\<lambda>ch. in_group ?n (ch_To ch) \<and> in_group ?n (ch_From ch)) ?chs"
    "\<And>p. p < ?n \<Longrightarrow> mset (given (pps ! p)) = mset (ends_of p 0 ?chs) \<and> pipes_ok (pps ! p)"
    "pf_children st' = pf_children st @ map (\<lambda>j. group_child s j (gr_Processes req ! j) (pps ! j)) [0..<?n]"
    "\<And>c. c < length ?chs \<Longrightarrow> ChanW c \<notin> set (pf_open st')"
    using group_started_facts [OF started] by metis
  have len: "length (pf_children st') = ?n" using pps(3) none by simp
  have ends: "snd ` set (pc_fds (pf_children st' ! p)) = insert (LogW p) (set (ends_of p 0 ?chs))" if "p < ?n" for p
  proof -
    have "pf_children st' ! p = group_child s p (gr_Processes req ! p) (pps ! p)" using that pps(3) none by simp
    then show ?thesis using group_child_fds(2) [of "pps ! p"] pps(2) [OF that] unfolding snd_image_mset by simp
  qed
  have eof: "at_eof st' E c" if "c < length ?chs" "nat (ch_From (?chs ! c)) \<in> E" for E c
    using that pps(4) ends by (auto simp: at_eof_def len ends_of_iff)
  have step: "\<exists>p < ?n. p \<notin> E \<and> (\<forall>c. ChanR c \<in> snd ` set (pc_fds (pf_children st' ! p)) \<longrightarrow> at_eof st' E c)"
    if sub: "E \<subset> {..<?n}" for E
  proof -
    obtain p where p: "p \<in> {..<?n} - E" "\<And>q. q \<in> {..<?n} - E \<Longrightarrow> depth p \<le> depth q"
    proof -
      obtain q where "q \<in> {..<?n} - E" using sub by blast
      from ex_has_least_nat [of "\<lambda>p. p \<in> {..<?n} - E", OF this, of depth] show thesis using that by blast
    qed
    have "at_eof st' E c" if "ChanR c \<in> snd ` set (pc_fds (pf_children st' ! p))" for c
    proof -
      have c: "c < length ?chs" "ch_To (?chs ! c) = int p" using that p(1) ends by (auto simp: ends_of_iff)
      then have grp: "in_group ?n (ch_From (?chs ! c))" using pps(1) by (simp add: list_all_length)
      have "depth (nat (ch_From (?chs ! c))) < depth p" using order [of "?chs ! c"] c by simp
      then have "nat (ch_From (?chs ! c)) \<in> E" using p(2) [of "nat (ch_From (?chs ! c))"] grp by (force simp: in_group_def)
      then show ?thesis using eof c(1) by blast
    qed
    then show ?thesis using p(1) by blast
  qed
  have "finite E \<Longrightarrow> cascade st' exited E \<Longrightarrow> E \<subseteq> {..<?n} \<Longrightarrow> cascade st' exited {..<?n}" for E
  proof (induction "card ({..<?n} - E)" arbitrary: E rule: less_induct)
    case less
    show ?case
    proof (cases "E = {..<?n}")
      case False
      then obtain p where p: "p < ?n" "p \<notin> E" "\<And>c. ChanR c \<in> snd ` set (pc_fds (pf_children st' ! p)) \<Longrightarrow> at_eof st' E c"
        using step [of E] less.prems(3) by blast
      have "cascade st' exited (insert p E)" using cascade.exits [OF less.prems(2)] p len by simp
      moreover have "card ({..<?n} - insert p E) < card ({..<?n} - E)" using p by (intro psubset_card_mono) auto
      ultimately show ?thesis using less.hyps [of "insert p E"] less.prems p(1) by simp
    qed (use less in simp)
  qed
  then show ?thesis using cascade.start [of st' exited] assms(4) finite_subset by blast
qed

text \<open>
  C11: A group whose channels form no cycle never hangs on its pipes. When all processes have been started, from every
  moment on, whichever of them have ended, the rest can end one after the other, each because all its inputs are at their
  end: no write end is left in the judger or in a process that has no business with the channel.
\<close>

theorem group_runs_out:
  fixes depth :: "nat \<Rightarrow> nat"
  assumes "group_started k s req st = (None, st')" and "pf_children st = []"
    and "\<forall>ch \<in> set (gr_Channels req). depth (nat (ch_From ch)) < depth (nat (ch_To ch))"
    and "exited \<subseteq> {..<length (gr_Processes req)}"
  shows "cascade st' exited {..<length (gr_Processes req)}"
  by (rule cascade_all [where depth = depth, OF assms(1,2) _ assms(4)]) (use assms(3) in blast)

text \<open>Two processes with a channel from the first to the second and one extra channel the same way.\<close>

definition gkernel0 :: group_kernel where
  "gkernel0 = \<lparr>gk_input_ok = True, gk_pipe_ok = (\<lambda>_. True), gk_start_ok = (\<lambda>_. True),
     gk_run = (\<lambda>_ _. \<lparr>ro_wait = None, ro_wall_ms = 5, ro_log = [], ro_log_seen = [], ro_output = [], ro_files = Map.empty,
       ro_busy = False, ro_children = []\<rparr>),
     gk_grader = (\<lambda>_ _. Some ''AC''), gk_total_ms = (\<lambda>_. 6)\<rparr>"

definition group0 :: group_exec_request where
  "group0 = \<lparr>gr_Processes = replicate 2 \<lparr>er_Executable = ''./main'', er_Args = [], er_Stdin = None, er_Limits = no_limits\<rparr>,
     gr_Channels = replicate 2 \<lparr>ch_Name = ''c'', ch_From = 0, ch_To = 1, ch_BufferSizeKB = 0\<rparr>,
     gr_GraderProcess = None, gr_GlobalWallTimeLimitMs = 0\<rparr>"

definition no_fds :: fd_state where
  "no_fds = \<lparr>pf_open = [], pf_children = []\<rparr>"

lemma group0_started: "fst (group_started gkernel0 session0 group0 no_fds) = None"
  by (simp add: group_started_def group0_def gkernel0_def no_fds_def numeral_2_eq_2 in_group_def Let_def)

lemma group0_run: "group_started gkernel0 session0 group0 no_fds = (None, snd (group_started gkernel0 session0 group0 no_fds))"
  using group0_started by (metis prod.collapse)

theorem group_descriptors_witness:
  "mset (map snd (pc_fds (pf_children (snd (group_started gkernel0 session0 group0 no_fds)) ! 1))) =
     {#LogW 1, ChanR 0, ChanR 1#}"
proof -
  have "pf_children no_fds = []" "1 < length (gr_Processes group0)" by (simp_all add: no_fds_def group0_def)
  from group_descriptors [OF group0_run this] show ?thesis
    unfolding Let_def by (simp add: group0_def numeral_2_eq_2)
qed

theorem group_runs_out_witness:
  "cascade (snd (group_started gkernel0 session0 group0 no_fds)) {} {..<2}"
  using group_runs_out [OF group0_run, of "\<lambda>p. p" "{}"] by (simp add: no_fds_def group0_def)

section \<open>Pairs, and what is closed in the end\<close>

text \<open>Whichever of contestant and interactor ends first, the other one sees the end of its input.\<close>

lemma pair_sees_end:
  assumes "pair_started k s req st = (None, st')" and "pf_open st = []"
  shows "at_eof st' {0} 0 \<and> at_eof st' {1} 1"
  using assms
  by (auto simp: pair_started_def Let_def at_eof_def closeAll_def open_pipe_def contestant_child_def interactor_child_def
      less_Suc_eq split: if_splits)

lemma create_pipes_only:
  "create_pipes k i chs st = (e, st') \<Longrightarrow> set (pf_open st) \<subseteq> set (channel_ends i) \<Longrightarrow>
   pf_children st' = pf_children st \<and>
   (case e of None \<Rightarrow> set (pf_open st') \<subseteq> set (channel_ends (i + length chs)) | Some _ \<Rightarrow> pf_open st' = [])"
proof (induction k i chs st rule: create_pipes.induct)
  case (2 k i ch chs st)
  show ?case
  proof (cases "gk_pipe_ok k (ChanR i)")
    case True
    have "set (pf_open (open_pipe [ChanR i, ChanW i] st)) \<subseteq> set (channel_ends (i + 1))"
      using "2.prems"(2) by (auto simp: open_pipe_def channel_ends_set lessThan_Suc)
    with 2 True show ?thesis by (cases e) (auto simp: open_pipe_def)
  next
    case False
    with "2.prems" show ?thesis by (auto simp: closeAll_def filter_empty_conv)
  qed
qed auto

lemma start_procs_only:
  assumes "start_procs k s m i reqs pps st = (e, st')"
    and "set (pf_open st) \<subseteq> set (channel_ends m) \<union> LogR ` {..<i} \<union> LogW ` {..<i}" and "length pps = length reqs"
  shows "case e of
      None \<Rightarrow> set (pf_open st') \<subseteq> set (channel_ends m) \<union> LogR ` {..<i + length reqs} \<union> LogW ` {..<i + length reqs}
    | Some _ \<Rightarrow> pf_children st' = [] \<and> set (pf_open st') \<subseteq> range LogR"
  using assms
proof (induction k s m i reqs pps st rule: start_procs.induct)
  case (1 k s m i req reqs pp pps st)
  show ?case
  proof (cases "gk_pipe_ok k (LogR i) \<and> gk_start_ok k (pc_argv (group_child s i req pp))")
    case True
    have "set (pf_open (open_pipe [LogR i, LogW i] st)) \<subseteq> set (channel_ends m) \<union> LogR ` {..<i + 1} \<union> LogW ` {..<i + 1}"
      using "1.prems"(2) by (auto simp: open_pipe_def lessThan_Suc)
    then show ?thesis
      using "1.IH" [OF _ refl refl] "1.prems" True by (cases e) (auto simp: Let_def open_pipe_def)
  next
    case False
    then show ?thesis
      using "1.prems"
      by (auto simp: Let_def kill_all_def closeAll_def open_pipe_def channel_ends_set subset_iff atLeast0LessThan split: if_splits) blast
  qed
qed auto

lemma ExecuteGroup_closes:
  assumes "ExecuteGroup k s req st = (res, st')" and "pf_open st = []" and "pf_children st = []"
  shows "pf_children st' = [] \<and> set (pf_open st') \<subseteq> range LogR \<and> (\<forall>r. res = Done r \<longrightarrow> pf_open st' = [])"
proof -
  let ?n = "length (gr_Processes req)" and ?m = "length (gr_Channels req)"
  obtain e1 st1 where c: "create_pipes k 0 (gr_Channels req) st = (e1, st1)" by fastforce
  note c' = create_pipes_only [OF c]
  show ?thesis
  proof (cases "?n = 0 \<or> e1 \<noteq> None")
    case True
    then show ?thesis using assms c c' by (auto simp: ExecuteGroup_def group_started_def Let_def split: option.splits if_splits)
  next
    case False
    then have open1: "set (pf_open st1) \<subseteq> set (channel_ends ?m)" "pf_children st1 = []" using c' assms by auto
    show ?thesis
    proof (cases "assign_fds ?n 0 (gr_Channels req) (replicate ?n no_pipes)")
      case (Inl e)
      then show ?thesis using assms c False open1
        by (auto simp: ExecuteGroup_def group_started_def Let_def closeAll_def filter_empty_conv)
    next
      case (Inr pps)
      obtain e2 st2 where s: "start_procs k s ?m 0 (gr_Processes req) pps st1 = (e2, st2)" by fastforce
      have "length pps = ?n" using assign_fds_given [OF Inr] by simp
      note s' = start_procs_only [OF s _ this]
      show ?thesis
      proof (cases e2)
        case None
        have left: "set (pf_open st2) \<subseteq> set (channel_ends ?m) \<union> LogR ` {..<?n} \<union> LogW ` {..<?n}" using s' open1 None by auto
        have "st' = kill_all (closeAll (map LogR [0..<?n]) (closeAll (channel_ends ?m @ map LogW [0..<?n]) st2))"
          using assms(1) c s None Inr False by (auto simp: ExecuteGroup_def group_started_def Let_def)
        then show ?thesis using left by (auto simp: kill_all_def closeAll_def filter_empty_conv)
      next
        case (Some e)
        then have "st' = st2 \<and> res = Fail e" using assms(1) c s Inr False by (auto simp: ExecuteGroup_def group_started_def Let_def)
        then show ?thesis using s' open1 Some by auto
      qed
    qed
  qed
qed

end
