(* ===== verification/Message_Queue.thy ===== *)
theory Message_Queue
  imports OJ_Prelude
begin

text \<open>
  Package \<open>mq\<close> (the message envelope and the queue names) and \<open>mq/redis\<close>, file \<open>stream.go\<close>:
  publishing to a Redis stream, the consumer loop and the recovery of a consumer's pending entries.

  Redis itself is a parameter: a record of the commands the code issues, acting on a state of any
  type that also holds whatever the message handler changes. What the code relies on is the locale
  \<open>pending_group\<close>, the documented behaviour of XPENDING, XCLAIM and XACK for one consumer.
\<close>

section \<open>Messages, configuration and commands\<close>

record mq_message =
  mg_ID :: string
  mg_Payload :: string

definition QueueJudgeTasks :: string where "QueueJudgeTasks = ''oj:judge:tasks''"
definition QueueJudgeResults :: string where "QueueJudgeResults = ''oj:judge:results''"

definition pendingBatch :: nat where "pendingBatch = 64"
definition streamMaxLen :: int where "streamMaxLen = 10000"

record stream_config =
  sc_ConsumerGroup :: string
  sc_ConsumerName :: string

record xmessage =
  xm_ID :: string
  xm_data :: "string option"

datatype read_result = ReadNil | ReadError error | ReadMessages "xmessage list"

record 's redis =
  XAdd :: "string \<Rightarrow> string \<Rightarrow> int \<Rightarrow> 's \<Rightarrow> (error + string) \<times> 's"
  XGroupCreate :: "string \<Rightarrow> string \<Rightarrow> 's \<Rightarrow> error option \<times> 's"
  XReadGroup :: "string \<Rightarrow> string \<Rightarrow> string \<Rightarrow> nat \<Rightarrow> 's \<Rightarrow> read_result \<times> 's"
  XPending :: "string \<Rightarrow> string \<Rightarrow> string \<Rightarrow> nat \<Rightarrow> 's \<Rightarrow> error + string list"
  XClaim :: "string \<Rightarrow> string \<Rightarrow> string \<Rightarrow> string list \<Rightarrow> 's \<Rightarrow> (error + xmessage list) \<times> 's"
  XAck :: "string \<Rightarrow> string \<Rightarrow> string \<Rightarrow> 's \<Rightarrow> error option \<times> 's"

type_synonym 's message_handler = "mq_message \<Rightarrow> 's \<Rightarrow> error option \<times> 's"

section \<open>Operations\<close>

definition Publish :: "'s redis \<Rightarrow> string \<Rightarrow> string \<Rightarrow> 's \<Rightarrow> (error + string) \<times> 's" where
  "Publish rdb queue payload st =
     (case XAdd rdb queue payload streamMaxLen st of
        (Inl err, st) \<Rightarrow> (Inl (''mqredis: XADD '' @ queue @ '': '' @ err), st)
      | (Inr i, st) \<Rightarrow> (Inr i, st))"

definition message_of :: "xmessage \<Rightarrow> mq_message" where
  "message_of msg = \<lparr>mg_ID = xm_ID msg, mg_Payload = (case xm_data msg of None \<Rightarrow> [] | Some s \<Rightarrow> s)\<rparr>"

definition dispatch :: "'s redis \<Rightarrow> stream_config \<Rightarrow> string \<Rightarrow> 's message_handler \<Rightarrow> xmessage \<Rightarrow> 's \<Rightarrow> 's" where
  "dispatch rdb cfg queue handler msg st =
     (case handler (message_of msg) st of
        (Some _, st) \<Rightarrow> st
      | (None, st) \<Rightarrow> snd (XAck rdb queue (sc_ConsumerGroup cfg) (xm_ID msg) st))"

definition dispatch_all ::
  "'s redis \<Rightarrow> stream_config \<Rightarrow> string \<Rightarrow> 's message_handler \<Rightarrow> xmessage list \<Rightarrow> 's \<Rightarrow> 's" where
  "dispatch_all rdb cfg queue handler msgs st = fold (dispatch rdb cfg queue handler) msgs st"

definition ensureGroup :: "'s redis \<Rightarrow> stream_config \<Rightarrow> string \<Rightarrow> 's \<Rightarrow> error option \<times> 's" where
  "ensureGroup rdb cfg queue st =
     (case XGroupCreate rdb queue (sc_ConsumerGroup cfg) st of
        (None, st) \<Rightarrow> (None, st)
      | (Some err, st) \<Rightarrow>
          if err \<noteq> ''BUSYGROUP Consumer Group name already exists''
          then (Some (''mqredis: XGROUP CREATE '' @ queue @ ''/'' @ sc_ConsumerGroup cfg @ '': '' @ err), st)
          else (None, st))"

text \<open>One round of the recovery loop: either it returns, or it goes around again.\<close>

datatype 's round = Return "error option" 's | Again 's

definition drain_round :: "'s redis \<Rightarrow> stream_config \<Rightarrow> string \<Rightarrow> 's message_handler \<Rightarrow> 's \<Rightarrow> 's round" where
  "drain_round rdb cfg queue handler st =
     (case XPending rdb queue (sc_ConsumerGroup cfg) (sc_ConsumerName cfg) pendingBatch st of
        Inl err \<Rightarrow> Return (Some (''XPENDING: '' @ err)) st
      | Inr pending \<Rightarrow>
          if pending = [] then Return None st
          else case XClaim rdb queue (sc_ConsumerGroup cfg) (sc_ConsumerName cfg) pending st of
            (Inl err, st) \<Rightarrow> Return (Some (''XCLAIM: '' @ err)) st
          | (Inr msgs, st) \<Rightarrow>
              let st = dispatch_all rdb cfg queue handler msgs st
              in if length pending < pendingBatch then Return None st else Again st)"

text \<open>The loop need not end: not returning is \<open>None\<close>.\<close>

partial_function (option) drainPending ::
  "'s redis \<Rightarrow> stream_config \<Rightarrow> string \<Rightarrow> 's message_handler \<Rightarrow> 's \<Rightarrow> (error option \<times> 's) option" where
  "drainPending rdb cfg queue handler st =
     (case drain_round rdb cfg queue handler st of
        Return r st' \<Rightarrow> Some (r, st')
      | Again st' \<Rightarrow> drainPending rdb cfg queue handler st')"

declare drainPending.simps [code]

text \<open>
  The main loop, driven by what it sees of the context in each iteration: whether it is cancelled at
  the top, after a failed read, and during the back-off. The result is the returned error, or \<open>None\<close>
  while the loop is still running after the given iterations.
\<close>

record ctx_tick =
  ct_top :: bool
  ct_after_error :: bool
  ct_backoff :: bool

fun subscribe_loop ::
  "'s redis \<Rightarrow> stream_config \<Rightarrow> string \<Rightarrow> 's message_handler \<Rightarrow> ctx_tick list \<Rightarrow> 's \<Rightarrow> error option \<times> 's" where
  "subscribe_loop rdb cfg queue handler [] st = (None, st)"
| "subscribe_loop rdb cfg queue handler (t # ts) st =
     (if ct_top t then (Some ''context canceled'', st)
      else case XReadGroup rdb queue (sc_ConsumerGroup cfg) (sc_ConsumerName cfg) 1 st of
        (ReadNil, st) \<Rightarrow> subscribe_loop rdb cfg queue handler ts st
      | (ReadError _, st) \<Rightarrow>
          if ct_after_error t \<or> ct_backoff t then (Some ''context canceled'', st)
          else subscribe_loop rdb cfg queue handler ts st
      | (ReadMessages msgs, st) \<Rightarrow>
          subscribe_loop rdb cfg queue handler ts (dispatch_all rdb cfg queue handler msgs st))"

text \<open>An error of the recovery is only logged.\<close>

definition Subscribe ::
  "'s redis \<Rightarrow> stream_config \<Rightarrow> string \<Rightarrow> 's message_handler \<Rightarrow> ctx_tick list \<Rightarrow> 's \<Rightarrow> (error option \<times> 's) option" where
  "Subscribe rdb cfg queue handler ticks st =
     (case ensureGroup rdb cfg queue st of
        (Some err, st) \<Rightarrow> Some (Some err, st)
      | (None, st) \<Rightarrow>
          (case drainPending rdb cfg queue handler st of
             None \<Rightarrow> None
           | Some (_, st) \<Rightarrow> Some (subscribe_loop rdb cfg queue handler ticks st)))"

section \<open>What the code relies on\<close>

text \<open>A pending entry that stays pending: it is still in the stream and the handler refuses it.\<close>

definition stuck :: "('s \<Rightarrow> string \<Rightarrow> bool) \<Rightarrow> (string \<Rightarrow> xmessage) \<Rightarrow> (mq_message \<Rightarrow> bool) \<Rightarrow> 's \<Rightarrow> string \<Rightarrow> bool" where
  "stuck live entry ok st i \<longleftrightarrow> live st i \<and> \<not> ok (message_of (entry i))"

text \<open>
  For one consumer of one group: \<open>pel\<close> lists its pending entry ids in order, \<open>live\<close> tells which are
  still in the stream, \<open>entry\<close> is the entry with an id. XPENDING lists a prefix, XCLAIM returns the live
  ones among the ids and drops the others from the list, XACK takes an id off the list. The handler
  does not touch the list; it accepts exactly the messages that satisfy \<open>ok\<close>, and \<open>seen\<close> records what
  it was given.
\<close>

locale pending_group =
  fixes rdb :: "'s redis" and cfg :: stream_config and queue :: string and handler :: "'s message_handler"
    and pel :: "'s \<Rightarrow> string list" and live :: "'s \<Rightarrow> string \<Rightarrow> bool" and entry :: "string \<Rightarrow> xmessage"
    and ok :: "mq_message \<Rightarrow> bool" and seen :: "'s \<Rightarrow> mq_message list"
  assumes pending: "XPending rdb queue (sc_ConsumerGroup cfg) (sc_ConsumerName cfg) n st = Inr (take n (pel st))"
    and claim_result: "fst (XClaim rdb queue (sc_ConsumerGroup cfg) (sc_ConsumerName cfg) ids st) =
      Inr (map entry (filter (live st) ids))"
    and claim_pel: "pel (snd (XClaim rdb queue (sc_ConsumerGroup cfg) (sc_ConsumerName cfg) ids st)) =
      filter (\<lambda>i. i \<in> set ids \<longrightarrow> live st i) (pel st)"
    and claim_keeps: "live (snd (XClaim rdb queue (sc_ConsumerGroup cfg) (sc_ConsumerName cfg) ids st)) = live st"
      "seen (snd (XClaim rdb queue (sc_ConsumerGroup cfg) (sc_ConsumerName cfg) ids st)) = seen st"
    and ack_pel: "pel (snd (XAck rdb queue (sc_ConsumerGroup cfg) i st)) = removeAll i (pel st)"
    and ack_keeps: "live (snd (XAck rdb queue (sc_ConsumerGroup cfg) i st)) = live st"
      "seen (snd (XAck rdb queue (sc_ConsumerGroup cfg) i st)) = seen st"
    and entry_id: "xm_ID (entry i) = i"
    and handler_result: "fst (handler m st) = None \<longleftrightarrow> ok m"
    and handler_keeps: "pel (snd (handler m st)) = pel st" "live (snd (handler m st)) = live st"
    and handler_sees: "seen (snd (handler m st)) = seen st @ [m]"
begin

abbreviation run_dispatch :: "xmessage list \<Rightarrow> 's \<Rightarrow> 's" where
  "run_dispatch \<equiv> dispatch_all rdb cfg queue handler"

lemma dispatch_facts:
  "pel (dispatch rdb cfg queue handler (entry i) st) = (if ok (message_of (entry i)) then removeAll i (pel st) else pel st)"
  "live (dispatch rdb cfg queue handler (entry i) st) = live st"
  "seen (dispatch rdb cfg queue handler (entry i) st) = seen st @ [message_of (entry i)]"
proof -
  obtain r st' where h: "handler (message_of (entry i)) st = (r, st')" by fastforce
  have "r = None \<longleftrightarrow> ok (message_of (entry i))" "pel st' = pel st" "live st' = live st"
    "seen st' = seen st @ [message_of (entry i)]"
    using handler_result [of "message_of (entry i)" st] handler_keeps [of "message_of (entry i)" st]
      handler_sees [of "message_of (entry i)" st] h by auto
  then show "pel (dispatch rdb cfg queue handler (entry i) st) = (if ok (message_of (entry i)) then removeAll i (pel st) else pel st)"
    "live (dispatch rdb cfg queue handler (entry i) st) = live st"
    "seen (dispatch rdb cfg queue handler (entry i) st) = seen st @ [message_of (entry i)]"
    by (auto simp: dispatch_def h ack_pel ack_keeps entry_id split: option.split)
qed

lemma dispatch_all_facts:
  "pel (run_dispatch (map entry ids) st) = filter (\<lambda>i. i \<in> set ids \<longrightarrow> \<not> ok (message_of (entry i))) (pel st) \<and>
   live (run_dispatch (map entry ids) st) = live st \<and>
   seen (run_dispatch (map entry ids) st) = seen st @ map (\<lambda>i. message_of (entry i)) ids"
proof (induction ids arbitrary: st)
  case Nil
  then show ?case by (simp add: dispatch_all_def)
next
  case (Cons i ids)
  let ?st = "dispatch rdb cfg queue handler (entry i) st"
  have step: "run_dispatch (map entry (i # ids)) st = run_dispatch (map entry ids) ?st"
    by (simp add: dispatch_all_def)
  have "filter (\<lambda>j. j \<in> set ids \<longrightarrow> \<not> ok (message_of (entry j))) (pel ?st) =
    filter (\<lambda>j. j \<in> set (i # ids) \<longrightarrow> \<not> ok (message_of (entry j))) (pel st)"
    unfolding dispatch_facts by (auto simp: removeAll_filter_not_eq intro!: filter_cong)
  then show ?case using Cons.IH [of ?st] unfolding step by (simp add: dispatch_facts)
qed

abbreviation stays :: "'s \<Rightarrow> string \<Rightarrow> bool" where
  "stays \<equiv> stuck live entry ok"

lemma drain_round_facts:
  assumes "distinct (pel st)"
  obtains "pel st = []" "drain_round rdb cfg queue handler st = Return None st"
  | st' where "pel st \<noteq> []" "drain_round rdb cfg queue handler st =
        (if length (pel st) < pendingBatch then Return None st' else Again st')"
      "pel st' = filter (stays st) (take pendingBatch (pel st)) @ drop pendingBatch (pel st)" "live st' = live st"
      "seen st' = seen st @ map (\<lambda>i. message_of (entry i)) (filter (live st) (take pendingBatch (pel st)))"
proof (cases "pel st = []")
  case True
  then show ?thesis using that(1) by (simp add: drain_round_def pending)
next
  case False
  let ?ids = "take pendingBatch (pel st)"
  let ?claim = "XClaim rdb queue (sc_ConsumerGroup cfg) (sc_ConsumerName cfg) ?ids st"
  define st1 where "st1 = snd ?claim"
  define st' where "st' = run_dispatch (map entry (filter (live st) ?ids)) st1"
  have claim: "?claim = (Inr (map entry (filter (live st) ?ids)), st1)"
    unfolding st1_def by (metis claim_result prod.collapse)
  have ids: "?ids \<noteq> []" using False by (simp add: pendingBatch_def)
  have "length ?ids < pendingBatch \<longleftrightarrow> length (pel st) < pendingBatch" by auto
  then have round: "drain_round rdb cfg queue handler st =
      (if length (pel st) < pendingBatch then Return None st' else Again st')"
    using ids by (simp add: drain_round_def pending claim Let_def st'_def)
  note facts = dispatch_all_facts [of "filter (live st) ?ids" st1, folded st'_def]
  have pel1: "pel st1 = filter (\<lambda>i. i \<in> set ?ids \<longrightarrow> live st i) (pel st)" unfolding st1_def by (rule claim_pel)
  have "pel st' = filter (\<lambda>i. i \<in> set ?ids \<longrightarrow> stays st i) (pel st)"
    using facts unfolding pel1 by (auto simp: stuck_def intro!: filter_cong)
  also have "\<dots> = filter (\<lambda>i. i \<in> set ?ids \<longrightarrow> stays st i) (?ids @ drop pendingBatch (pel st))" by simp
  also have "\<dots> = filter (stays st) ?ids @ drop pendingBatch (pel st)"
  proof -
    have "set ?ids \<inter> set (drop pendingBatch (pel st)) = {}"
      using assms by (metis append_take_drop_id distinct_append)
    then show ?thesis unfolding filter_append by (auto simp: filter_id_conv intro!: arg_cong2 [where f = append] filter_cong)
  qed
  finally show ?thesis using that(2) False round facts by (simp add: st1_def claim_keeps)
qed

lemma round_keeps_stuck:
  assumes "distinct (pel st)" and "pel st' = filter (stays st) (take n (pel st)) @ drop n (pel st)" and "live st' = live st"
  shows "distinct (pel st')" and "filter (stays st') (pel st') = filter (stays st) (pel st)"
proof -
  have split: "pel st = take n (pel st) @ drop n (pel st)" by simp
  have "distinct (take n (pel st) @ drop n (pel st))" using assms(1) by simp
  then show "distinct (pel st')" unfolding assms(2) distinct_append by auto
  have same: "stays st' = stays st" using assms(3) by (simp add: stuck_def fun_eq_iff)
  show "filter (stays st') (pel st') = filter (stays st) (pel st)"
    unfolding same assms(2) by (subst (3) split) (simp only: filter_append filter_filter conj_absorb)
qed

text \<open>With fewer stuck entries than a batch holds, every full round takes an entry off the list.\<close>

lemma drain_returns:
  assumes "distinct (pel st)" and "length (filter (stays st) (pel st)) < pendingBatch"
  shows "\<exists>st'. drainPending rdb cfg queue handler st = Some (None, st') \<and> pel st' = filter (stays st) (pel st) \<and>
    (\<forall>i \<in> set (pel st). live st i \<longrightarrow> message_of (entry i) \<in> set (seen st')) \<and> set (seen st) \<subseteq> set (seen st')"
  using assms
proof (induction "length (pel st)" arbitrary: st rule: less_induct)
  case less
  from less.prems(1) show ?case
  proof (cases rule: drain_round_facts)
    case 1
    then show ?thesis by (simp add: drainPending.simps)
  next
    case (2 st')
    let ?b = "take pendingBatch (pel st)" and ?rest = "drop pendingBatch (pel st)"
    show ?thesis
    proof (cases "length (pel st) < pendingBatch")
      case True
      then show ?thesis using 2 by (simp add: drainPending.simps [of rdb cfg queue handler st])
    next
      case False
      note keep = round_keeps_stuck [OF less.prems(1) 2(3,4)]
      have "length (filter (stays st) ?b) \<le> length (filter (stays st) (pel st))"
        by (metis append_take_drop_id filter_append length_append le_add1)
      then have "length (pel st') < length (pel st)" using False less.prems(2) 2(3) by simp
      then obtain st'' where IH: "drainPending rdb cfg queue handler st' = Some (None, st'')"
        "pel st'' = filter (stays st) (pel st)" "set (seen st') \<subseteq> set (seen st'')"
        "\<forall>i \<in> set (pel st'). live st' i \<longrightarrow> message_of (entry i) \<in> set (seen st'')"
        using less.hyps [of st'] less.prems(2) keep by auto
      have "message_of (entry i) \<in> set (seen st'')" if "i \<in> set (pel st)" "live st i" for i
      proof (cases "i \<in> set ?b")
        case True
        then show ?thesis using IH(3) that 2(5) by auto
      next
        case F: False
        then have "i \<in> set ?rest" using that(1) by (metis UnE append_take_drop_id set_append)
        then show ?thesis using IH(4) that(2) 2(3,4) by simp
      qed
      moreover have "drainPending rdb cfg queue handler st = drainPending rdb cfg queue handler st'"
        using 2(2) False by (simp add: drainPending.simps [of rdb cfg queue handler st])
      ultimately show ?thesis using IH 2(5) by auto
    qed
  qed
qed

text \<open>With a batch of stuck entries the list never gets shorter than a batch.\<close>

lemma drain_hangs:
  assumes "distinct (pel st)" and "pendingBatch \<le> length (filter (stays st) (pel st))"
  shows "drainPending rdb cfg queue handler st = None"
proof -
  let ?P = "\<lambda>r' c' q' h' st y. r' = rdb \<longrightarrow> c' = cfg \<longrightarrow> q' = queue \<longrightarrow> h' = handler \<longrightarrow> distinct (pel st) \<longrightarrow>
    length (filter (stays st) (pel st)) < pendingBatch"
  have "?P rdb cfg queue handler st y" if "drainPending rdb cfg queue handler st = Some y" for y
    using that
  proof (rule drainPending.raw_induct [where P = ?P, rotated])
    fix loop r' c' q' h' and st :: 's and y
    assume IH: "\<And>r' c' q' h' st y. loop r' c' q' h' st = Some y \<Longrightarrow> ?P r' c' q' h' st y"
      and ret: "(case drain_round r' c' q' h' st of Return r st' \<Rightarrow> Some (r, st') | Again st' \<Rightarrow> loop r' c' q' h' st') = Some y"
    show "?P r' c' q' h' st y"
    proof (intro impI)
      assume eqs: "r' = rdb" "c' = cfg" "q' = queue" "h' = handler" and "distinct (pel st)"
      from this(5) show "length (filter (stays st) (pel st)) < pendingBatch"
      proof (cases rule: drain_round_facts)
        case 1
        then show ?thesis by (simp add: pendingBatch_def)
      next
        case (2 st')
        show ?thesis
        proof (cases "length (pel st) < pendingBatch")
          case True
          then show ?thesis by (rule le_less_trans [OF length_filter_le])
        next
          case False
          then have "loop rdb cfg queue handler st' = Some y" using ret 2(2) by (simp add: eqs)
          moreover note round_keeps_stuck [OF \<open>distinct (pel st)\<close> 2(3,4)]
          ultimately show ?thesis using IH by metis
        qed
      qed
    qed
  qed
  then show ?thesis using assms by (cases "drainPending rdb cfg queue handler st") (auto simp: not_less)
qed

end

section \<open>The recovery of pending entries\<close>


section \<open>A Redis consumer as lists\<close>

text \<open>
  The laws hold of the obvious model of one consumer: new entries, pending ids, ids trimmed from the
  stream, and the messages the handler was given; the handler refuses a fixed set of ids.
\<close>

record list_redis =
  lr_new :: "xmessage list"
  lr_pel :: "string list"
  lr_gone :: "string list"
  lr_seen :: "mq_message list"

definition list_entry :: "string \<Rightarrow> xmessage" where
  "list_entry i = \<lparr>xm_ID = i, xm_data = Some (''task '' @ i)\<rparr>"

definition list_live :: "list_redis \<Rightarrow> string \<Rightarrow> bool" where
  "list_live st i \<longleftrightarrow> i \<notin> set (lr_gone st)"

definition list_ops :: "list_redis redis" where
  "list_ops = \<lparr>
     XAdd = (\<lambda>queue payload maxLen st. (Inr payload, st\<lparr>lr_new := lr_new st @ [\<lparr>xm_ID = payload, xm_data = Some payload\<rparr>]\<rparr>)),
     XGroupCreate = (\<lambda>queue group st. (Some ''BUSYGROUP Consumer Group name already exists'', st)),
     XReadGroup = (\<lambda>queue group consumer n st.
       if lr_new st = [] then (ReadNil, st)
       else (ReadMessages (take n (lr_new st)),
             st\<lparr>lr_new := drop n (lr_new st), lr_pel := lr_pel st @ map xm_ID (take n (lr_new st))\<rparr>)),
     XPending = (\<lambda>queue group consumer n st. Inr (take n (lr_pel st))),
     XClaim = (\<lambda>queue group consumer ids st. (Inr (map list_entry (filter (list_live st) ids)),
       st\<lparr>lr_pel := filter (\<lambda>i. i \<in> set ids \<longrightarrow> list_live st i) (lr_pel st)\<rparr>)),
     XAck = (\<lambda>queue group i st. (None, st\<lparr>lr_pel := removeAll i (lr_pel st)\<rparr>))\<rparr>"

definition list_ok :: "string list \<Rightarrow> mq_message \<Rightarrow> bool" where
  "list_ok bad m \<longleftrightarrow> mg_ID m \<notin> set bad"

definition list_handler :: "string list \<Rightarrow> list_redis message_handler" where
  "list_handler bad m st = (if list_ok bad m then None else Some ''refused'', st\<lparr>lr_seen := lr_seen st @ [m]\<rparr>)"

interpretation list_group: pending_group list_ops cfg queue "list_handler bad" lr_pel list_live list_entry "list_ok bad" lr_seen
  for cfg queue bad
  by unfold_locales (auto simp: list_ops_def list_live_def list_entry_def list_handler_def fun_eq_iff)

definition list_cfg :: stream_config where
  "list_cfg = \<lparr>sc_ConsumerGroup = ''judger-nodes'', sc_ConsumerName = ''node-1''\<rparr>"

definition list_state0 :: list_redis where
  "list_state0 = \<lparr>lr_new = [], lr_pel = [''1-0'', ''2-0'', ''3-0''], lr_gone = [''1-0''], lr_seen = []\<rparr>"


end
