(* ===== verification/Result_Consumer.thy ===== *)
theory Result_Consumer
  imports Submission Judger
begin

text \<open>
  The result consumer of \<open>cmd/api-server/main.go\<close>: the handler that writes each judge result into the
  submission's row. Together with the handlers of \<open>Submission\<close> and the judger node it closes the
  circle from an accepted submission to its verdict.
\<close>

section \<open>The handler\<close>

definition submission_of_result :: "result_message \<Rightarrow> submission" where
  "submission_of_result result = \<lparr>sub_ID = rm_SubmissionID result, sub_UserID = 0, sub_ProblemID = 0, sub_ContestID = None,
     sub_ContestType = None, sub_Language = LangOther [], sub_SourceCodePath = [], sub_Status = rm_Status result,
     sub_Score = rm_Score result, sub_TimeUsedMs = rm_TimeUsedMs result, sub_MemUsedKB = rm_MemUsedKB result,
     sub_CompileLog = rm_CompileLog result, sub_JudgeMessage = rm_JudgeMessage result,
     sub_TestCaseResults = rm_TestCaseResults result, sub_JudgeNodeID = rm_JudgeNodeID result,
     sub_CreatedAt = 0, sub_UpdatedAt = 0\<rparr>"

text \<open>A malformed payload is acknowledged; a failing update is not, so the message is delivered again.\<close>

definition persist_result :: "time \<Rightarrow> result_message payload \<Rightarrow> db \<Rightarrow> error option \<times> db" where
  "persist_result now msg d =
     (case decode msg of
        None \<Rightarrow> (None, d)
      | Some result \<Rightarrow>
          (case SubmissionRepo_Update now (submission_of_result result) d of
             (Inl _, d) \<Rightarrow> (Some (''update submission '' @ show_int (rm_SubmissionID result)), d)
           | (Inr _, d) \<Rightarrow> (None, d)))"

definition judged_row :: "time \<Rightarrow> result_message \<Rightarrow> submission \<Rightarrow> submission" where
  "judged_row now r s = s\<lparr>sub_Status := rm_Status r, sub_Score := rm_Score r, sub_TimeUsedMs := rm_TimeUsedMs r,
     sub_MemUsedKB := rm_MemUsedKB r, sub_CompileLog := rm_CompileLog r, sub_JudgeMessage := rm_JudgeMessage r,
     sub_TestCaseResults := rm_TestCaseResults r, sub_JudgeNodeID := rm_JudgeNodeID r, sub_UpdatedAt := now\<rparr>"

section \<open>Its effect\<close>

lemma persist_result_row:
  assumes "distinct (map sub_ID (db_submissions d))" and "sub \<in> set (db_submissions d)" and "rm_SubmissionID r = sub_ID sub"
  shows "persist_result now (Encoded r) d =
    (None, d\<lparr>db_submissions := map (\<lambda>s. if s = sub then judged_row now r s else s) (db_submissions d)\<rparr>)"
proof -
  have "sub_ID s = sub_ID sub \<longleftrightarrow> s = sub" if "s \<in> set (db_submissions d)" for s
    using assms(1,2) that by (metis distinct_map inj_onD)
  then show ?thesis
    using assms(2,3)
    by (auto simp: persist_result_def SubmissionRepo_Update_def submission_of_result_def judged_row_def)
qed

lemma persist_result_refused:
  "fst (persist_result now msg d) \<noteq> None \<longleftrightarrow>
   (\<exists>r. msg = Encoded r \<and> rm_SubmissionID r \<notin> sub_ID ` set (db_submissions d))"
  by (cases msg) (auto simp: persist_result_def SubmissionRepo_Update_def submission_of_result_def)

lemma persist_result_db:
  "snd (persist_result now (Encoded r) d) = snd (SubmissionRepo_Update now (submission_of_result r) d)"
  by (simp add: persist_result_def split: prod.split sum.split)

lemma persist_result_reachable: "db_reachable d \<Longrightarrow> db_reachable (snd (persist_result now msg d))"
proof (cases msg)
  case (Encoded r)
  assume "db_reachable d"
  then show ?thesis unfolding Encoded persist_result_db by (rule db_reachable.step [OF _ db_step.update_submission])
qed (simp add: persist_result_def)

end
