(* ===== verification/Pumps.thy ===== *)
theory Pumps
  imports Hub
begin

text \<open>
  The two goroutines behind every WebSocket connection, \<open>writePump\<close> and \<open>readPump\<close>, and the loop around the
  Pub/Sub subscription (\<open>websocket.go\<close>). Theory \<open>Hub\<close> interleaves single actions of the pumps with the hub; here
  each loop is a function of the events it selects on, in the order they come, with its deadlines.
\<close>

section \<open>Writing\<close>

definition writeWait :: time where "writeWait = 10 * second_ns"
definition pongWait :: time where "pongWait = 60 * second_ns"
definition pingPeriod :: time where "pingPeriod = 45 * second_ns"
definition maxMessageSize :: nat where "maxMessageSize = 4 * 1024"

text \<open>
  What the select of \<open>writePump\<close> sees: a queued frame together with those that follow it in the queue at that moment,
  the closed queue, or a tick. The flags are the results of the writes to the connection.
\<close>

datatype 'a write_event = Queued "'a frame" bool "('a frame \<times> bool) list" bool bool | QueueClosed | Tick bool

datatype 'a wire = WireText "'a frame list" | WirePing | WireClose

fun drain_queue :: "('a frame \<times> bool) list \<Rightarrow> 'a frame list option" where
  "drain_queue [] = Some []"
| "drain_queue ((f, ok) # fs) = (if ok then map_option ((#) f) (drain_queue fs) else None)"

definition write_text :: "'a frame \<Rightarrow> bool \<Rightarrow> ('a frame \<times> bool) list \<Rightarrow> bool \<Rightarrow> bool \<Rightarrow> 'a frame list option" where
  "write_text msg opened extra ok closes =
     (if \<not> opened then None
      else if \<not> ok then None
      else case drain_queue extra of None \<Rightarrow> None | Some fs \<Rightarrow> if closes then Some (msg # fs) else None)"

text \<open>The messages on the wire, and whether the pump has ended (and with it closed the connection).\<close>

fun writePump :: "'a write_event list \<Rightarrow> 'a wire list \<times> bool" where
  "writePump [] = ([], False)"
| "writePump (QueueClosed # es) = ([WireClose], True)"
| "writePump (Queued msg opened extra ok closes # es) =
     (case write_text msg opened extra ok closes of
        None \<Rightarrow> ([], True)
      | Some fs \<Rightarrow> apfst ((#) (WireText fs)) (writePump es))"
| "writePump (Tick ok # es) = (if ok then apfst ((#) WirePing) (writePump es) else ([], True))"

section \<open>Reading\<close>

datatype read_event = Pong time | Data time nat | Broken time

datatype read_end = DeadlineAt time | ReadErrorAt time

fun event_time :: "read_event \<Rightarrow> time" where
  "event_time (Pong t) = t" | "event_time (Data t n) = t" | "event_time (Broken t) = t"

text \<open>With no further event the read ends at its deadline; either way the client is unregistered.\<close>

fun read_loop :: "time \<Rightarrow> read_event list \<Rightarrow> read_end" where
  "read_loop deadline [] = DeadlineAt deadline"
| "read_loop deadline (e # es) =
     (if deadline < event_time e then DeadlineAt deadline
      else case e of
        Pong t \<Rightarrow> read_loop (t + pongWait) es
      | Data t n \<Rightarrow> if maxMessageSize < n then ReadErrorAt t else read_loop deadline es
      | Broken t \<Rightarrow> ReadErrorAt t)"

definition readPump :: "time \<Rightarrow> read_event list \<Rightarrow> client_id \<Rightarrow> 'a hub \<Rightarrow> read_end \<times> 'a hub" where
  "readPump now es i h = (read_loop (now + pongWait) es, h\<lparr>h_unregister := h_unregister h @ [i]\<rparr>)"

section \<open>The subscription\<close>

text \<open>
  One subscription forwards messages until it is cancelled or the channel closes; the loop around it subscribes again
  after an error, two seconds later, until it is cancelled.
\<close>

datatype 'a sub_event = SubMessage string 'a | SubClosed | SubCancelled

fun runPubSubOnce :: "'a sub_event list \<Rightarrow> 'a hub \<Rightarrow> error option \<times> 'a hub" where
  "runPubSubOnce [] h = (None, h)"
| "runPubSubOnce (SubMessage ch p # es) h = runPubSubOnce es (dispatchPubSubMsg ch p h)"
| "runPubSubOnce (SubClosed # es) h = (Some ''pubsub channel closed'', h)"
| "runPubSubOnce (SubCancelled # es) h = (None, h)"

text \<open>Each round: whether the subscription is confirmed, its events, and whether the loop is cancelled in the pause.\<close>

fun redisPubSubLoop :: "(bool \<times> 'a sub_event list \<times> bool) list \<Rightarrow> 'a hub \<Rightarrow> 'a hub" where
  "redisPubSubLoop [] h = h"
| "redisPubSubLoop ((confirmed, es, cancelled) # rounds) h =
     (case if confirmed then runPubSubOnce es h else (Some ''PSubscribe'', h) of
        (None, h) \<Rightarrow> h
      | (Some _, h) \<Rightarrow> if cancelled then h else redisPubSubLoop rounds h)"

section \<open>Frames arrive once and in order\<close>

fun offered :: "'a write_event list \<Rightarrow> 'a frame list" where
  "offered [] = []"
| "offered (Queued msg opened extra ok closes # es) = msg # map fst extra @ offered es"
| "offered (e # es) = offered es"

definition wire_frames :: "'a wire list \<Rightarrow> 'a frame list" where
  "wire_frames ws = concat (map (\<lambda>w. case w of WireText fs \<Rightarrow> fs | _ \<Rightarrow> []) ws)"

lemma wire_frames_simps [simp]:
  "wire_frames [] = []" "wire_frames (WireText fs # ws) = fs @ wire_frames ws" "wire_frames (WirePing # ws) = wire_frames ws"
  "wire_frames (WireClose # ws) = wire_frames ws"
  by (simp_all add: wire_frames_def)

lemma drain_queue_all: "drain_queue extra = Some fs \<Longrightarrow> fs = map fst extra"
  by (induction extra arbitrary: fs rule: drain_queue.induct) (auto split: if_splits)

lemma write_text_all: "write_text msg opened extra ok closes = Some fs \<Longrightarrow> fs = msg # map fst extra"
  by (auto simp: write_text_def dest: drain_queue_all split: if_splits option.splits)

text \<open>What reaches the wire is a prefix of what the hub queued; nothing is reordered, repeated or skipped.\<close>

lemma writePump_prefix: "\<exists>rest. offered es = wire_frames (fst (writePump es)) @ rest"
proof (induction es rule: writePump.induct)
  case (3 msg opened extra ok closes es)
  then show ?case
  proof (cases "write_text msg opened extra ok closes")
    case None
    then show ?thesis by simp
  next
    case (Some fs)
    with 3 obtain rest where "offered es = wire_frames (fst (writePump es)) @ rest" by blast
    then show ?thesis using Some write_text_all [OF Some] by simp
  qed
qed (auto simp: apfst_def map_prod_def split: prod.split)

section \<open>Keeping a connection alive\<close>

fun pongs :: "read_event list \<Rightarrow> time list" where
  "pongs [] = []"
| "pongs (Pong t # es) = t # pongs es"
| "pongs (e # es) = pongs es"

fun harmless :: "read_event \<Rightarrow> bool" where
  "harmless (Pong t) = True" | "harmless (Data t n) = (n \<le> maxMessageSize)" | "harmless (Broken t) = False"

fun gaps_within :: "time \<Rightarrow> time \<Rightarrow> time list \<Rightarrow> bool" where
  "gaps_within w t [] = True"
| "gaps_within w t (p # ps) = (p \<le> t + w \<and> gaps_within w p ps)"

lemma pongs_times: "p \<in> set (pongs es) \<Longrightarrow> p \<in> event_time ` set es"
  by (induction es rule: pongs.induct) auto

lemma read_loop_last_pong:
  assumes "sorted (map event_time es)" and "list_all harmless es" and "gaps_within pongWait t (pongs es)"
  shows "read_loop (t + pongWait) es = DeadlineAt (last (t # pongs es) + pongWait)"
  using assms
proof (induction es arbitrary: t)
  case Nil
  then show ?case by simp
next
  case (Cons e es)
  show ?case
  proof (cases e)
    case (Pong p)
    then show ?thesis using Cons.prems Cons.IH [of p] by simp
  next
    case (Data d n)
    have none: "pongs es = []" if "t + pongWait < d"
    proof (rule ccontr)
      assume "pongs es \<noteq> []"
      then obtain p ps where p: "pongs es = p # ps" by (cases "pongs es") auto
      then have "d \<le> p" using pongs_times [of p es] Cons.prems(1) Data by auto
      then show False using Cons.prems(3) Data p that by simp
    qed
    show ?thesis using Cons.prems Cons.IH [of t] Data none by auto
  next
    case (Broken b)
    then show ?thesis using Cons.prems(2) by simp
  qed
qed

text \<open>
  Pings are due every 45 seconds; suppose each is delayed by no more than the ten seconds one write may take (the select
  may prefer a queued frame over a due tick more than once, so this is an assumption). A client that answers every ping
  within five seconds is then never cut off before 60 seconds after its last answer, whatever else of acceptable size it
  sends; the five seconds are what \<open>pongWait\<close> leaves.
\<close>

definition ping_time :: "(nat \<Rightarrow> time) \<Rightarrow> time \<Rightarrow> nat \<Rightarrow> time" where
  "ping_time delay now k = now + pingPeriod * (int k + 1) + delay k"

lemma answered_gaps:
  assumes "\<And>k. 0 \<le> delay k \<and> delay k \<le> writeWait" and "\<And>k. 0 \<le> answer k \<and> answer k \<le> 5 * second_ns"
  shows "gaps_within pongWait (ping_time delay now m + answer m) (map (\<lambda>k. ping_time delay now k + answer k) [Suc m..<n])"
proof (induction "n - Suc m" arbitrary: m)
  case 0
  then show ?case by simp
next
  case (Suc d)
  then have m: "Suc m < n" by simp
  have "ping_time delay now (Suc m) + answer (Suc m) \<le> ping_time delay now m + answer m + pongWait"
    using assms(1) [of m] assms(1) [of "Suc m"] assms(2) [of m] assms(2) [of "Suc m"]
    by (simp add: ping_time_def pingPeriod_def writeWait_def pongWait_def algebra_simps)
  moreover have "gaps_within pongWait (ping_time delay now (Suc m) + answer (Suc m))
      (map (\<lambda>k. ping_time delay now k + answer k) [Suc (Suc m)..<n])"
    using Suc by simp
  ultimately show ?case using m by (simp add: upt_conv_Cons)
qed

lemma answering_client_stays:
  assumes "\<And>k. 0 \<le> delay k \<and> delay k \<le> writeWait" and "\<And>k. 0 \<le> answer k \<and> answer k \<le> 5 * second_ns"
    and "sorted (map event_time es)" and "list_all harmless es"
    and "pongs es = map (\<lambda>k. ping_time delay now k + answer k) [0..<Suc n]"
  shows "fst (readPump now es i h) = DeadlineAt (ping_time delay now n + answer n + pongWait)"
proof -
  have p: "pongs es = (ping_time delay now 0 + answer 0) # map (\<lambda>k. ping_time delay now k + answer k) [Suc 0..<Suc n]"
    using assms(5) by (simp add: upt_conv_Cons del: upt_Suc)
  have first: "ping_time delay now 0 + answer 0 \<le> now + pongWait"
    using assms(1) [of 0] assms(2) [of 0]
    by (simp add: ping_time_def pingPeriod_def writeWait_def pongWait_def)
  have "gaps_within pongWait now (pongs es)"
    using first answered_gaps [OF assms(1,2), where now = now and m = 0 and n = "Suc n"] by (simp add: p del: upt_Suc)
  then have "fst (readPump now es i h) = DeadlineAt (last (now # pongs es) + pongWait)"
    using read_loop_last_pong [OF assms(3,4)] by (simp add: readPump_def)
  then show ?thesis by (simp add: assms(5))
qed

end
