(* ===== verification/Storage.thy ===== *)
theory Storage
  imports Go_Strings
begin

text \<open>
  Package \<open>storage\<close>: the object store behind submissions and test data (\<open>storage.go\<close>, \<open>minio.go\<close>). The MinIO
  client is a parameter, a record of its calls on a remote state of any type; so is which of the local
  file operations fail. The local files are a map from paths to contents.
\<close>

section \<open>The client and its errors\<close>

definition BucketSubmissions :: string where "BucketSubmissions = ''submissions''"
definition BucketTestcases :: string where "BucketTestcases = ''testcases''"

datatype minio_error = ErrorResponse string int | OtherError

record object_info =
  oi_Key :: string
  oi_Size :: int
  oi_ContentType :: string
  oi_LastModified :: int
  oi_ETag :: string

record 'r minio_client =
  mc_PutObject :: "string \<Rightarrow> string \<Rightarrow> string \<Rightarrow> int \<Rightarrow> string \<Rightarrow> 'r \<Rightarrow> minio_error option \<times> 'r"
  mc_GetObject :: "string \<Rightarrow> string \<Rightarrow> 'r \<Rightarrow> minio_error + string"
  mc_StatObject :: "string \<Rightarrow> string \<Rightarrow> 'r \<Rightarrow> minio_error + object_info"
  mc_RemoveObject :: "string \<Rightarrow> string \<Rightarrow> 'r \<Rightarrow> minio_error option \<times> 'r"
  mc_BucketExists :: "string \<Rightarrow> 'r \<Rightarrow> minio_error + bool"
  mc_MakeBucket :: "string \<Rightarrow> string \<Rightarrow> 'r \<Rightarrow> minio_error option \<times> 'r"
  mc_Presigned :: "string \<Rightarrow> string \<Rightarrow> int \<Rightarrow> 'r \<Rightarrow> minio_error + string"

datatype store_error = ErrNotFound string | StoreError string

definition isNotFound :: "minio_error \<Rightarrow> bool" where
  "isNotFound err =
     (case err of ErrorResponse code status \<Rightarrow> code = ''NoSuchKey'' \<or> code = ''NoSuchBucket'' \<or> status = 404 | OtherError \<Rightarrow> False)"

definition isAlreadyExists :: "minio_error \<Rightarrow> bool" where
  "isAlreadyExists err =
     (case err of ErrorResponse code _ \<Rightarrow> code = ''BucketAlreadyOwnedByYou'' \<or> code = ''BucketAlreadyExists'' | OtherError \<Rightarrow> False)"

definition wrapErr :: "minio_error \<Rightarrow> string \<Rightarrow> string \<Rightarrow> store_error" where
  "wrapErr err bucket key =
     (if isNotFound err then ErrNotFound (bucket @ ''/'' @ key) else StoreError (''minio '' @ bucket @ ''/'' @ key))"

section \<open>Operations\<close>

definition Store_Put :: "'r minio_client \<Rightarrow> string \<Rightarrow> string \<Rightarrow> string \<Rightarrow> int \<Rightarrow> string \<Rightarrow> 'r \<Rightarrow> store_error option \<times> 'r" where
  "Store_Put mc bucket key content n contentType r =
     (case mc_PutObject mc bucket key content n (if contentType = [] then ''application/octet-stream'' else contentType) r of
        (Some _, r) \<Rightarrow> (Some (StoreError (''minio Put '' @ bucket @ ''/'' @ key)), r)
      | (None, r) \<Rightarrow> (None, r))"

definition Store_PutFile ::
  "'r minio_client \<Rightarrow> (string \<rightharpoonup> string) \<Rightarrow> (string \<Rightarrow> bool) \<Rightarrow> string \<Rightarrow> string \<Rightarrow> string \<Rightarrow> string \<Rightarrow> 'r \<Rightarrow> store_error option \<times> 'r" where
  "Store_PutFile mc files stat_ok bucket key srcPath contentType r =
     (case files srcPath of
        None \<Rightarrow> (Some (StoreError (''minio PutFile open '' @ srcPath)), r)
      | Some content \<Rightarrow>
          if \<not> stat_ok srcPath then (Some (StoreError (''minio PutFile stat '' @ srcPath)), r)
          else Store_Put mc bucket key content (int (length content)) contentType r)"

definition Store_Get :: "'r minio_client \<Rightarrow> string \<Rightarrow> string \<Rightarrow> 'r \<Rightarrow> store_error + string" where
  "Store_Get mc bucket key r =
     (case mc_GetObject mc bucket key r of
        Inl err \<Rightarrow> Inl (wrapErr err bucket key)
      | Inr content \<Rightarrow>
          (case mc_StatObject mc bucket key r of Inl err \<Rightarrow> Inl (wrapErr err bucket key) | Inr _ \<Rightarrow> Inr content))"

text \<open>Which local operations fail, and how much of a download arrives before it breaks off.\<close>

record local_io =
  li_create_ok :: bool
  li_copied :: "nat option"
  li_close_ok :: bool
  li_rename_ok :: bool
  li_remove_ok :: bool

definition remove_file :: "local_io \<Rightarrow> string \<Rightarrow> (string \<rightharpoonup> string) \<Rightarrow> (string \<rightharpoonup> string)" where
  "remove_file io path files = (if li_remove_ok io then files(path := None) else files)"

definition GetToFile ::
  "'r minio_client \<Rightarrow> local_io \<Rightarrow> string \<Rightarrow> string \<Rightarrow> string \<Rightarrow> 'r \<Rightarrow> (string \<rightharpoonup> string) \<Rightarrow> store_error option \<times> (string \<rightharpoonup> string)" where
  "GetToFile mc io bucket key destPath r files =
     (case Store_Get mc bucket key r of
        Inl e \<Rightarrow> (Some e, files)
      | Inr content \<Rightarrow>
          let tmp = destPath @ ''.tmp''
          in if \<not> li_create_ok io then (Some (StoreError (''minio GetToFile create tmp '' @ tmp)), files)
             else case li_copied io of
               Some n \<Rightarrow> (Some (StoreError (''minio GetToFile copy '' @ bucket @ ''/'' @ key)),
                          remove_file io tmp (files(tmp \<mapsto> take n content)))
             | None \<Rightarrow>
                 let files = files(tmp \<mapsto> content)
                 in if \<not> li_close_ok io then (Some (StoreError ''minio GetToFile close tmp''), remove_file io tmp files)
                    else if \<not> li_rename_ok io then (Some (StoreError ''minio GetToFile rename''), remove_file io tmp files)
                    else (None, (files(destPath \<mapsto> content))(tmp := None)))"

definition trim_quotes :: "string \<Rightarrow> string" where
  "trim_quotes s = rev (dropWhile (\<lambda>c. c = CHR 0x22) (rev (dropWhile (\<lambda>c. c = CHR 0x22) s)))"

definition Store_Stat :: "'r minio_client \<Rightarrow> string \<Rightarrow> string \<Rightarrow> 'r \<Rightarrow> store_error + object_info" where
  "Store_Stat mc bucket key r =
     (case mc_StatObject mc bucket key r of
        Inl err \<Rightarrow> Inl (wrapErr err bucket key)
      | Inr info \<Rightarrow> Inr (info\<lparr>oi_ETag := trim_quotes (oi_ETag info)\<rparr>))"

definition Store_Delete :: "'r minio_client \<Rightarrow> string \<Rightarrow> string \<Rightarrow> 'r \<Rightarrow> store_error option \<times> 'r" where
  "Store_Delete mc bucket key r =
     (case mc_RemoveObject mc bucket key r of
        (Some err, r) \<Rightarrow> (if isNotFound err then None else Some (StoreError (''minio Delete '' @ bucket @ ''/'' @ key)), r)
      | (None, r) \<Rightarrow> (None, r))"

definition EnsureBucket :: "'r minio_client \<Rightarrow> string \<Rightarrow> string \<Rightarrow> 'r \<Rightarrow> store_error option \<times> 'r" where
  "EnsureBucket mc region bucket r =
     (case mc_BucketExists mc bucket r of
        Inl _ \<Rightarrow> (Some (StoreError (''minio EnsureBucket exists check '' @ bucket)), r)
      | Inr True \<Rightarrow> (None, r)
      | Inr False \<Rightarrow>
          (case mc_MakeBucket mc bucket region r of
             (Some err, r) \<Rightarrow> (if isAlreadyExists err then None else Some (StoreError (''minio EnsureBucket make '' @ bucket)), r)
           | (None, r) \<Rightarrow> (None, r)))"

definition PresignedGetURL :: "'r minio_client \<Rightarrow> string \<Rightarrow> string \<Rightarrow> int \<Rightarrow> 'r \<Rightarrow> store_error + string" where
  "PresignedGetURL mc bucket key expiry r =
     (case mc_Presigned mc bucket key expiry r of
        Inl _ \<Rightarrow> Inl (StoreError (''minio presign '' @ bucket @ ''/'' @ key)) | Inr u \<Rightarrow> Inr u)"

section \<open>Downloads are all or nothing\<close>

lemma tmp_other [simp]: "destPath @ ''.tmp'' \<noteq> destPath" "destPath \<noteq> destPath @ ''.tmp''"
  by simp_all

text \<open>
  A download replaces its destination as a whole or leaves it alone. Wherever it breaks off (the object is
  missing, the temporary file cannot be made, the transfer stops half way, closing or renaming fails), the file at the
  destination is what it was; on success it is the complete object. No file but the destination and its temporary
  neighbour changes, and no temporary file is left behind if deleting files works.
\<close>

theorem GetToFile_all_or_nothing:
  assumes "GetToFile mc io bucket key destPath r files = (res, files')"
  shows "(case res of
        Some _ \<Rightarrow> files' destPath = files destPath
      | None \<Rightarrow> \<exists>content. Store_Get mc bucket key r = Inr content \<and> files' destPath = Some content) \<and>
    (\<forall>p. p \<noteq> destPath \<and> p \<noteq> destPath @ ''.tmp'' \<longrightarrow> files' p = files p) \<and>
    (li_remove_ok io \<and> files (destPath @ ''.tmp'') = None \<longrightarrow> files' (destPath @ ''.tmp'') = None)"
  using assms
  by (auto simp: GetToFile_def remove_file_def Let_def split: sum.splits if_splits option.splits)

text \<open>A download of five bytes that stops after two.\<close>

definition client0 :: "(string \<rightharpoonup> string) minio_client" where
  "client0 = \<lparr>mc_PutObject = (\<lambda>_ key content _ _ r. (None, r(key \<mapsto> content))),
     mc_GetObject = (\<lambda>_ key r. case r key of None \<Rightarrow> Inl (ErrorResponse ''NoSuchKey'' 404) | Some c \<Rightarrow> Inr c),
     mc_StatObject = (\<lambda>_ key r. Inr \<lparr>oi_Key = key, oi_Size = 0, oi_ContentType = [], oi_LastModified = 0, oi_ETag = []\<rparr>),
     mc_RemoveObject = (\<lambda>_ key r. (None, r(key := None))), mc_BucketExists = (\<lambda>_ _. Inr True), mc_MakeBucket = (\<lambda>_ _ r. (None, r)),
     mc_Presigned = (\<lambda>_ key _ _. Inr key)\<rparr>"

definition broken0 :: local_io where
  "broken0 = \<lparr>li_create_ok = True, li_copied = Some 2, li_close_ok = True, li_rename_ok = True, li_remove_ok = True\<rparr>"

theorem GetToFile_all_or_nothing_witness:
  "snd (GetToFile client0 broken0 ''b'' ''k'' ''out'' [''k'' \<mapsto> ''hello''] [''out'' \<mapsto> ''old'']) ''out'' = Some ''old'' \<and>
   fst (GetToFile client0 broken0 ''b'' ''k'' ''out'' [''k'' \<mapsto> ''hello''] [''out'' \<mapsto> ''old'']) \<noteq> None"
proof -
  let ?out = "GetToFile client0 broken0 ''b'' ''k'' ''out'' [''k'' \<mapsto> ''hello''] [''out'' \<mapsto> ''old'']"
  obtain res files' where out: "?out = (res, files')" by fastforce
  have err: "fst ?out \<noteq> None" by (simp add: GetToFile_def Store_Get_def client0_def broken0_def Let_def)
  then show ?thesis
    using GetToFile_all_or_nothing [OF out] unfolding out by (auto split: option.splits)
qed

text \<open>Deleting what is not there and ensuring a bucket that exists succeed.\<close>

lemma Delete_missing:
  "mc_RemoveObject mc bucket key r = (Some err, r') \<Longrightarrow> isNotFound err \<Longrightarrow> Store_Delete mc bucket key r = (None, r')"
  by (simp add: Store_Delete_def)

lemma EnsureBucket_race:
  "mc_BucketExists mc b r = Inr False \<Longrightarrow> mc_MakeBucket mc b region r = (Some err, r') \<Longrightarrow> isAlreadyExists err \<Longrightarrow>
   EnsureBucket mc region b r = (None, r')"
  by (simp add: EnsureBucket_def)

end
