(* ===== verification/Mail.thy ===== *)
theory Mail
  imports Go_Strings
begin

text \<open>
  Package \<open>mail\<close> (\<open>mailer.go\<close>): choice of the mailer, the dialogue over implicit TLS and the message itself.
  The SMTP client is a parameter: which step of the dialogue fails, and the outcome of
  \<open>smtp.SendMail\<close>; so are the encoding of the subject and the formatted date.
\<close>

section \<open>Mailers\<close>

record mail_config =
  ml_Host :: string
  ml_Port :: int
  ml_User :: string
  ml_Pass :: string
  ml_From :: string

datatype mailer = LogMailer | SmtpMailer mail_config string

definition NewMailer :: "mail_config \<Rightarrow> mailer" where
  "NewMailer cfg =
     (if TrimSpace (ml_Host cfg) = [] then LogMailer
      else SmtpMailer (if ml_Port cfg = 0 then cfg\<lparr>ml_Port := 465\<rparr> else cfg)
             (if TrimSpace (ml_From cfg) = [] then ml_User cfg else ml_From cfg))"

definition Enabled :: "mailer \<Rightarrow> bool" where
  "Enabled m = (case m of LogMailer \<Rightarrow> False | SmtpMailer _ _ \<Rightarrow> True)"

section \<open>Sending\<close>

definition crlf :: string where "crlf = [CHR 0x0D, CHR 0x0A]"

definition buildMessage :: "(string \<Rightarrow> string) \<Rightarrow> string \<Rightarrow> string \<Rightarrow> string \<Rightarrow> string \<Rightarrow> string \<Rightarrow> string" where
  "buildMessage encode date from to subject body =
     ''From: '' @ from @ crlf @ ''To: '' @ to @ crlf @ ''Subject: '' @ encode subject @ crlf @
     ''MIME-Version: 1.0'' @ crlf @ ''Content-Type: text/plain; charset=UTF-8'' @ crlf @
     ''Date: '' @ date @ crlf @ crlf @ body"

datatype smtp_step = StepDial | StepClient | StepAuth | StepMail string | StepRcpt string | StepData | StepWrite string
  | StepClose | StepQuit

record smtp_env =
  sm_ok :: "smtp_step \<Rightarrow> bool"
  sm_send_mail :: "string \<Rightarrow> string \<Rightarrow> string \<Rightarrow> string \<Rightarrow> bool"
  sm_encode :: "string \<Rightarrow> string"
  sm_date :: string

text \<open>The steps carried out, up to the first that fails, and whether all succeeded.\<close>

fun dialogue :: "(smtp_step \<Rightarrow> bool) \<Rightarrow> smtp_step list \<Rightarrow> smtp_step list \<times> bool" where
  "dialogue ok [] = ([], True)"
| "dialogue ok (s # ss) = (if ok s then (case dialogue ok ss of (rest, b) \<Rightarrow> (s # rest, b)) else ([s], False))"

definition sendImplicitTLS :: "smtp_env \<Rightarrow> string \<Rightarrow> string \<Rightarrow> string \<Rightarrow> smtp_step list \<times> bool" where
  "sendImplicitTLS env from to msg =
     dialogue (sm_ok env) [StepDial, StepClient, StepAuth, StepMail from, StepRcpt to, StepData, StepWrite msg, StepClose, StepQuit]"

text \<open>\<open>net.JoinHostPort\<close>: a host with a colon or a percent sign is an IPv6 literal and is bracketed.\<close>

definition JoinHostPort :: "string \<Rightarrow> string \<Rightarrow> string" where
  "JoinHostPort host port =
     (if CHR 0x3A \<in> set host \<or> CHR 0x25 \<in> set host then ''['' @ host @ '']:'' @ port else host @ '':'' @ port)"

definition Send :: "smtp_env \<Rightarrow> mailer \<Rightarrow> string \<Rightarrow> string \<Rightarrow> string \<Rightarrow> bool" where
  "Send env m to subject body =
     (case m of
        LogMailer \<Rightarrow> True
      | SmtpMailer cfg from \<Rightarrow>
          let msg = buildMessage (sm_encode env) (sm_date env) from to subject body
          in if ml_Port cfg = 465 then snd (sendImplicitTLS env from to msg)
             else sm_send_mail env (JoinHostPort (ml_Host cfg) (show_int (ml_Port cfg))) from to msg)"

section \<open>The dialogue and the shape of a message\<close>

lemma dialogue_all: "snd (dialogue ok ss) \<longleftrightarrow> list_all ok ss"
  by (induction ss) (auto split: prod.splits)

lemma dialogue_prefix: "\<exists>rest. ss = fst (dialogue ok ss) @ rest"
  by (induction ss) (auto split: prod.split)

text \<open>A message is handed over only after sender and recipient have been accepted.\<close>

lemma write_after_recipient:
  assumes "StepWrite msg \<in> set (fst (sendImplicitTLS env from to msg'))"
  shows "msg = msg' \<and> sm_ok env StepAuth \<and> sm_ok env (StepMail from) \<and> sm_ok env (StepRcpt to)"
  using assms by (auto simp: sendImplicitTLS_def split: if_splits prod.splits)

text \<open>Up to the first empty line a message consists of its six header lines, and the rest is the body.\<close>

fun split_header :: "string \<Rightarrow> string \<times> string" where
  "split_header (a # b # c # d # s) =
     (if [a, b, c, d] = crlf @ crlf then ([], s) else case split_header (b # c # d # s) of (h, body) \<Rightarrow> (a # h, body))"
| "split_header s = (s, [])"

definition no_cr :: "string \<Rightarrow> bool" where
  "no_cr s \<longleftrightarrow> CHR 0x0D \<notin> set s"

lemma split_header_char: "c \<noteq> CHR 0x0D \<Longrightarrow> 4 \<le> length s \<Longrightarrow> split_header (c # s) = apfst ((#) c) (split_header s)"
  by (cases s rule: split_header.cases) (auto simp: crlf_def split: prod.split)

lemma split_header_free:
  assumes "no_cr t" and "4 \<le> length s"
  shows "split_header (t @ s) = apfst ((@) t) (split_header s)"
  using assms(1)
proof (induction t)
  case Nil
  then show ?case by (cases "split_header s") simp
next
  case (Cons c t)
  then have "c \<noteq> CHR 0x0D" "no_cr t" by (auto simp: no_cr_def)
  moreover have "4 \<le> length (t @ s)" using assms(2) by simp
  ultimately show ?case using Cons.IH by (cases "split_header s") (simp add: split_header_char)
qed

lemma split_header_newline:
  assumes "hd s \<noteq> CHR 0x0D" and "4 \<le> length s"
  shows "split_header (crlf @ s) = apfst ((@) crlf) (split_header s)"
proof -
  obtain a b d u where s: "s = a # b # d # u" using assms(2) by (auto simp: numeral_eq_Suc Suc_le_length_iff)
  show ?thesis using assms(1) by (cases "split_header s") (simp add: crlf_def s)
qed

lemma split_header_line:
  assumes "no_cr t" and "hd s \<noteq> CHR 0x0D" and "4 \<le> length s"
  shows "split_header (t @ crlf @ s) = apfst ((@) (t @ crlf)) (split_header s)"
  using split_header_free [OF assms(1), of "crlf @ s"] split_header_newline [OF assms(2,3)] assms(3)
  by (cases "split_header s") simp

lemma split_header_blank: "no_cr t \<Longrightarrow> split_header (t @ crlf @ crlf @ body) = (t, body)"
  using split_header_free [of t "crlf @ crlf @ body"] by (simp add: crlf_def)

text \<open>
  If neither address nor the encoded subject contains a carriage return, what the recipient reads as the body is exactly
  the body; a carriage return in an address would let it add header lines or a body of its own.
\<close>

lemma message_body:
  assumes "no_cr from" and "no_cr to" and "no_cr (encode subject)" and "no_cr date"
  shows "snd (split_header (buildMessage encode date from to subject body)) = body"
proof -
  let ?d = "''Date: '' @ date"
  let ?c = "''Content-Type: text/plain; charset=UTF-8'' @ crlf @ ?d @ crlf @ crlf @ body"
  let ?m = "''MIME-Version: 1.0'' @ crlf @ ?c"
  let ?s = "(''Subject: '' @ encode subject) @ crlf @ ?m"
  let ?t = "(''To: '' @ to) @ crlf @ ?s"
  have d: "snd (split_header (?d @ crlf @ crlf @ body)) = body"
    by (subst split_header_blank) (use assms(4) in \<open>simp_all add: no_cr_def\<close>)
  have c: "snd (split_header ?c) = body"
    using split_header_line [of "''Content-Type: text/plain; charset=UTF-8''" "?d @ crlf @ crlf @ body"] d
    by (simp add: no_cr_def)
  have m: "snd (split_header ?m) = body"
    using split_header_line [of "''MIME-Version: 1.0''" ?c] c by (simp add: no_cr_def)
  have s: "snd (split_header ?s) = body"
    using split_header_line [of "''Subject: '' @ encode subject" ?m] m assms(3) by (simp add: no_cr_def)
  have t: "snd (split_header ?t) = body"
    using split_header_line [of "''To: '' @ to" ?s] s assms(2) by (simp add: no_cr_def)
  have "snd (split_header ((''From: '' @ from) @ crlf @ ?t)) = body"
    using split_header_line [of "''From: '' @ from" ?t] t assms(1) by (simp add: no_cr_def)
  then show ?thesis by (simp add: buildMessage_def)
qed

end
