(* ===== verification/Startup.thy ===== *)
theory Startup
  imports Storage Mail Nsjail Testcase_Cache Message_Queue Result_Consumer
begin

text \<open>
  How the two processes come up: \<open>cmd/api-server/main.go\<close> with the start-up migrations of
  \<open>internal/infra/postgres/migrate.go\<close>, \<open>cmd/judger-node/main.go\<close>, and how the API server stops
  (\<open>Server.Run\<close> and the end of its \<open>main\<close>). Flags are records; what the outside answers (connections, files,
  the attach probe) is a record of the environment. \<open>log.Fatal\<close> and \<open>os.Exit\<close> are an \<open>Inl\<close>.
\<close>

section \<open>Start-up migrations\<close>

text \<open>The column constraint the first statement lifts, and the tables.\<close>

record schema_db =
  sd_email_not_null :: bool
  sd_db :: db

definition drop_not_null :: "schema_db \<Rightarrow> schema_db option" where
  "drop_not_null sd = Some (sd\<lparr>sd_email_not_null := False\<rparr>)"

definition clear_empty_email :: "user \<Rightarrow> user" where
  "clear_empty_email u = (if u_Email u = Some [] then u\<lparr>u_Email := None\<rparr> else u)"

definition empty_to_null :: "schema_db \<Rightarrow> schema_db option" where
  "empty_to_null sd =
     (if sd_email_not_null sd \<and> (\<exists>u \<in> set (db_users (sd_db sd)). u_Email u = Some []) then None
      else Some (sd\<lparr>sd_db := (sd_db sd)\<lparr>db_users := map clear_empty_email (db_users (sd_db sd))\<rparr>\<rparr>))"

definition startupMigrations :: "(string \<times> (schema_db \<Rightarrow> schema_db option)) list" where
  "startupMigrations = [(''users.email drop not null'', drop_not_null), (''users.email empty -> null'', empty_to_null)]"

fun run_migrations ::
  "(string \<Rightarrow> bool) \<Rightarrow> (string \<times> (schema_db \<Rightarrow> schema_db option)) list \<Rightarrow> schema_db \<Rightarrow> error option \<times> schema_db" where
  "run_migrations ok [] sd = (None, sd)"
| "run_migrations ok ((name, stmt) # ms) sd =
     (case if ok name then stmt sd else None of
        None \<Rightarrow> (Some (''migration '' @ name), sd)
      | Some sd \<Rightarrow> run_migrations ok ms sd)"

definition RunStartupMigrations :: "(string \<Rightarrow> bool) \<Rightarrow> schema_db \<Rightarrow> error option \<times> schema_db" where
  "RunStartupMigrations ok sd = run_migrations ok startupMigrations sd"

section \<open>The API server\<close>

record api_flags =
  af_addr :: string
  af_dsn :: string
  af_jwtKey :: string
  af_appName :: string
  af_smtp :: mail_config

record 'r api_env =
  ae_postgres_open :: bool
  ae_postgres_ping :: bool
  ae_stmt_ok :: "string \<Rightarrow> bool"
  ae_minio_new :: bool
  ae_minio :: "'r minio_client"
  ae_redis_ping :: bool
  ae_stream_ok :: "stream_config \<Rightarrow> bool"
  ae_hostname :: string

record api_server =
  as_addr :: string
  as_jwtKey :: string
  as_appName :: string
  as_publisher :: stream_config
  as_rankConsumer :: stream_config
  as_dbConsumer :: stream_config
  as_mailer :: mailer

definition weak_key :: "string \<Rightarrow> bool" where
  "weak_key k \<longleftrightarrow> k = [] \<or> k = ''change-me-in-production'' \<or> length k < 32"

definition hostname :: "string \<Rightarrow> string" where
  "hostname h = (if h = [] then ''api'' else h)"

fun ensure_buckets :: "'r minio_client \<Rightarrow> string \<Rightarrow> string list \<Rightarrow> 'r \<Rightarrow> error option \<times> 'r" where
  "ensure_buckets mc region [] r = (None, r)"
| "ensure_buckets mc region (b # bs) r =
     (case EnsureBucket mc region b r of
        (Some _, r) \<Rightarrow> (Some (''ensure bucket '' @ b), r)
      | (None, r) \<Rightarrow> ensure_buckets mc region bs r)"

definition default_region :: string where "default_region = ''us-east-1''"

definition api_clients :: "api_flags \<Rightarrow> 'r api_env \<Rightarrow> error + api_server" where
  "api_clients fl env =
     (let base = \<lparr>sc_ConsumerGroup = [], sc_ConsumerName = hostname (ae_hostname env)\<rparr>;
          publisher = base\<lparr>sc_ConsumerGroup := ''api-server-pub''\<rparr>;
          rank = base\<lparr>sc_ConsumerGroup := ''ranker'', sc_ConsumerName := hostname (ae_hostname env) @ ''-ranking''\<rparr>;
          dbc = base\<lparr>sc_ConsumerGroup := ''api-server-results''\<rparr>
      in if \<not> ae_redis_ping env then Inl ''redis ping failed''
         else if \<not> ae_stream_ok env publisher then Inl ''publisher init''
         else if \<not> ae_stream_ok env rank then Inl ''rank consumer init''
         else if \<not> ae_stream_ok env dbc then Inl ''db consumer init''
         else Inr \<lparr>as_addr = af_addr fl, as_jwtKey = af_jwtKey fl, as_appName = af_appName fl, as_publisher = publisher,
                   as_rankConsumer = rank, as_dbConsumer = dbc, as_mailer = NewMailer (af_smtp fl)\<rparr>)"

definition api_start ::
  "api_flags \<Rightarrow> 'r api_env \<Rightarrow> schema_db \<Rightarrow> 'r \<Rightarrow> (error + api_server) \<times> schema_db \<times> 'r" where
  "api_start fl env sd r =
     (if weak_key (af_jwtKey fl) then (Inl ''weak jwt-key'', sd, r)
      else if af_dsn fl = [] then (Inl ''-dsn is required'', sd, r)
      else if \<not> ae_postgres_open env then (Inl ''postgres open'', sd, r)
      else if \<not> ae_postgres_ping env then (Inl ''postgres ping'', sd, r)
      else case RunStartupMigrations (ae_stmt_ok env) sd of
        (Some e, sd) \<Rightarrow> (Inl (''postgres migrate: '' @ e), sd, r)
      | (None, sd) \<Rightarrow>
          if \<not> ae_minio_new env then (Inl ''minio init'', sd, r)
          else case ensure_buckets (ae_minio env) default_region [BucketSubmissions, BucketTestcases] r of
            (Some e, r) \<Rightarrow> (Inl e, sd, r)
          | (None, r) \<Rightarrow> (api_clients fl env, sd, r))"

section \<open>The judger node\<close>

record node_flags =
  nf_langs :: string
  nf_workdir :: string
  nf_workers :: int
  nf_nsjail :: string
  nf_seccomp :: string
  nf_cgroup :: string

datatype mkdir_result = MkdirOk | MkdirExists | MkdirFails

record node_env =
  ne_minio_new :: bool
  ne_files :: "string \<rightharpoonup> lang_config list payload"
  ne_hostname :: string
  ne_pid :: int
  ne_stream_ok :: "stream_config \<Rightarrow> bool"
  ne_exists :: "string \<Rightarrow> bool"
  ne_mkdir :: mkdir_result
  ne_child_starts :: bool
  ne_attaches :: bool
  ne_disk :: "string \<rightharpoonup> string"
  ne_listing :: "dir_entry list option"

record judger_node =
  nd_stream :: stream_config
  nd_sandbox :: nsjail_config
  nd_registry :: OrchestratorRegistry
  nd_compiler :: compiler
  nd_cache :: tc_cache
  nd_config :: judger_config

definition resolve_cgroup :: "(string \<Rightarrow> bool) \<Rightarrow> string \<Rightarrow> bool option" where
  "resolve_cgroup exists mode =
     (if mode = ''v1'' then Some False
      else if mode = ''v2'' then Some True
      else if mode = ''auto'' \<or> mode = [] then Some (exists ''/sys/fs/cgroup/cgroup.controllers'')
      else None)"

definition probeCgroupAttach :: "node_env \<Rightarrow> error option" where
  "probeCgroupAttach env =
     (if ne_mkdir env = MkdirFails then Some ''mkdir''
      else if \<not> ne_child_starts env then Some ''start probe child''
      else if \<not> ne_attaches env then Some ''attach pid''
      else None)"

definition node_sandbox :: "node_flags \<Rightarrow> bool \<Rightarrow> bool \<Rightarrow> nsjail_config" where
  "node_sandbox fl v2 disable =
     \<lparr>nc_BinaryPath = nf_nsjail fl, nc_SeccompPolicyPath = nf_seccomp fl, nc_ReadOnlyMounts = [],
      nc_CgroupParent = ''oj-judge'', nc_CgroupRoot = [], nc_CgroupV2 = v2, nc_DisableCgroup = disable,
      nc_InteractorNoSandbox = False\<rparr>"

definition node_start :: "node_flags \<Rightarrow> node_env \<Rightarrow> error + judger_node" where
  "node_start fl env =
     (if \<not> ne_minio_new env then Inl ''minio init''
      else case LoadLangConfigs (ne_files env) (nf_langs fl) of
        Inl e \<Rightarrow> Inl e
      | Inr langs \<Rightarrow>
          let consumer = \<lparr>sc_ConsumerGroup = ''judger-nodes'',
                          sc_ConsumerName = ne_hostname env @ ''-'' @ show_int (ne_pid env)\<rparr>
          in if \<not> ne_stream_ok env consumer then Inl ''redis connect''
             else case resolve_cgroup (ne_exists env) (nf_cgroup fl) of
               None \<Rightarrow> Inl ''invalid -cgroup value''
             | Some v2 \<Rightarrow>
                 (case Sandbox_New (ne_exists env) (node_sandbox fl v2 (v2 \<and> probeCgroupAttach env \<noteq> None)) of
                    Inl e \<Rightarrow> Inl e
                  | Inr sb \<Rightarrow>
                      Inr \<lparr>nd_stream = consumer, nd_sandbox = sb, nd_registry = node_registry,
                           nd_compiler = NewCompiler langs,
                           nd_cache = Prune (ne_listing env) (NewTestcaseCache (nf_workdir fl @ ''/testcases'') 200 (ne_disk env)),
                           nd_config = \<lparr>cfg_Workers = nf_workers fl, cfg_WorkBaseDir = nf_workdir fl,
                             cfg_GlobalTimeoutSec = 0, cfg_GlobalTimeout = 5 * minute_ns\<rparr>\<rparr>))"

section \<open>Stopping the API server\<close>

text \<open>
  The goroutine of \<open>Server.Run\<close> and the main goroutine. The first stops listening when the context is cancelled,
  waits for the requests in flight or its time limit, and returns. The second leaves its \<open>select\<close> on the
  cancellation, or on an error of a service, and ends the process.
\<close>

datatype serve_phase = Listening | Draining | Stopped "error option"

record api_process =
  ap_cancelled :: bool
  ap_error :: bool
  ap_phase :: serve_phase
  ap_in_flight :: nat
  ap_exited :: bool

definition api_process0 :: api_process where
  "api_process0 = \<lparr>ap_cancelled = False, ap_error = False, ap_phase = Listening, ap_in_flight = 0, ap_exited = False\<rparr>"

inductive Run_step :: "api_process \<Rightarrow> api_process \<Rightarrow> bool" where
  arrive: "ap_phase p = Listening \<Longrightarrow> Run_step p (p\<lparr>ap_in_flight := ap_in_flight p + 1\<rparr>)"
| answer: "0 < ap_in_flight p \<Longrightarrow> Run_step p (p\<lparr>ap_in_flight := ap_in_flight p - 1\<rparr>)"
| listen_fails: "ap_phase p = Listening \<Longrightarrow> Run_step p (p\<lparr>ap_phase := Stopped (Some e), ap_error := True\<rparr>)"
| drain: "ap_phase p = Listening \<Longrightarrow> ap_cancelled p \<Longrightarrow> Run_step p (p\<lparr>ap_phase := Draining\<rparr>)"
| drained: "ap_phase p = Draining \<Longrightarrow> ap_in_flight p = 0 \<Longrightarrow> Run_step p (p\<lparr>ap_phase := Stopped None\<rparr>)"
| timed_out: "ap_phase p = Draining \<Longrightarrow> Run_step p (p\<lparr>ap_phase := Stopped (Some e), ap_error := True\<rparr>)"

inductive main_step :: "api_process \<Rightarrow> api_process \<Rightarrow> bool" where
  interrupted: "main_step p (p\<lparr>ap_cancelled := True\<rparr>)"
| service_fails: "main_step p (p\<lparr>ap_error := True\<rparr>)"
| main_ends: "ap_cancelled p \<or> ap_error p \<Longrightarrow> main_step p (p\<lparr>ap_cancelled := True, ap_exited := True\<rparr>)"

inductive api_reachable :: "api_process \<Rightarrow> bool" where
  started: "api_reachable api_process0"
| step: "api_reachable p \<Longrightarrow> \<not> ap_exited p \<Longrightarrow> Run_step p q \<or> main_step p q \<Longrightarrow> api_reachable q"

text \<open>What \<open>Run\<close> promises: it returns without an error only when no request is left.\<close>

lemma Run_drains:
  assumes "api_reachable p"
  shows "(ap_phase p = Stopped None \<longrightarrow> ap_in_flight p = 0) \<and> (ap_exited p \<longrightarrow> ap_cancelled p)"
  using assms
proof (induction rule: api_reachable.induct)
  case started
  then show ?case by (simp add: api_process0_def)
next
  case (step p q)
  then show ?case by (auto elim!: Run_step.cases main_step.cases)
qed

lemma requests_pile_up: "api_reachable (api_process0\<lparr>ap_in_flight := n\<rparr>)"
proof (induction n)
  case 0
  show ?case using api_reachable.started by (simp add: api_process0_def)
next
  case (Suc n)
  have "Run_step (api_process0\<lparr>ap_in_flight := n\<rparr>)
      (api_process0\<lparr>ap_in_flight := n, ap_in_flight := ap_in_flight (api_process0\<lparr>ap_in_flight := n\<rparr>) + 1\<rparr>)"
    by (rule arrive) (simp add: api_process0_def)
  then show ?case using api_reachable.step [OF Suc] by (simp add: api_process0_def)
qed

text \<open>
  The process does not keep that promise: it can end with any number of requests in flight before draining has begun,
  since the main goroutine does not wait for \<open>Run\<close>.
\<close>

lemma exit_drops_requests: "\<exists>p. api_reachable p \<and> ap_exited p \<and> ap_phase p = Listening \<and> ap_in_flight p = n"
proof -
  let ?p = "api_process0\<lparr>ap_in_flight := n\<rparr>"
  have p: "\<not> ap_exited ?p" by (simp add: api_process0_def)
  have c: "api_reachable (?p\<lparr>ap_cancelled := True\<rparr>)"
    using api_reachable.step [OF requests_pile_up p] main_step.interrupted by blast
  have e: "\<not> ap_exited (?p\<lparr>ap_cancelled := True\<rparr>)" by (simp add: api_process0_def)
  have "main_step (?p\<lparr>ap_cancelled := True\<rparr>) ((?p\<lparr>ap_cancelled := True\<rparr>)\<lparr>ap_cancelled := True, ap_exited := True\<rparr>)"
    by (rule main_step.main_ends) simp
  with api_reachable.step [OF c e]
  have "api_reachable ((?p\<lparr>ap_cancelled := True\<rparr>)\<lparr>ap_cancelled := True, ap_exited := True\<rparr>)" by blast
  then show ?thesis by (intro exI conjI) (assumption, simp_all add: api_process0_def)
qed

section \<open>Migrations\<close>

lemma clear_empty_email_facts [simp]:
  "u_ID (clear_empty_email u) = u_ID u" "u_Username (clear_empty_email u) = u_Username u"
  "u_Email (clear_empty_email u) = (if u_Email u = Some [] then None else u_Email u)"
  "clear_empty_email (clear_empty_email u) = clear_empty_email u"
  by (simp_all add: clear_empty_email_def)

definition migrated :: "schema_db \<Rightarrow> schema_db" where
  "migrated sd = \<lparr>sd_email_not_null = False,
     sd_db = (sd_db sd)\<lparr>db_users := map clear_empty_email (db_users (sd_db sd))\<rparr>\<rparr>"

text \<open>The order matters: once the constraint is lifted the second statement cannot violate it.\<close>

lemma RunStartupMigrations_result:
  "RunStartupMigrations ok sd =
     (if \<not> ok ''users.email drop not null'' then (Some ''migration users.email drop not null'', sd)
      else if \<not> ok ''users.email empty -> null'' then
        (Some ''migration users.email empty -> null'', sd\<lparr>sd_email_not_null := False\<rparr>)
      else (None, migrated sd))"
  by (simp add: RunStartupMigrations_def startupMigrations_def drop_not_null_def empty_to_null_def migrated_def)

lemma migrated_idem: "migrated (migrated sd) = migrated sd"
  by (simp add: migrated_def)

lemma migrations_idempotent:
  "fst (RunStartupMigrations ok sd) = None \<Longrightarrow>
   RunStartupMigrations ok (snd (RunStartupMigrations ok sd)) = RunStartupMigrations ok sd"
  by (auto simp: RunStartupMigrations_result migrated_idem split: if_splits)

lemma migrated_no_empty: "u \<in> set (db_users (sd_db (migrated sd))) \<Longrightarrow> u_Email u \<noteq> Some []"
  by (auto simp: migrated_def split: if_splits)

lemma migrated_has [simp]:
  "has_user (sd_db (migrated sd)) = has_user (sd_db sd)" "has_problem (sd_db (migrated sd)) = has_problem (sd_db sd)"
  "has_contest (sd_db (migrated sd)) = has_contest (sd_db sd)"
  by (simp_all add: migrated_def db_has fun_eq_iff image_image)

lemma migrated_ok: "db_ok (sd_db sd) \<Longrightarrow> db_ok (sd_db (migrated sd))"
  unfolding db_ok_def
proof (elim conjE, intro conjI)
  assume "keys_ok (sd_db sd)"
  then show "keys_ok (sd_db (migrated sd))"
    by (auto simp: keys_ok_def migrated_def emails_ok_def comp_def split: if_splits)
next
  assume "fresh_ok (sd_db sd)"
  then show "fresh_ok (sd_db (migrated sd))" by (simp add: fresh_ok_def migrated_def list_all_iff)
next
  assume "refs_ok (sd_db sd)"
  then show "refs_ok (sd_db (migrated sd))"
    unfolding refs_ok_def migrated_has by (simp add: migrated_def)
qed

section \<open>A server that is up\<close>

text \<open>What the client promises: a bucket that was made, or is reported to exist, is found, and making one loses none.\<close>

definition keeps_buckets :: "'r minio_client \<Rightarrow> bool" where
  "keeps_buckets mc \<longleftrightarrow>
     (\<forall>b region r e r'. mc_MakeBucket mc b region r = (e, r') \<and> (case e of None \<Rightarrow> True | Some err \<Rightarrow> isAlreadyExists err)
        \<longrightarrow> mc_BucketExists mc b r' = Inr True) \<and>
     (\<forall>b b' region r e r'. mc_MakeBucket mc b region r = (e, r') \<and> mc_BucketExists mc b' r = Inr True
        \<longrightarrow> mc_BucketExists mc b' r' = Inr True)"

lemma EnsureBucket_exists:
  assumes "keeps_buckets mc" and "EnsureBucket mc region b r = (None, r')"
  shows "mc_BucketExists mc b r' = Inr True"
    and "mc_BucketExists mc b' r = Inr True \<Longrightarrow> mc_BucketExists mc b' r' = Inr True"
  using assms unfolding keeps_buckets_def EnsureBucket_def
  by (fastforce split: sum.splits bool.splits prod.splits option.splits if_splits)+

lemma ensure_buckets_exist:
  assumes "keeps_buckets mc" and "ensure_buckets mc region bs r = (None, r')"
  shows "(\<forall>b \<in> set bs. mc_BucketExists mc b r' = Inr True) \<and>
    (\<forall>b. mc_BucketExists mc b r = Inr True \<longrightarrow> mc_BucketExists mc b r' = Inr True)"
  using assms(2)
proof (induction bs arbitrary: r)
  case Nil
  then show ?case by simp
next
  case (Cons b bs)
  then obtain r1 where r1: "EnsureBucket mc region b r = (None, r1)" "ensure_buckets mc region bs r1 = (None, r')"
    by (auto split: prod.splits option.splits)
  with Cons.IH [OF r1(2)] EnsureBucket_exists [OF assms(1) r1(1)] show ?case by auto
qed

lemma weak_key_length: "weak_key k \<longleftrightarrow> length k < 32"
  by (auto simp: weak_key_def)

lemma api_start_steps:
  assumes "api_start fl env sd r = (Inr srv, sd', r')"
  shows "\<not> weak_key (af_jwtKey fl)" and "af_dsn fl \<noteq> []" and "sd' = migrated sd"
    and "ensure_buckets (ae_minio env) default_region [BucketSubmissions, BucketTestcases] r = (None, r')"
    and "api_clients fl env = Inr srv"
  using assms by (auto simp: api_start_def RunStartupMigrations_result split: if_splits prod.splits option.splits)

lemma api_clients_fields:
  assumes "api_clients fl env = Inr srv"
  shows "as_jwtKey srv = af_jwtKey fl" and "as_mailer srv = NewMailer (af_smtp fl)"
    and "map sc_ConsumerGroup [as_publisher srv, as_rankConsumer srv, as_dbConsumer srv] =
      [''api-server-pub'', ''ranker'', ''api-server-results'']"
  using assms by (auto simp: api_clients_def Let_def split: if_splits)

text \<open>
  C12: An API server that comes up has a signing key of at least 32 bytes and both buckets; its database has no empty
  address and still satisfies the integrity the repositories rely on; and ranking and persistence read the results under
  different consumer groups, so that each of them sees every result.
\<close>

theorem api_server_ready:
  assumes "api_start fl env sd r = (Inr srv, sd', r')" and "keeps_buckets (ae_minio env)" and "db_ok (sd_db sd)"
  shows "32 \<le> length (as_jwtKey srv) \<and>
    mc_BucketExists (ae_minio env) BucketSubmissions r' = Inr True \<and>
    mc_BucketExists (ae_minio env) BucketTestcases r' = Inr True \<and>
    db_ok (sd_db sd') \<and> Some [] \<notin> u_Email ` set (db_users (sd_db sd')) \<and> \<not> sd_email_not_null sd' \<and>
    distinct (map sc_ConsumerGroup [as_publisher srv, as_rankConsumer srv, as_dbConsumer srv])"
proof -
  note st = api_start_steps [OF assms(1)]
  note fields = api_clients_fields [OF st(5)]
  have "32 \<le> length (as_jwtKey srv)" using st(1) fields(1) weak_key_length by simp
  moreover have "mc_BucketExists (ae_minio env) BucketSubmissions r' = Inr True"
    "mc_BucketExists (ae_minio env) BucketTestcases r' = Inr True"
    using ensure_buckets_exist [OF assms(2) st(4)] by simp_all
  moreover have "db_ok (sd_db sd')" using migrated_ok [OF assms(3)] st(3) by simp
  moreover have "Some [] \<notin> u_Email ` set (db_users (sd_db sd'))" using migrated_no_empty st(3) by fastforce
  moreover have "\<not> sd_email_not_null sd'" using st(3) by (simp add: migrated_def)
  moreover have "distinct (map sc_ConsumerGroup [as_publisher srv, as_rankConsumer srv, as_dbConsumer srv])"
    unfolding fields(3) by simp
  ultimately show ?thesis by simp
qed

text \<open>A first start on a fresh object store, over a table with two accounts, one with an empty address.\<close>

definition bucket_client :: "string list minio_client" where
  "bucket_client = \<lparr>mc_PutObject = (\<lambda>_ _ _ _ _ r. (None, r)), mc_GetObject = (\<lambda>_ _ _. Inl OtherError),
     mc_StatObject = (\<lambda>_ _ _. Inl OtherError), mc_RemoveObject = (\<lambda>_ _ r. (None, r)),
     mc_BucketExists = (\<lambda>b r. Inr (b \<in> set r)), mc_MakeBucket = (\<lambda>b _ r. (None, b # r)),
     mc_Presigned = (\<lambda>_ _ _ _. Inl OtherError)\<rparr>"

definition flags0 :: api_flags where
  "flags0 = \<lparr>af_addr = '':8080'', af_dsn = ''postgres'', af_jwtKey = replicate 32 (CHR ''k''), af_appName = ''OJ'',
     af_smtp = \<lparr>ml_Host = [], ml_Port = 465, ml_User = [], ml_Pass = [], ml_From = []\<rparr>\<rparr>"

definition env0 :: "string list api_env" where
  "env0 = \<lparr>ae_postgres_open = True, ae_postgres_ping = True, ae_stmt_ok = (\<lambda>_. True), ae_minio_new = True,
     ae_minio = bucket_client, ae_redis_ping = True, ae_stream_ok = (\<lambda>_. True), ae_hostname = ''host''\<rparr>"

definition legacy_db :: schema_db where
  "legacy_db = \<lparr>sd_email_not_null = True, sd_db = empty_db\<lparr>db_seq := 3, db_users :=
     [(sample_user ''ann'')\<lparr>u_ID := 1, u_Email := Some []\<rparr>, (sample_user ''bob'')\<lparr>u_ID := 2, u_Email := Some ''b@x''\<rparr>]\<rparr>\<rparr>"

lemma keeps_buckets_client: "keeps_buckets bucket_client"
  by (auto simp: keeps_buckets_def bucket_client_def)

lemma legacy_db_ok: "db_ok (sd_db legacy_db)"
  by (simp add: db_ok_defs emails_ok_def legacy_db_def empty_db_def sample_user_def)

theorem api_server_ready_witness:
  "map u_Email (db_users (sd_db (fst (snd (api_start flags0 env0 legacy_db []))))) = [None, Some ''b@x''] \<and>
   db_ok (sd_db (fst (snd (api_start flags0 env0 legacy_db [])))) \<and>
   set (snd (snd (api_start flags0 env0 legacy_db []))) = {BucketSubmissions, BucketTestcases}"
proof -
  obtain srv where c: "api_clients flags0 env0 = Inr srv"
    by (simp add: api_clients_def env0_def Let_def)
  have flags: "\<not> weak_key (af_jwtKey flags0)" "af_dsn flags0 \<noteq> []" by (simp_all add: weak_key_length flags0_def)
  have env: "ae_postgres_open env0" "ae_postgres_ping env0" "ae_minio_new env0"
    "fst (RunStartupMigrations (ae_stmt_ok env0) legacy_db) = None"
    by (simp_all add: env0_def RunStartupMigrations_result)
  have "ensure_buckets (ae_minio env0) default_region [BucketSubmissions, BucketTestcases] [] =
      (None, [BucketTestcases, BucketSubmissions])"
    by (simp add: env0_def EnsureBucket_def bucket_client_def BucketSubmissions_def BucketTestcases_def)
  then have run: "api_start flags0 env0 legacy_db [] = (Inr srv, migrated legacy_db, [BucketTestcases, BucketSubmissions])"
    using flags env c by (simp add: api_start_def RunStartupMigrations_result split: if_splits)
  have mc: "keeps_buckets (ae_minio env0)" using keeps_buckets_client by (simp add: env0_def)
  show ?thesis
    using api_server_ready [OF run mc legacy_db_ok] unfolding run
    by (auto simp: migrated_def legacy_db_def clear_empty_email_def)
qed

section \<open>A node that is up\<close>

text \<open>
  A node never asks nsjail for a unified-hierarchy cgroup unless a process could be attached to one; without that it
  drops to resource limits, or uses the parents of the older hierarchy.
\<close>

lemma node_start_fields:
  assumes "node_start fl env = Inr nd"
  obtains v2 where "resolve_cgroup (ne_exists env) (nf_cgroup fl) = Some v2"
    and "nd_sandbox nd = (node_sandbox fl v2 (v2 \<and> probeCgroupAttach env \<noteq> None))\<lparr>nc_CgroupRoot := ''/sys/fs/cgroup''\<rparr>"
    and "nd_registry nd = node_registry"
    and "nd_cache nd = Prune (ne_listing env) (NewTestcaseCache (nf_workdir fl @ ''/testcases'') 200 (ne_disk env))"
  using assms
  by (auto simp: node_start_def Sandbox_New_def node_sandbox_def Let_def split: if_splits sum.splits option.splits)

lemma node_cgroup_args:
  assumes "node_start fl env = Inr nd"
  shows "cgroup_args (nd_sandbox nd) =
    (if resolve_cgroup (ne_exists env) (nf_cgroup fl) = Some True
     then if probeCgroupAttach env = None then [''--use_cgroupv2''] else []
     else [''--cgroup_mem_parent'', ''oj-judge'', ''--cgroup_pids_parent'', ''oj-judge'', ''--cgroup_cpu_parent'', ''oj-judge''])"
  using assms by (rule node_start_fields) (auto simp: cgroup_args_def node_sandbox_def)

text \<open>The cache a node starts with is a reachable one, so the invariant of its interleavings holds from the start.\<close>

lemma node_cache_reachable:
  assumes "node_start fl env = Inr nd"
    and "case ne_listing env of None \<Rightarrow> True | Some entries \<Rightarrow> canonical_listing entries"
  shows "tc_reachable (nf_workdir fl @ ''/testcases'') 200 (nd_cache nd)"
  using assms(1)
proof (rule node_start_fields)
  assume "nd_cache nd = Prune (ne_listing env) (NewTestcaseCache (nf_workdir fl @ ''/testcases'') 200 (ne_disk env))"
  then show ?thesis
    using assms(2) tc_reachable.fresh tc_reachable.pruned by (cases "ne_listing env") (auto simp: Prune_def)
qed

section \<open>The workers of a node\<close>

text \<open>
  \<open>Scheduler.Run\<close>: each worker is a subscription of its own that ends once, with or without an error, and reports
  it on a channel with room for all of them. The caller takes the first report and then waits for every worker.
\<close>

datatype pool_main = Receiving | Joining "error option" | RunReturned "error option"

record pool =
  pl_workers :: "error option option list"
  pl_errCh :: "error option list"
  pl_main :: pool_main

definition Scheduler_Run :: "nat \<Rightarrow> pool" where
  "Scheduler_Run workers = \<lparr>pl_workers = replicate workers None, pl_errCh = [], pl_main = Receiving\<rparr>"

inductive pool_step :: "pool \<Rightarrow> pool \<Rightarrow> bool" where
  worker_ends: "i < length (pl_workers p) \<Longrightarrow> pl_workers p ! i = None \<Longrightarrow>
    pool_step p (p\<lparr>pl_workers := (pl_workers p)[i := Some e], pl_errCh := pl_errCh p @ [e]\<rparr>)"
| first_report: "pl_main p = Receiving \<Longrightarrow> pl_errCh p = e # rest \<Longrightarrow>
    pool_step p (p\<lparr>pl_main := Joining e, pl_errCh := rest\<rparr>)"
| all_joined: "pl_main p = Joining e \<Longrightarrow> None \<notin> set (pl_workers p) \<Longrightarrow> pool_step p (p\<lparr>pl_main := RunReturned e\<rparr>)"

inductive pool_reachable :: "nat \<Rightarrow> pool \<Rightarrow> bool" for n where
  launched: "pool_reachable n (Scheduler_Run n)"
| step: "pool_reachable n p \<Longrightarrow> pool_step p q \<Longrightarrow> pool_reachable n q"

definition report_of :: "pool \<Rightarrow> error option set" where
  "report_of p = (case pl_main p of Receiving \<Rightarrow> {} | Joining e \<Rightarrow> {e} | RunReturned e \<Rightarrow> {e})"

definition pool_inv :: "nat \<Rightarrow> pool \<Rightarrow> bool" where
  "pool_inv n p \<longleftrightarrow> length (pl_workers p) = n \<and> Some ` (set (pl_errCh p) \<union> report_of p) \<subseteq> set (pl_workers p) \<and>
     (case pl_main p of RunReturned e \<Rightarrow> None \<notin> set (pl_workers p) | _ \<Rightarrow> True)"

lemma set_update_fresh: "i < length xs \<Longrightarrow> xs ! i = None \<Longrightarrow> Some x \<in> set xs \<Longrightarrow> Some x \<in> set (xs[i := y])"
  by (metis in_set_conv_nth length_list_update nth_list_update_neq option.distinct(1))

lemma pool_inv_reachable: "pool_reachable n p \<Longrightarrow> pool_inv n p"
proof (induction rule: pool_reachable.induct)
  case launched
  then show ?case by (simp add: pool_inv_def Scheduler_Run_def report_of_def)
next
  case (step p q)
  from step.hyps(2) step.IH show ?case
  proof (cases rule: pool_step.cases)
    case (worker_ends i e)
    have "\<not> (\<exists>e. pl_main p = RunReturned e)"
      using worker_ends step.IH by (auto simp: pool_inv_def) (metis nth_mem)
    then show ?thesis
      using worker_ends step.IH set_update_fresh [OF worker_ends(2,3)]
      by (auto simp: pool_inv_def report_of_def set_update_memI split: pool_main.splits)
  qed (auto simp: pool_inv_def report_of_def)
qed

text \<open>The call returns only after every worker has ended, with what one of them reported.\<close>

lemma Run_returns:
  assumes "pool_reachable n p" and "pl_main p = RunReturned e"
  shows "None \<notin> set (pl_workers p)" and "Some e \<in> set (pl_workers p)"
  using pool_inv_reachable [OF assms(1)] assms(2) by (simp_all add: pool_inv_def report_of_def)

text \<open>Without workers it never returns, cancelled or not.\<close>

lemma no_workers_hang: "pool_reachable 0 p \<Longrightarrow> pl_main p = Receiving"
  using pool_inv_reachable [of 0 p] by (cases "pl_main p") (auto simp: pool_inv_def report_of_def)

end
