(* ===== verification/Jsonb.thy ===== *)
theory Jsonb
  imports Models
begin

text \<open>
  JSONB columns: \<open>infra/postgres/jsonb.go\<close>, the \<open>Value\<close> and \<open>Scan\<close> methods of \<open>models.TestCaseResults\<close> and
  \<open>models.ContestSettings\<close>, and how the submission repository writes and reads its results column. A nil slice or map is
  \<open>None\<close>, encoded as the JSON document \<open>null\<close>; the driver hands out SQL NULL, bytes, a string, or something else.
\<close>

datatype 'a sql_value = SqlNull | SqlBytes "'a option payload" | SqlText "'a option payload" | SqlOther

definition json_Unmarshal :: "'a option payload \<Rightarrow> error + 'a option" where
  "json_Unmarshal b = (case decode b of None \<Rightarrow> Inl ''json'' | Some v \<Rightarrow> Inr v)"

definition scanJSONB :: "'a sql_value \<Rightarrow> 'a option \<Rightarrow> error + 'a option" where
  "scanJSONB src dst =
     (case src of
        SqlNull \<Rightarrow> Inr dst
      | SqlBytes b \<Rightarrow> json_Unmarshal b
      | SqlText b \<Rightarrow> json_Unmarshal b
      | SqlOther \<Rightarrow> Inl ''scanJSONB: unsupported source type'')"

definition marshalJSONB :: "'a option \<Rightarrow> 'a sql_value" where
  "marshalJSONB v = (if v = None then SqlNull else SqlBytes (Encoded v))"

definition json_Value :: "'a option \<Rightarrow> 'a sql_value" where
  "json_Value v = SqlBytes (Encoded v)"

definition json_Scan :: "'a sql_value \<Rightarrow> error + 'a option" where
  "json_Scan src = (case src of SqlBytes b \<Rightarrow> json_Unmarshal b | _ \<Rightarrow> Inl ''Scan: expected []byte'')"

text \<open>The repository's parameter is the document as a string, or NULL; it reads raw bytes and skips NULL.\<close>

definition results_param :: "test_case_result list option \<Rightarrow> test_case_result list sql_value" where
  "results_param v = (case marshalJSONB v of SqlBytes b \<Rightarrow> SqlText b | _ \<Rightarrow> SqlNull)"

definition stored_column :: "'a sql_value \<Rightarrow> 'a sql_value" where
  "stored_column p = (case p of SqlText b \<Rightarrow> SqlBytes b | _ \<Rightarrow> p)"

definition read_results :: "test_case_result list sql_value \<Rightarrow> error + test_case_result list option" where
  "read_results col =
     (case col of
        SqlNull \<Rightarrow> Inr None
      | SqlBytes b \<Rightarrow> (case json_Unmarshal b of Inl e \<Rightarrow> Inl ''unmarshal test_case_results'' | Inr v \<Rightarrow> Inr v)
      | _ \<Rightarrow> Inl ''scan'')"

section \<open>Round trips\<close>

lemma results_roundtrip: "read_results (stored_column (results_param v)) = Inr v"
  by (cases v) (simp_all add: read_results_def stored_column_def results_param_def marshalJSONB_def json_Unmarshal_def)

lemma json_value_roundtrip: "json_Scan (json_Value v) = Inr v"
  by (simp add: json_Scan_def json_Value_def json_Unmarshal_def)

lemma jsonb_roundtrip: "scanJSONB (marshalJSONB v) None = Inr v"
  by (cases v) (simp_all add: scanJSONB_def marshalJSONB_def json_Unmarshal_def)

text \<open>The type's own \<open>Scan\<close> reads everything the repository stores but the NULL it stores for a missing list.\<close>

lemma json_Scan_repository: "json_Scan (stored_column (results_param v)) = Inr v \<longleftrightarrow> v \<noteq> None"
  by (cases v) (simp_all add: json_Scan_def stored_column_def results_param_def marshalJSONB_def json_Unmarshal_def)

end
