(* ===== verification/Spec2Isabelle.thy ===== *)
theory Spec2Isabelle
  imports Hub Testcase_Cache Server Nsjail_Group Message_Queue Result_Consumer Pumps Startup Jsonb
begin

text \<open>
  Verification development for the online judge: a Go API server and judger nodes that share PostgreSQL, Redis and an
  object store. All file names are relative to \<open>src/\<close>.

  \<^bold>\<open>How the parts work together.\<close> A request passes the middleware and a handler (\<open>internal/api\<close>), which reads and
  writes the database through the repositories (\<open>internal/infra/postgres\<close>). A submission's source goes to the object
  store (\<open>internal/storage\<close>) and a task to the stream \<open>oj:judge:tasks\<close> (\<open>internal/mq/redis\<close>). A judger node
  (\<open>internal/judger\<close>) takes it, compiles, runs the test cases in nsjail (\<open>sandbox/nsjail\<close>), compares outputs and
  publishes a result on \<open>oj:judge:results\<close>. Two consumer groups of the API server read that stream: one writes the
  verdict into the submission's row, the other (\<open>internal/core/ranking/service.go\<close>) updates the contest's score
  entries in Redis with the contest's strategy (\<open>internal/core/contest\<close>), rebuilds the board and publishes it. The hub
  (\<open>websocket.go\<close>) sends published boards to the WebSocket clients of the contest.

  \<^bold>\<open>Theories, in dependency order.\<close>

  \<^item> \<open>OJ_Prelude\<close>: Go's integers (values in \<open>int\<close>, wrapped by \<open>wrap64\<close> wherever an operation can leave the 64-bit range),
    times and durations in nanoseconds, association lists for Go maps whose iteration order is a parameter,
    \<open>sort_slice\<close>, payloads (a JSON document that decodes or not), decimal printing and parsing, and the locales
    \<open>weak_order\<close> and \<open>strict_total_order\<close>. \<open>Go_Strings\<close>: the string functions of Go's library that the code uses.
  \<^item> \<open>Models\<close>: \<open>internal/models\<close> and the messages of \<open>internal/mq/mq.go\<close>; contest phases and settings.
  \<^item> \<open>Strategy\<close>, \<open>ICPC\<close>: \<open>internal/core/contest/strategy.go\<close> and \<open>strategy_icpc.go\<close>. \<open>Apply\<close> and \<open>Rank\<close> of the
    OI, IOI and ICPC strategies, \<open>RevealNext\<close>, the registry. The lemmas relate the event-by-event update to a
    reference reading of the whole history, the revealed board to the one without a freeze, and the ranks to the
    number of better rows. Locales: \<open>row_accumulator\<close> (what may be accumulated into a row), \<open>competition_ranking\<close>,
    \<open>board_ranking\<close> (their sum, interpreted for both orders of the code) and \<open>scoring_strategy\<close> (what the ranking service
    asks of a strategy, interpreted for ICPC, for OI and for whatever the registry returns).
  \<^item> \<open>Ranking\<close>: \<open>core/ranking/types.go\<close> and \<open>service.go\<close>. The state is the Redis hash of entries per contest, the
    snapshots, reveal flags, published messages and the metadata cache; every Redis call and loader may fail. The lemmas
    give a simulation by an abstract board (replay of the history), an invariant of the store, the frame of each message,
    and noninterference of the frozen board.
  \<^item> \<open>Hub\<close>, \<open>Pumps\<close>: \<open>core/ranking/websocket.go\<close>. Rooms, channels with their capacities and clients as a state, single
    actions of the goroutines as a step relation; the pumps and the subscription loop as functions of the events
    they select on. The lemmas show what an open client has received in every interleaving, where the hub can panic,
    that frames reach the wire in order, and which clients the deadlines cut off.
  \<^item> \<open>Verdict\<close>: \<open>judger/verdict.go\<close>, \<open>orchestrator.go\<close>, \<open>runner_standard.go\<close>, \<open>runner_special.go\<close>,
    \<open>interactive/orchestrator.go\<close> and the sandbox interface. \<open>Judger\<close>: \<open>config.go\<close>, \<open>compiler.go\<close>, \<open>scheduler.go\<close>: one
    message from decoding to acknowledgement, with panics and deferred clean-ups. \<open>Testcase_Cache\<close>:
    \<open>testcase_cache.go\<close>: the LRU list and its index, downloads in flight, background deletion and pruning as a step
    relation, unpacking of archives.
  \<^item> \<open>Nsjail\<close>: \<open>judger/sandbox/nsjail/sandbox.go\<close>, \<open>args.go\<close>, \<open>cgroup.go\<close>, \<open>execute.go\<close>: the command line, the cgroup of a
    run, the classification of a result. \<open>Nsjail_Group\<close>: \<open>pair.go\<close> and \<open>group.go\<close>: the open pipe ends of the judger and
    the descriptor table of every child. The lemmas show what an accepted verdict says about limits, what a run can reach,
    that each process has exactly its own channel ends, and that a group of processes can always run out.
  \<^item> \<open>Database\<close>: the tables of \<open>migrations/001_init.sql\<close> as lists of records, the repositories of
    \<open>internal/infra/postgres\<close> as functions on them, and the integrity every sequence of writes keeps. \<open>Jsonb\<close>: \<open>jsonb.go\<close>
    and the \<open>Value\<close> and \<open>Scan\<close> methods of the models, with their round trips.
  \<^item> \<open>Http\<close>: \<open>api/middleware/auth.go\<close> and parameter parsing. \<open>Submission\<close>, \<open>Admin\<close>, \<open>Resolver\<close>, \<open>Accounts\<close>, \<open>Contest_Api\<close>,
    \<open>User_Api\<close>: the handlers of \<open>api/handler\<close> (\<open>submission.go\<close>; \<open>admin.go\<close>; \<open>resolver.go\<close>; \<open>auth.go\<close>; \<open>contest.go\<close> and
    \<open>problem.go\<close>; \<open>user.go\<close>). \<open>Server\<close>: the route table of \<open>api/server.go\<close> over one state of database, stores, queue
    and Redis, and \<open>ranking.go\<close>; access rights and secrecy are stated there for whole requests.
  \<^item> \<open>Message_Queue\<close>: \<open>mq/redis/stream.go\<close>. Locale \<open>pending_group\<close> states what the recovery relies on of a Redis consumer
    group and of the handler; it is interpreted on a list implementation of the commands. \<open>Result_Consumer\<close>: the
    handler of \<open>cmd/api-server/main.go\<close> that writes results back.
  \<^item> \<open>Storage\<close>, \<open>Mail\<close>: \<open>internal/storage\<close> and \<open>internal/mail\<close>. \<open>Startup\<close>: \<open>cmd/api-server/main.go\<close>,
    \<open>cmd/judger-node/main.go\<close>, \<open>migrate.go\<close>, the end of the API process (\<open>Server.Run\<close>) and the worker pool
    (\<open>Scheduler.Run\<close>).
  \<^item> This theory: properties that span the judger, the consumers and the hub.

  \<^bold>\<open>Conventions.\<close> Structs are records, enumerations datatypes (with a constructor for strings outside the known values,
  since Go's are strings). A function with effects returns the new state; errors are \<open>Inl\<close> or an error reply; a panic of
  the judging pipeline is an outcome of its own. What a request or run cannot determine itself is a field of an
  environment record: the clock, random numbers, which external calls fail, answers of libraries. Goroutines that share
  state are inductive step relations, and statements about them quantify over all reachable states.

  \<^bold>\<open>Loops and bounds.\<close> Loops are structural recursion or have a termination proof; no definition uses fuel. The recovery
  of pending messages may run forever, so it is a \<open>partial_function\<close> into options, and \<open>Message_Queue\<close> shows
  exactly when it returns. Event loops consume a finite list of the events they select on. Constants (channel
  capacities, batch sizes, timeouts, archive and log limits) have the code's values.

  \<^bold>\<open>Not modelled.\<close> The JSON encoding of replies and messages beyond decodable or not; URL matching, static files, CORS headers and request logging (gin); the WebSocket protocol; bcrypt,
  SHA-256 and token signing; the ILIKE user search; the Redis, PostgreSQL and MinIO clients, connection pools and
  SMTP; the nsjail program, the kernel and the judged programs; flag parsing and log output; \<open>pkg/ecode\<close>, which no other
  package uses; the web client. Database transactions are atomic here; concurrent requests are sequences of whole
  requests. Copying of sandbox logs is not interleaved with the run: which part was read in time is a parameter.
\<close>

section \<open>From an accepted submission to its verdict\<close>

text \<open>
  C5: A verdict reaches the row it belongs to, and nothing else. Take a submission stored in the database,
  the task the API server builds for it, and any result a judger node publishes for that task.
  Consuming the result succeeds, replaces the judging fields of exactly this submission's row and leaves
  every other row and table as it was. The ranking service, which reads the same result, gets the row's
  user, problem, contest, verdict and points, and its creation time as the time of submission.
\<close>

theorem verdict_reaches_row:
  assumes "db_reachable d" and "sub \<in> set (db_submissions d)"
    and "js_published (snd (handleMessage jenv (Encoded (tm_JudgeTask (judge_task_of env sub pd))) jst)) = js_published jst @ new"
    and "r \<in> set new"
  shows "persist_result now (Encoded r) d =
      (None, d\<lparr>db_submissions := map (\<lambda>s. if s = sub then judged_row now r s else s) (db_submissions d)\<rparr>) \<and>
    rm_ContestID r = sub_ContestID sub \<and>
    (let ev = event_of meta r; row = judged_row now r sub
     in ev_UserID ev = sub_UserID row \<and> ev_ProblemID ev = sub_ProblemID row \<and> ev_Status ev = sub_Status row \<and>
        ev_Score ev = sub_Score row \<and> (sub_CreatedAt sub \<noteq> 0 \<longrightarrow> ev_SubmitTime ev = sub_CreatedAt row))"
proof -
  let ?task = "tm_JudgeTask (judge_task_of env sub pd)"
  have "reports ?task r" using handleMessage_reports [of "Encoded ?task" ?task jenv jst] assms(3,4) by auto
  then have r: "rm_SubmissionID r = sub_ID sub" "rm_UserID r = sub_UserID sub" "rm_ProblemID r = sub_ProblemID sub"
    "rm_ContestID r = sub_ContestID sub" "rm_SubmittedAt r = sub_CreatedAt sub"
    by (simp_all add: reports_def judge_task_of_def split: prod.splits)
  have "distinct (map sub_ID (db_submissions d))"
    using db_ok_reachable [OF assms(1)] by (simp add: db_ok_def keys_ok_def)
  from persist_result_row [OF this assms(2) r(1)] show ?thesis
    by (simp add: r event_of_def judged_row_def submitTimeOf_def Let_def)
qed

text \<open>Submission 4 of user 1 on problem 3, created in the database of the sample contest.\<close>

definition pipeline_db :: db where
  "pipeline_db = snd (SubmissionRepo_Create 2000 (new_submission (oi_env 2000) 1 (Some 2) oi_request ''k'') sample_db)"

definition pipeline_row :: submission where
  "pipeline_row = (new_submission (oi_env 2000) 1 (Some 2) oi_request ''k'')\<lparr>sub_ID := db_seq sample_db, sub_CreatedAt := 2000, sub_UpdatedAt := 2000\<rparr>"

definition pipeline_run :: judger_state where
  "pipeline_run = snd (handleMessage sample_judger (Encoded (tm_JudgeTask (judge_task_of (oi_env 2000) pipeline_row
     (empty_judge_config, \<lparr>pjm_JudgeType = JudgeStandard, pjm_TimeLimitMs = 1000, pjm_MemLimitKB = 65536\<rparr>, [oi_case])))) idle_judger)"

lemma pipeline_rows: "db_submissions pipeline_db = [pipeline_row]"
proof -
  have "db_submissions sample_db = []"
    by (simp add: sample_db_def ContestRepo_AddProblem_def link_problem_def CreateProblem_def ContestRepo_Create_def
      UserRepo_Create_def empty_db_def sample_user_def sample_contest_def sample_problem_def db_has Let_def)
  moreover have "has_user sample_db 1" "has_problem sample_db 3" "has_contest sample_db 2"
    using sample_db_tables by (auto simp: db_has)
  ultimately show ?thesis
    by (simp add: pipeline_db_def pipeline_row_def SubmissionRepo_Create_def new_submission_def oi_request_def Let_def)
qed

theorem verdict_reaches_row_witness:
  "\<exists>r. js_published pipeline_run = [r] \<and>
     map sub_Status (db_submissions (snd (persist_result 3000 (Encoded r) pipeline_db))) = [rm_Status r]"
proof -
  have "\<forall>r. je_publish sample_judger False r" by (simp add: sample_judger_def)
  then obtain new where new: "js_published pipeline_run = js_published idle_judger @ new" "length new = 1"
    using handleMessage_reports [OF decode.simps(1), of sample_judger _ idle_judger] unfolding pipeline_run_def by metis
  then obtain r where r: "new = [r]" by (cases new) auto
  have reach: "db_reachable pipeline_db"
    unfolding pipeline_db_def by (rule db_reachable.step [OF sample_db_reachable db_step.create_submission])
  have "persist_result 3000 (Encoded r) pipeline_db = (None, pipeline_db\<lparr>db_submissions :=
      map (\<lambda>s. if s = pipeline_row then judged_row 3000 r s else s) (db_submissions pipeline_db)\<rparr>)"
    using verdict_reaches_row [OF reach _ new(1) [unfolded pipeline_run_def], of r 3000] r by (simp add: pipeline_rows)
  then show ?thesis using new r by (simp add: pipeline_rows judged_row_def idle_judger_def)
qed

section \<open>From the ranking service to the spectators\<close>

lemma show_int_chars: "c \<in> set (show_int i) \<Longrightarrow> is_digit c \<or> c = CHR ''-''"
  using show_nat_digits by (auto simp: show_int_def list_all_iff split: if_splits)

lemma show_int_hd: "show_int i = c # s \<Longrightarrow> is_digit c \<or> c = CHR ''-''"
  using show_int_chars [of c i] by simp

lemma parse_channel_redisKey:
  assumes "int64_range cid"
  shows "parse_channel (redisKey cid keyEvents) = Some cid"
proof -
  have colon: "takeWhile (\<lambda>c. c \<noteq> CHR '':'') (show_int cid @ '':events'') = show_int cid"
    using show_int_chars [of "CHR '':''" cid] by (subst takeWhile_append2) auto
  have "show_int cid \<noteq> []" using parse_show_int [OF assms] by (auto simp: parse_int.simps)
  then obtain c s where cs: "show_int cid = c # s" by (cases "show_int cid") auto
  have "c \<noteq> CHR '' ''" "c \<noteq> CHR 0x09" using show_int_hd [OF cs] by (auto simp: is_digit_def)
  then have blank: "dropWhile (\<lambda>c. c = CHR '' '' \<or> c = CHR 0x09) (show_int cid @ '':events'') = show_int cid @ '':events''"
    by (simp add: cs)
  have key: "redisKey cid keyEvents = ''oj:ranking:'' @ (show_int cid @ '':events'')"
    by (simp add: redisKey_def keyEvents_def)
  have "drop (length ''oj:ranking:'') (redisKey cid keyEvents) = show_int cid @ '':events''"
    "take (length ''oj:ranking:'') (redisKey cid keyEvents) = ''oj:ranking:''"
    unfolding key by simp_all
  then show ?thesis
    unfolding parse_channel_def Let_def blank colon
    using parse_show_int [OF assms] by (simp add: blank colon)
qed

text \<open>
  C39: The channel on which the ranking service publishes a contest's board is the one the hub subscribes
  to, and parses back to that contest: a published snapshot that finds room in the hub's queue is queued for exactly the
  contest it was made for.
\<close>

theorem published_board_is_queued:
  assumes "int64_range cid" and "publishSnapshot env cid snap st = (None, st')"
    and "length (h_broadcast h) < broadcastCap"
  shows "case last (rs_published st') of (channel, payload) \<Rightarrow>
    parse_channel channel = Some cid \<and>
    dispatchPubSubMsg channel payload h = h\<lparr>h_broadcast := h_broadcast h @ [(cid, snap)]\<rparr>"
proof -
  have "last (rs_published st') = (redisKey cid keyEvents, snap)"
    using assms(2) by (auto simp: publishSnapshot_def split: if_splits)
  then show ?thesis
    using parse_channel_redisKey [OF assms(1)] assms(3) by (simp add: dispatchPubSubMsg_def)
qed

definition board0 :: board_snapshot where
  "board0 = \<lparr>bs_ContestID = 5, bs_ContestType = ContestICPC, bs_Frozen = False, bs_Problems = [''A''],
     bs_Contestants = [], bs_UpdatedAt = 0\<rparr>"

theorem published_board_is_queued_witness:
  "h_broadcast (dispatchPubSubMsg ''oj:ranking:5:events'' board0 NewHub) = [(5, board0)]"
proof -
  let ?st = "snd (publishSnapshot Ranking.sample_env 5 board0 empty_state)"
  have five: "show_int 5 = ''5''" by code_simp
  have pub: "publishSnapshot Ranking.sample_env 5 board0 empty_state = (None, ?st)"
    and last: "last (rs_published ?st) = (''oj:ranking:5:events'', board0)"
    by (simp_all add: publishSnapshot_def Ranking.sample_env_def redisKey_def keyEvents_def five)
  have room: "length (h_broadcast (NewHub :: board_snapshot hub)) < broadcastCap"
    by (simp add: NewHub_def broadcastCap_def)
  show ?thesis
    using published_board_is_queued [OF _ pub room] unfolding last by (simp add: NewHub_def)
qed

end
